(* ===== verification/Relay_Prelude.thy ===== *)
theory Relay_Prelude
  imports Main "HOL-Library.Word" "HOL-Library.AList" "HOL-Library.Char_ord"
    "HOL-Library.List_Lexorder" "HOL-Library.Product_Lexorder"
begin

text \<open>
  Shared vocabulary of the development: the fixed-width integers of the Rust source, the
  saturating operations of its standard library, hash maps as association lists with distinct
  keys (the order of the list stands for the unspecified iteration order of a
  \<^verbatim>\<open>HashMap\<close>), \<^verbatim>\<open>Iterator::min_by_key\<close>, and the "evict the smallest entry of a full map"
  step that four places of the relay write out. The lemmas on them are collected in
  \<open>hm_simps\<close> (lookups, keys and sizes after an update) so that component proofs are short.
\<close>

section \<open>Integers\<close>

type_synonym u8 = "8 word"
type_synonym u16 = "16 word"
type_synonym u32 = "32 word"
type_synonym u64 = "64 word"

type_synonym ('k, 'v) hash_map = "('k \<times> 'v) list"

named_theorems hm_simps \<open>lookups, keys and sizes of association lists after an operation\<close>
named_theorems relay_defs \<open>definitions a component proof unfolds as a group\<close>

definition sat_sub :: "'a::len word \<Rightarrow> 'a word \<Rightarrow> 'a word" where
  "sat_sub a b = (if a < b then 0 else a - b)"

definition sat_add :: "'a::len word \<Rightarrow> 'a word \<Rightarrow> 'a word" where
  "sat_add a b = (if a + b < a then - 1 else a + b)"

lemma unat_lt2p: "unat (x :: 'a::len word) < 2 ^ LENGTH('a)"
  by (rule unsigned_less)

lemma unat_sat_sub: "unat (sat_sub a b) = unat a - unat b"
proof (cases "a < b")
  case True
  then show ?thesis by (simp add: sat_sub_def word_less_nat_alt)
next
  case False
  then show ?thesis by (simp add: sat_sub_def unat_sub)
qed

lemma sat_add_ge: "a \<le> sat_add a b"
  by (auto simp: sat_add_def not_less)

lemma unat_sat_add:
  fixes a b :: "'a::len word"
  shows "unat (sat_add a b) = min (unat a + unat b) (2 ^ LENGTH('a) - 1)"
proof (cases "unat a + unat b < 2 ^ LENGTH('a)")
  case True
  then have "unat (a + b) = unat a + unat b" by (simp add: unat_add_lem)
  moreover from True have "unat a + unat b \<le> 2 ^ LENGTH('a) - 1" by simp
  ultimately show ?thesis by (simp add: sat_add_def word_less_nat_alt min_absorb1)
next
  case False
  have "unat (a + b) = (unat a + unat b) mod 2 ^ LENGTH('a)"
    by (simp add: unat_word_ariths)
  also have "\<dots> = (unat a + unat b - 2 ^ LENGTH('a)) mod 2 ^ LENGTH('a)"
    using False by (simp add: le_mod_geq)
  also have "\<dots> = unat a + unat b - 2 ^ LENGTH('a)"
  proof (rule mod_less)
    show "unat a + unat b - 2 ^ LENGTH('a) < 2 ^ LENGTH('a)"
      using unat_lt2p [of a] unat_lt2p [of b] by linarith
  qed
  finally have wrap: "unat (a + b) = unat a + unat b - 2 ^ LENGTH('a)" .
  then have "unat (a + b) < unat a" using False unat_lt2p [of b] by linarith
  then have "a + b < a" by (simp add: word_less_nat_alt)
  with False show ?thesis by (simp add: sat_add_def unsigned_minus_1_eq_mask mask_eq_exp_minus_1)
qed

lemma unat_dec: "0 < (x :: 'a::len word) \<Longrightarrow> unat (x - 1) = unat x - 1"
  by (metis unat_minus_one word_gt_0)

lemma unat_inc_lt: "(x :: 'a::len word) < y \<Longrightarrow> unat (x + 1) = unat x + 1"
proof -
  assume "x < y"
  then have "unat x < unat y" by (simp add: word_less_nat_alt)
  then have "unat x + 1 < 2 ^ LENGTH('a)" using unat_lt2p [of y] by linarith
  then show ?thesis by (simp add: unat_word_ariths)
qed

section \<open>Hash maps\<close>

abbreviation hm_keys :: "('k, 'v) hash_map \<Rightarrow> 'k set" where
  "hm_keys m \<equiv> fst ` set m"

definition hm_wf :: "('k, 'v) hash_map \<Rightarrow> bool" where
  "hm_wf m \<longleftrightarrow> distinct (map fst m)"

text \<open>\<^verbatim>\<open>*m.entry(k).or_insert(d) = f(..)\<close>: update the slot of a key, from a default when absent.\<close>

definition hm_upsert :: "'k \<Rightarrow> 'v \<Rightarrow> ('v \<Rightarrow> 'v) \<Rightarrow> ('k, 'v) hash_map \<Rightarrow> ('k, 'v) hash_map" where
  "hm_upsert k d f m = AList.update k (f (case map_of m k of None \<Rightarrow> d | Some v \<Rightarrow> v)) m"

lemma hm_wf_Nil [simp]: "hm_wf []"
  by (simp add: hm_wf_def)

lemma hm_wf_update [simp, intro]: "hm_wf m \<Longrightarrow> hm_wf (AList.update k v m)"
  by (simp add: hm_wf_def distinct_update)

lemma hm_wf_delete [simp, intro]: "hm_wf m \<Longrightarrow> hm_wf (AList.delete k m)"
  by (simp add: hm_wf_def distinct_delete)

lemma hm_wf_upsert [simp, intro]: "hm_wf m \<Longrightarrow> hm_wf (hm_upsert k d f m)"
  by (simp add: hm_upsert_def)

lemmas [hm_simps] = update_conv' delete_conv' dom_update

lemma map_of_upsert [hm_simps]:
  "map_of (hm_upsert k d f m) =
     (map_of m)(k \<mapsto> f (case map_of m k of None \<Rightarrow> d | Some v \<Rightarrow> v))"
  by (simp add: hm_upsert_def update_conv')

lemma keys_delete [hm_simps]: "hm_keys (AList.delete k m) = hm_keys m - {k}"
  by (induction m) auto

lemma length_update [hm_simps]:
  "length (AList.update k v m) = (if k \<in> hm_keys m then length m else Suc (length m))"
  by (induction m) auto

lemma hm_wf_card: "hm_wf m \<Longrightarrow> length m = card (hm_keys m)"
  unfolding hm_wf_def by (metis distinct_card length_map list.set_map)

lemma length_delete [hm_simps]:
  assumes "hm_wf m"
  shows "length (AList.delete k m) = (if k \<in> hm_keys m then length m - 1 else length m)"
proof -
  have "length (AList.delete k m) = card (hm_keys m - {k})"
    using assms by (simp add: hm_wf_card keys_delete)
  then show ?thesis using assms by (simp add: hm_wf_card card_Diff_singleton_if)
qed

lemma map_of_Some_key: "map_of m k = Some v \<Longrightarrow> k \<in> hm_keys m"
  by (force dest: map_of_SomeD)

lemma map_of_None_key: "map_of m k = None \<longleftrightarrow> k \<notin> hm_keys m"
  by (simp add: map_of_eq_None_iff)

lemma hm_wf_map_of: "hm_wf m \<Longrightarrow> (k, v) \<in> set m \<longleftrightarrow> map_of m k = Some v"
  by (simp add: hm_wf_def)

lemma distinct_map_sort_key: "distinct (map f (sort_key g xs)) = distinct (map f xs)"
  by (simp add: distinct_map)

section \<open>First minimum by a key, and eviction\<close>

fun min_by_key :: "('a \<Rightarrow> 'b::linorder) \<Rightarrow> 'a list \<Rightarrow> 'a option" where
  "min_by_key f [] = None"
| "min_by_key f (x # xs) =
     (case min_by_key f xs of None \<Rightarrow> Some x | Some y \<Rightarrow> Some (if f x \<le> f y then x else y))"

lemma min_by_key_None [simp]: "min_by_key f xs = None \<longleftrightarrow> xs = []"
  by (cases xs) (auto split: option.splits)

lemma min_by_key_in: "min_by_key f xs = Some x \<Longrightarrow> x \<in> set xs"
  by (induction xs arbitrary: x) (auto split: option.splits if_splits)

lemma min_by_key_le: "min_by_key f xs = Some x \<Longrightarrow> y \<in> set xs \<Longrightarrow> f x \<le> f y"
proof (induction xs arbitrary: x y)
  case Nil
  then show ?case by simp
next
  case (Cons a xs)
  show ?case
  proof (cases "min_by_key f xs")
    case None
    with Cons.prems show ?thesis by simp
  next
    case (Some z)
    with Cons.IH [OF Some] Cons.prems show ?thesis
      by (auto split: if_splits dest: order_trans)
  qed
qed

text \<open>
  The eviction step: when the map is full and the key is new, the entry with the smallest
  measure goes. \<open>cap\<close> is \<^verbatim>\<open>MAX_TRACKED_IPS\<close> at every use.
\<close>

definition evict_min_by ::
  "nat \<Rightarrow> ('v \<Rightarrow> 'b::linorder) \<Rightarrow> ('k, 'v) hash_map \<Rightarrow> 'k \<Rightarrow> ('k, 'v) hash_map" where
  "evict_min_by cap f m k =
     (if k \<notin> hm_keys m \<and> cap \<le> length m then
        (case min_by_key (\<lambda>(_, v). f v) m of
           None \<Rightarrow> m
         | Some (victim, _) \<Rightarrow> AList.delete victim m)
      else m)"

lemma evict_min_by_wf [simp, intro]: "hm_wf m \<Longrightarrow> hm_wf (evict_min_by cap f m k)"
  by (auto simp: evict_min_by_def split: option.splits)

lemma evict_min_by_self: "map_of (evict_min_by cap f m k) k = map_of m k"
  by (auto simp: evict_min_by_def delete_conv' map_of_eq_None_iff split: option.splits
      intro: sym)

lemma evict_min_by_sub: "map_of (evict_min_by cap f m k) j = Some v \<Longrightarrow> map_of m j = Some v"
  by (auto simp: evict_min_by_def delete_conv' split: option.splits if_splits)

lemma evict_min_by_room:
  assumes "hm_wf m" "0 < cap" "length m \<le> cap" "k \<notin> hm_keys m"
  shows "length (evict_min_by cap f m k) < cap"
proof (cases "cap \<le> length m")
  case False
  with assms show ?thesis by (simp add: evict_min_by_def)
next
  case True
  with assms have "m \<noteq> []" by auto
  then obtain v w where mn: "min_by_key (\<lambda>(_, v). f v) m = Some (v, w)"
    by (metis min_by_key_None option.exhaust surj_pair)
  then have "v \<in> hm_keys m" by (force dest: min_by_key_in)
  with assms True mn show ?thesis
    by (auto simp: evict_min_by_def length_delete)
qed

lemma evict_min_by_length_le: "hm_wf m \<Longrightarrow> length (evict_min_by cap f m k) \<le> length m"
  by (auto simp: evict_min_by_def length_delete split: option.splits)

text \<open>The victim has the least measure: whatever is kept is at least as recent.\<close>

lemma evict_min_by_victim:
  assumes "hm_wf m" "map_of m j = Some v" "map_of (evict_min_by cap f m k) j = None"
    and "map_of (evict_min_by cap f m k) i = Some w"
  shows "f v \<le> f w"
proof -
  from assms(2,3) obtain u where mn: "min_by_key (\<lambda>(_, v). f v) m = Some (j, u)"
    by (auto simp: evict_min_by_def delete_conv' split: if_splits option.splits)
  with assms(1,2) have "u = v" by (auto dest!: min_by_key_in simp: hm_wf_map_of)
  moreover have "(i, w) \<in> set m" using assms(4) by (blast dest: evict_min_by_sub map_of_SomeD)
  ultimately show ?thesis using min_by_key_le [OF mn] by fastforce
qed

end
