(* ===== verification/Net_Addr.thy ===== *)
theory Net_Addr
  imports Relay_Prelude
begin

text \<open>
  The part of Rust's \<^verbatim>\<open>std::net\<close> that the relay uses: IP and socket addresses, their octets and
  segments in network order, the IPv4-mapped canonicalisation and the range predicates. An IPv4
  address is a 32-bit word and an IPv6 address a 128-bit word; \<open>octets\<close> and \<open>from_octets\<close>
  convert to and from network-order bytes, and the lemmas describe both bit by bit. (The IPv6
  flow label and scope identifier of a socket address are not modelled.)
\<close>

unbundle bit_operations_syntax

datatype ip_addr = V4 "32 word" | V6 "128 word"

record socket_addr =
  sa_ip :: ip_addr
  sa_port :: u16

abbreviation mk_sa :: "ip_addr \<Rightarrow> u16 \<Rightarrow> socket_addr" where
  "mk_sa i p \<equiv> \<lparr>sa_ip = i, sa_port = p\<rparr>"

section \<open>Octets and segments\<close>

definition octets :: "nat \<Rightarrow> 'a::len word \<Rightarrow> u8 list" where
  "octets n w = map (\<lambda>i. ucast (drop_bit (8 * (n - 1 - i)) w)) [0..<n]"

definition from_octets :: "u8 list \<Rightarrow> 'a::len word" where
  "from_octets os = foldl (\<lambda>acc b. push_bit 8 acc OR ucast b) 0 os"

abbreviation octets4 :: "32 word \<Rightarrow> u8 list" where "octets4 \<equiv> octets 4"
abbreviation octets6 :: "128 word \<Rightarrow> u8 list" where "octets6 \<equiv> octets 16"

definition segments6 :: "128 word \<Rightarrow> u16 list" where
  "segments6 w = map (\<lambda>i. ucast (drop_bit (16 * (7 - i)) w)) [0..<8]"

definition u16_be :: "u8 \<Rightarrow> u8 \<Rightarrow> u16" where
  "u16_be hi lo = push_bit 8 (ucast hi) OR ucast lo"

fun ip_octets :: "ip_addr \<Rightarrow> u8 list" where
  "ip_octets (V4 a) = octets4 a"
| "ip_octets (V6 a) = octets6 a"

section \<open>Predicates and canonical form\<close>

definition to_ipv4_mapped :: "128 word \<Rightarrow> 32 word option" where
  "to_ipv4_mapped a = (if drop_bit 32 a = 0xffff then Some (ucast a) else None)"

definition v4_mapped :: "32 word \<Rightarrow> 128 word" where
  "v4_mapped a = push_bit 32 0xffff OR ucast a"

fun to_canonical :: "ip_addr \<Rightarrow> ip_addr" where
  "to_canonical (V4 a) = V4 a"
| "to_canonical (V6 a) = (case to_ipv4_mapped a of Some b \<Rightarrow> V4 b | None \<Rightarrow> V6 a)"

definition v4_is_unspecified :: "32 word \<Rightarrow> bool" where
  "v4_is_unspecified a \<longleftrightarrow> a = 0"

definition v4_is_loopback :: "32 word \<Rightarrow> bool" where
  "v4_is_loopback a \<longleftrightarrow> octets4 a ! 0 = 127"

definition v4_is_private :: "32 word \<Rightarrow> bool" where
  "v4_is_private a \<longleftrightarrow>
     (let o4 = octets4 a in
      o4 ! 0 = 10
      \<or> o4 ! 0 = 172 \<and> 16 \<le> o4 ! 1 \<and> o4 ! 1 \<le> 31
      \<or> o4 ! 0 = 192 \<and> o4 ! 1 = 168)"

definition v4_is_link_local :: "32 word \<Rightarrow> bool" where
  "v4_is_link_local a \<longleftrightarrow> octets4 a ! 0 = 169 \<and> octets4 a ! 1 = 254"

definition v4_is_broadcast :: "32 word \<Rightarrow> bool" where
  "v4_is_broadcast a \<longleftrightarrow> a = - 1"

definition v4_is_documentation :: "32 word \<Rightarrow> bool" where
  "v4_is_documentation a \<longleftrightarrow>
     (let p = take 3 (octets4 a) in
      p = [192, 0, 2] \<or> p = [198, 51, 100] \<or> p = [203, 0, 113])"

definition v6_is_unspecified :: "128 word \<Rightarrow> bool" where
  "v6_is_unspecified a \<longleftrightarrow> a = 0"

definition v6_is_loopback :: "128 word \<Rightarrow> bool" where
  "v6_is_loopback a \<longleftrightarrow> a = 1"

fun ip_is_ipv4 :: "ip_addr \<Rightarrow> bool" where
  "ip_is_ipv4 (V4 _) = True"
| "ip_is_ipv4 (V6 _) = False"

fun ip_is_unspecified :: "ip_addr \<Rightarrow> bool" where
  "ip_is_unspecified (V4 a) = v4_is_unspecified a"
| "ip_is_unspecified (V6 a) = v6_is_unspecified a"

section \<open>Bit-level facts\<close>

lemma length_octets [simp]: "length (octets n w) = n"
  by (simp add: octets_def)

lemma length_segments6 [simp]: "length (segments6 w) = 8"
  by (simp add: segments6_def)

lemma bit_octets:
  "i < n \<Longrightarrow> bit (octets n w ! i) j \<longleftrightarrow> j < 8 \<and> bit w (8 * (n - 1 - i) + j)"
  by (auto simp: octets_def bit_ucast_iff bit_drop_bit_eq)

lemma bit_segments6:
  "i < 8 \<Longrightarrow> bit (segments6 w ! i) j \<longleftrightarrow> j < 16 \<and> bit w (16 * (7 - i) + j)"
  by (auto simp: segments6_def bit_ucast_iff bit_drop_bit_eq)

lemma from_octets_snoc:
  "from_octets (os @ [b]) = push_bit 8 (from_octets os) OR (ucast b :: 'a::len word)"
  by (simp add: from_octets_def)

lemma bit_from_octets:
  "bit (from_octets os :: 'a::len word) n \<longleftrightarrow>
     n < LENGTH('a) \<and> n div 8 < length os \<and> bit (os ! (length os - 1 - n div 8)) (n mod 8)"
proof (induction os arbitrary: n rule: rev_induct)
  case Nil
  then show ?case by (simp add: from_octets_def)
next
  case (snoc b os)
  show ?case
  proof (cases "n < 8")
    case True
    then show ?thesis
      by (auto simp: from_octets_snoc bit_or_iff bit_push_bit_iff bit_ucast_iff nth_append
          dest: bit_imp_le_length)
  next
    case False
    then have "n div 8 = Suc ((n - 8) div 8)" "(n - 8) mod 8 = n mod 8"
      by (simp_all add: div_if mod_if)
    moreover have "\<not> bit b n" using False by (auto dest: bit_imp_le_length)
    ultimately show ?thesis using False
      by (auto simp: from_octets_snoc bit_or_iff bit_push_bit_iff bit_ucast_iff nth_append
          snoc.IH intro: less_imp_diff_less)
  qed
qed

text \<open>Reading the octets back gives the address.\<close>

lemma from_octets_octets:
  assumes "LENGTH('a) = 8 * n"
  shows "from_octets (octets n w) = (w :: 'a::len word)"
proof (rule bit_word_eqI)
  fix k assume k: "k < LENGTH('a)"
  then have lt: "k div 8 < n" using assms by auto
  then have "8 * (n - 1 - (n - 1 - k div 8)) + k mod 8 = k" by auto
  with lt k show "bit (from_octets (octets n w) :: 'a word) k = bit w k"
    by (simp add: bit_from_octets bit_octets)
qed

text \<open>Keeping the first \<open>m\<close> octets and zeroing the rest clears the low bits.\<close>

lemma from_octets_prefix:
  assumes len: "LENGTH('a) = 8 * n" and m: "m \<le> n"
  shows "from_octets (take m (octets n w) @ replicate (n - m) 0) =
    (push_bit (8 * (n - m)) (drop_bit (8 * (n - m)) w) :: 'a::len word)"
    (is "from_octets ?os = ?rhs")
proof (rule bit_word_eqI)
  fix k assume k: "k < LENGTH('a)"
  then have lt: "k div 8 < n" using len by auto
  have l: "length ?os = n" using m by simp
  show "bit (from_octets ?os :: 'a word) k = bit ?rhs k"
  proof (cases "n - 1 - k div 8 < m")
    case True
    then have "8 * (n - 1 - (n - 1 - k div 8)) + k mod 8 = k" using lt by auto
    moreover have "8 * (n - m) \<le> k" using True lt m by auto
    ultimately show ?thesis using True k lt l
      by (simp add: bit_from_octets nth_append bit_octets bit_push_bit_iff bit_drop_bit_eq)
  next
    case False
    then have "k < 8 * (n - m)" using lt m by auto
    moreover have "?os ! (n - 1 - k div 8) = 0" using False lt m by (simp add: nth_append)
    ultimately show ?thesis using l
      by (simp add: bit_from_octets bit_push_bit_iff)
  qed
qed

lemma bit_ffff: "bit (0xffff :: 128 word) k \<longleftrightarrow> k < 16"
proof -
  have eq: "(0xffff :: 128 word) = mask 16" by (simp add: mask_eq_exp_minus_1)
  show ?thesis unfolding eq bit_mask_iff by auto
qed

lemma bit_v4_mapped:
  "bit (v4_mapped a) k \<longleftrightarrow> 32 \<le> k \<and> k < 48 \<or> bit a k"
  unfolding v4_mapped_def bit_or_iff bit_push_bit_iff bit_ucast_iff bit_ffff
  by (auto dest: bit_imp_le_length)

lemma to_ipv4_mapped_v4_mapped [simp]: "to_ipv4_mapped (v4_mapped a) = Some a"
proof -
  have "drop_bit 32 (v4_mapped a) = 0xffff"
  proof (rule bit_word_eqI)
    fix k assume "k < LENGTH(128)"
    have "\<not> bit a (32 + k)" by (auto dest: bit_imp_le_length)
    then show "bit (drop_bit 32 (v4_mapped a)) k = bit (0xffff :: 128 word) k"
      unfolding bit_drop_bit_eq o_def bit_v4_mapped bit_ffff by auto
  qed
  moreover have "ucast (v4_mapped a) = a"
    by (rule bit_word_eqI) (auto simp: bit_v4_mapped bit_ucast_iff)
  ultimately show ?thesis by (simp add: to_ipv4_mapped_def)
qed

lemma to_canonical_mapped [simp]: "to_canonical (V6 (v4_mapped a)) = V4 a"
  by simp

lemma to_canonical_idem [simp]: "to_canonical (to_canonical i) = to_canonical i"
  by (cases i) (auto split: option.splits)

lemma to_canonical_V6_D: "to_canonical i = V6 a \<Longrightarrow> to_ipv4_mapped a = None"
  by (cases i) (auto split: option.splits)

lemma take4_segments_eq:
  "take 4 (segments6 a) = take 4 (segments6 b) \<longleftrightarrow> drop_bit 64 a = drop_bit 64 b"
proof
  assume eq: "drop_bit 64 a = drop_bit 64 b"
  show "take 4 (segments6 a) = take 4 (segments6 b)"
  proof (rule nth_equalityI)
    fix i assume "i < length (take 4 (segments6 a))"
    then have i: "i < 4" by simp
    show "take 4 (segments6 a) ! i = take 4 (segments6 b) ! i"
    proof (rule bit_word_eqI)
      fix j assume "j < LENGTH(16)"
      have "16 * (7 - i) + j = 64 + (16 * (3 - i) + j)" using i by auto
      then show "bit (take 4 (segments6 a) ! i) j = bit (take 4 (segments6 b) ! i) j"
        using i arg_cong [OF eq, of "\<lambda>w. bit w (16 * (3 - i) + j)"]
        by (simp add: bit_segments6 bit_drop_bit_eq add.assoc)
    qed
  qed simp
next
  assume eq: "take 4 (segments6 a) = take 4 (segments6 b)"
  show "drop_bit 64 a = drop_bit 64 b"
  proof (rule bit_word_eqI)
    fix k assume "k < LENGTH(128)"
    show "bit (drop_bit 64 a) k = bit (drop_bit 64 b) k"
    proof (cases "k < 64")
      case True
      define i where "i = 3 - k div 16"
      have i: "i < 4" "16 * (7 - i) + k mod 16 = 64 + k" using True by (auto simp: i_def)
      have "take 4 (segments6 a) ! i = take 4 (segments6 b) ! i" using eq by simp
      then have "bit (segments6 a ! i) (k mod 16) = bit (segments6 b ! i) (k mod 16)"
        using i by simp
      then show ?thesis using i by (simp add: bit_segments6 bit_drop_bit_eq)
    next
      case False
      then show ?thesis by (auto simp: bit_drop_bit_eq dest: bit_imp_le_length)
    qed
  qed
qed

end
