(* ===== verification/Byte_Stream.thy ===== *)
theory Byte_Stream
  imports Relay_Prelude
begin

text \<open>
  Byte streams as the relay's readers see them. A connection delivers its bytes in chunks whose
  sizes the network chooses, so a transport is the list of non-empty chunks still to arrive and
  one \<open>poll_read\<close> with room for \<open>n\<close> bytes returns a prefix of the next chunk (nothing at end
  of stream). The locale \<open>replay_reader\<close> is the contract of a reader: a poll hands over the next
  bytes, never invents, reorders or drops one, and makes progress while bytes remain. Everything
  proved inside it holds of the transport and of the two wrappers that put already-read bytes back
  in front of one.
\<close>

type_synonym transport = "u8 list list"

definition transport_ok :: "transport \<Rightarrow> bool" where
  "transport_ok cs \<longleftrightarrow> [] \<notin> set cs"

fun transport_poll :: "transport \<Rightarrow> nat \<Rightarrow> u8 list \<times> transport" where
  "transport_poll [] n = ([], [])"
| "transport_poll (c # cs) n =
     (if length c \<le> n then (c, cs) else (take n c, drop n c # cs))"

text \<open>\<^verbatim>\<open>AsyncReadExt::read_exact\<close>: \<open>None\<close> is \<^verbatim>\<open>UnexpectedEof\<close>.\<close>

fun read_exact :: "nat \<Rightarrow> transport \<Rightarrow> (u8 list \<times> transport) option" where
  "read_exact n [] = (if n = 0 then Some ([], []) else None)"
| "read_exact n (c # cs) =
     (if n = 0 then Some ([], c # cs)
      else if length c \<le> n then
        map_option (\<lambda>(bs, r). (c @ bs, r)) (read_exact (n - length c) cs)
      else Some (take n c, drop n c # cs))"

lemma read_exact_Some:
  "read_exact n cs = Some (bs, r) \<Longrightarrow> concat cs = bs @ concat r \<and> length bs = n"
  by (induction cs arbitrary: n bs r) (fastforce split: if_splits)+

lemma read_exact_ok:
  "read_exact n cs = Some (bs, r) \<Longrightarrow> transport_ok cs \<Longrightarrow> transport_ok r"
  by (induction cs arbitrary: n bs r) (fastforce simp: transport_ok_def split: if_splits)+

lemma read_exact_total: "n \<le> length (concat cs) \<Longrightarrow> \<exists>bs r. read_exact n cs = Some (bs, r)"
proof (induction cs arbitrary: n)
  case Nil
  then show ?case by simp
next
  case (Cons c cs)
  show ?case
  proof (cases "length c \<le> n")
    case True
    with Cons.prems have "n - length c \<le> length (concat cs)" by simp
    then obtain bs r where "read_exact (n - length c) cs = Some (bs, r)" using Cons.IH by blast
    with True show ?thesis by simp
  next
    case False
    then show ?thesis by simp
  qed
qed

text \<open>
  \<open>read_exact\<close> sees only the bytes, not how they were chunked: the first \<open>n\<close> when there are
  that many, an error otherwise.
\<close>

lemma read_exact_cases:
  obtains (eof) "read_exact n cs = None" "length (concat cs) < n"
  | (data) r where "read_exact n cs = Some (take n (concat cs), r)"
      "concat r = drop n (concat cs)" "n \<le> length (concat cs)"
proof (cases "n \<le> length (concat cs)")
  case True
  then obtain bs r where rd: "read_exact n cs = Some (bs, r)" using read_exact_total by blast
  then have "concat cs = bs @ concat r" "length bs = n" by (auto dest: read_exact_Some)
  with rd True show ?thesis by (intro data [of r]) auto
next
  case False
  have "read_exact n cs = None"
  proof (rule ccontr)
    assume "read_exact n cs \<noteq> None"
    then obtain bs r where "read_exact n cs = Some (bs, r)" by auto
    then have "concat cs = bs @ concat r" "length bs = n" by (auto dest: read_exact_Some)
    with False show False by simp
  qed
  with False show ?thesis by (intro eof) auto
qed

section \<open>The reader contract\<close>

locale replay_reader =
  fixes poll :: "'s \<Rightarrow> nat \<Rightarrow> u8 list \<times> 's"
    and content :: "'s \<Rightarrow> u8 list"
    and ok :: "'s \<Rightarrow> bool"
  assumes poll_content: "ok s \<Longrightarrow> poll s n = (bs, s') \<Longrightarrow> content s = bs @ content s'"
    and poll_room: "ok s \<Longrightarrow> poll s n = (bs, s') \<Longrightarrow> length bs \<le> n"
    and poll_progress: "ok s \<Longrightarrow> 0 < n \<Longrightarrow> poll s n = ([], s') \<Longrightarrow> content s = []"
    and poll_ok: "ok s \<Longrightarrow> poll s n = (bs, s') \<Longrightarrow> ok s'"
begin

fun polls :: "'s \<Rightarrow> nat list \<Rightarrow> u8 list \<times> 's" where
  "polls s [] = ([], s)"
| "polls s (n # ns) =
     (let (bs, s') = poll s n; (rest, s'') = polls s' ns in (bs @ rest, s''))"

lemma polls_content: "ok s \<Longrightarrow> polls s ns = (bs, s') \<Longrightarrow> content s = bs @ content s' \<and> ok s'"
proof (induction ns arbitrary: s bs s')
  case Nil
  then show ?case by simp
next
  case (Cons n ns)
  obtain b t where p: "poll s n = (b, t)" by force
  obtain rest u where q: "polls t ns = (rest, u)" by force
  from Cons.prems p q have "bs = b @ rest" "s' = u" by auto
  with Cons.IH [OF poll_ok [OF Cons.prems(1) p] q] poll_content [OF Cons.prems(1) p]
  show ?case by simp
qed

text \<open>Whatever the buffer sizes, the bytes read are a prefix of the content, and as many
  non-empty polls as there are bytes read all of it.\<close>

lemma polls_all:
  assumes "ok s" "0 \<notin> set ns" "length (content s) \<le> length ns"
  shows "fst (polls s ns) = content s"
  using assms
proof (induction ns arbitrary: s)
  case Nil
  then show ?case by simp
next
  case (Cons n ns)
  obtain b t where p: "poll s n = (b, t)" by force
  have c: "content s = b @ content t" using Cons.prems(1) p by (rule poll_content)
  have t: "ok t" using Cons.prems(1) p by (rule poll_ok)
  have "length (content t) \<le> length ns"
  proof (cases "b = []")
    case True
    with p Cons.prems have "content s = []" by (auto intro: poll_progress)
    with c show ?thesis by simp
  next
    case False
    with c Cons.prems(3) show ?thesis by (cases b) auto
  qed
  with Cons.IH [OF t] Cons.prems(2) p c show ?case by (auto split: prod.splits)
qed

end

interpretation net: replay_reader transport_poll concat transport_ok
proof unfold_locales
  fix s :: transport and n bs s'
  assume ok: "transport_ok s"
  {
    assume p: "transport_poll s n = (bs, s')"
    show "concat s = bs @ concat s'" using p by (cases s) (auto split: if_splits)
    show "length bs \<le> n" using p by (cases s) (auto split: if_splits)
    show "transport_ok s'" using p ok
      by (cases s) (auto simp: transport_ok_def split: if_splits)
  }
  assume "0 < n" and "transport_poll s n = ([], s')"
  then show "concat s = []" using ok
    by (cases s) (auto simp: transport_ok_def split: if_splits)
qed

end
