(* ===== verification/Proxy_Protocol.thy ===== *)
theory Proxy_Protocol
  imports Net_Addr Byte_Stream
begin

text \<open>
  \<^verbatim>\<open>src/proxy_protocol.rs\<close>: the PROXY protocol v2 header, the trusted-proxy CIDR match and the
  stream that puts already-read bytes back. Shown here: the CIDR comparison is exactly "the first
  \<open>prefix_len\<close> bits agree"; a header followed by payload yields the declared client and leaves
  exactly the payload; a connection that is not PROXY protocol keeps every byte; and the replaying
  stream meets the reader contract. The text syntax of CIDR lists is not modelled here.
\<close>

section \<open>The header\<close>

definition V2_SIGNATURE :: "u8 list" where
  "V2_SIGNATURE = [0x0D, 0x0A, 0x0D, 0x0A, 0x00, 0x0D, 0x0A, 0x51, 0x55, 0x49, 0x54, 0x0A]"

definition V2_FIXED_LEN :: nat where "V2_FIXED_LEN = 16"

definition MAX_ADDRESS_BLOCK :: nat where "MAX_ADDRESS_BLOCK = 1024"

definition CMD_PROXY :: u8 where "CMD_PROXY = 0x01"
definition CMD_LOCAL :: u8 where "CMD_LOCAL = 0x00"
definition AF_TCP4 :: u8 where "AF_TCP4 = 0x11"
definition AF_TCP6 :: u8 where "AF_TCP6 = 0x21"

datatype header = Proxy socket_addr | NoSource

datatype header_error = NotProxyProtocol | Malformed

definition parse_fixed :: "u8 list \<Rightarrow> header_error + (u8 \<times> nat)" where
  "parse_fixed fixed =
     (if take 12 fixed \<noteq> V2_SIGNATURE then Inl NotProxyProtocol
      else let ver_cmd = fixed ! 12 in
        if drop_bit 4 ver_cmd \<noteq> 2 then Inl Malformed
        else if ver_cmd AND 0x0F \<noteq> CMD_PROXY \<and> ver_cmd AND 0x0F \<noteq> CMD_LOCAL then Inl Malformed
        else let len = unat (u16_be (fixed ! 14) (fixed ! 15)) in
          if MAX_ADDRESS_BLOCK < len then Inl Malformed
          else Inr (ver_cmd, len))"

definition parse_address_block :: "u8 \<Rightarrow> u8 \<Rightarrow> u8 list \<Rightarrow> header_error + header" where
  "parse_address_block ver_cmd family block =
     (if ver_cmd AND 0x0F = CMD_LOCAL then Inr NoSource
      else if family = AF_TCP4 then
        (if length block < 12 then Inl Malformed
         else Inr (Proxy (mk_sa (V4 (from_octets (take 4 block)))
                                (u16_be (block ! 8) (block ! 9)))))
      else if family = AF_TCP6 then
        (if length block < 36 then Inl Malformed
         else Inr (Proxy (mk_sa (V6 (from_octets (take 16 block)))
                                (u16_be (block ! 32) (block ! 33)))))
      else Inr NoSource)"

section \<open>Trusted proxies\<close>

record cidr =
  cidr_base :: ip_addr
  cidr_prefix_len :: u8

text \<open>
  \<open>None\<close> stands for the panic of an out-of-range slice or index, which \<^verbatim>\<open>Cidr::parse\<close> rules out
  by bounding the prefix length by the width of the family.
\<close>

definition prefix_matches :: "u8 list \<Rightarrow> u8 list \<Rightarrow> u8 \<Rightarrow> bool option" where
  "prefix_matches a b plen =
     (let whole_bytes = unat (plen div 8) in
      if length a < whole_bytes \<or> length b < whole_bytes then None
      else if take whole_bytes a \<noteq> take whole_bytes b then Some False
      else let remaining_bits = plen mod 8 in
        if remaining_bits = 0 then Some True
        else if length a \<le> whole_bytes \<or> length b \<le> whole_bytes then None
        else let mask = push_bit (unat (8 - remaining_bits)) (0xFF :: u8) in
          Some (a ! whole_bytes AND mask = b ! whole_bytes AND mask))"

definition cidr_contains :: "cidr \<Rightarrow> ip_addr \<Rightarrow> bool option" where
  "cidr_contains c ip =
     (case (cidr_base c, to_canonical ip) of
        (V4 base, V4 a) \<Rightarrow> prefix_matches (octets4 base) (octets4 a) (cidr_prefix_len c)
      | (V6 base, V6 a) \<Rightarrow> prefix_matches (octets6 base) (octets6 a) (cidr_prefix_len c)
      | _ \<Rightarrow> Some False)"

text \<open>What \<^verbatim>\<open>Cidr::parse\<close> guarantees of every block it returns.\<close>

definition cidr_wf :: "cidr \<Rightarrow> bool" where
  "cidr_wf c \<longleftrightarrow> unat (cidr_prefix_len c) \<le> (if ip_is_ipv4 (cidr_base c) then 32 else 128)"

type_synonym trusted_proxies = "cidr list"

definition trusts :: "trusted_proxies \<Rightarrow> ip_addr \<Rightarrow> bool" where
  "trusts t ip \<longleftrightarrow> (\<exists>c \<in> set t. cidr_contains c ip = Some True)"

definition proxies_is_empty :: "trusted_proxies \<Rightarrow> bool" where
  "proxies_is_empty t \<longleftrightarrow> t = []"

section \<open>Replaying bytes\<close>

record prefixed_stream =
  ps_prefix :: "u8 list"
  ps_consumed :: nat
  ps_inner :: transport

definition prefixed_new :: "u8 list \<Rightarrow> transport \<Rightarrow> prefixed_stream" where
  "prefixed_new p s = \<lparr>ps_prefix = p, ps_consumed = 0, ps_inner = s\<rparr>"

definition prefixed_poll_read :: "prefixed_stream \<Rightarrow> nat \<Rightarrow> u8 list \<times> prefixed_stream" where
  "prefixed_poll_read s room =
     (let pending = drop (ps_consumed s) (ps_prefix s) in
      if pending \<noteq> [] then
        let n = min (length pending) room
        in (take n pending, s\<lparr>ps_consumed := ps_consumed s + n\<rparr>)
      else let (bs, inner) = transport_poll (ps_inner s) room
        in (bs, s\<lparr>ps_inner := inner\<rparr>))"

definition prefixed_content :: "prefixed_stream \<Rightarrow> u8 list" where
  "prefixed_content s = drop (ps_consumed s) (ps_prefix s) @ concat (ps_inner s)"

definition prefixed_ok :: "prefixed_stream \<Rightarrow> bool" where
  "prefixed_ok s \<longleftrightarrow> transport_ok (ps_inner s)"

text \<open>\<open>None\<close> is the I/O error of a stream that ends inside the header.\<close>

definition read_source_addr ::
  "transport \<Rightarrow> (socket_addr option \<times> prefixed_stream) option" where
  "read_source_addr stream =
     (case read_exact V2_FIXED_LEN stream of
        None \<Rightarrow> None
      | Some (fixed, stream1) \<Rightarrow>
          (case parse_fixed fixed of
             Inl _ \<Rightarrow> Some (None, prefixed_new fixed stream1)
           | Inr (ver_cmd, block_len) \<Rightarrow>
               (case read_exact block_len stream1 of
                  None \<Rightarrow> None
                | Some (block, stream2) \<Rightarrow>
                    Some ((case parse_address_block ver_cmd (fixed ! 13) block of
                             Inr (Proxy addr) \<Rightarrow> Some addr
                           | Inr NoSource \<Rightarrow> None
                           | Inl _ \<Rightarrow> None),
                          prefixed_new [] stream2))))"

text \<open>The header a proxy writes for a TCP client, as the source's tests build it, with any
  trailing type-length-value bytes.\<close>

definition tcp_header :: "ip_addr \<Rightarrow> u16 \<Rightarrow> ip_addr \<Rightarrow> u16 \<Rightarrow> u8 list \<Rightarrow> u8 list" where
  "tcp_header src sport dst dport tlvs =
     (let block = ip_octets src @ ip_octets dst @ octets 2 sport @ octets 2 dport @ tlvs
      in V2_SIGNATURE @ [0x21, if ip_is_ipv4 src then AF_TCP4 else AF_TCP6]
         @ octets 2 (of_nat (length block) :: u16) @ block)"

section \<open>Lemmas\<close>

interpretation ps: replay_reader prefixed_poll_read prefixed_content prefixed_ok
proof unfold_locales
  fix s n bs s'
  assume ok: "prefixed_ok s"
  let ?pend = "drop (ps_consumed s) (ps_prefix s)"
  {
    assume p: "prefixed_poll_read s n = (bs, s')"
    show "prefixed_content s = bs @ prefixed_content s'"
    proof (cases "?pend = []")
      case True
      with p net.poll_content [of "ps_inner s" n] ok show ?thesis
        by (auto simp: prefixed_poll_read_def prefixed_content_def prefixed_ok_def split: prod.splits)
    next
      case False
      define k where "k = min (length ?pend) n"
      have d: "drop (ps_consumed s + k) (ps_prefix s) = drop k ?pend"
        by (simp add: add.commute)
      from p False have "bs = take k ?pend" "s' = s\<lparr>ps_consumed := ps_consumed s + k\<rparr>"
        by (auto simp: prefixed_poll_read_def Let_def k_def)
      then have "bs @ prefixed_content s' = (take k ?pend @ drop k ?pend) @ concat (ps_inner s)"
        by (simp add: prefixed_content_def d del: drop_drop append_take_drop_id)
      then show ?thesis by (simp only: append_take_drop_id prefixed_content_def [of s])
    qed
    show "length bs \<le> n"
      using p ok net.poll_room [of "ps_inner s" n]
      by (auto simp: prefixed_poll_read_def Let_def prefixed_ok_def split: if_splits prod.splits)
    show "prefixed_ok s'"
      using p ok net.poll_ok [of "ps_inner s" n]
      by (auto simp: prefixed_poll_read_def Let_def prefixed_ok_def split: if_splits prod.splits)
  }
  assume "0 < n" and "prefixed_poll_read s n = ([], s')"
  then show "prefixed_content s = []"
    using ok net.poll_progress [of "ps_inner s" n]
    by (auto simp: prefixed_poll_read_def prefixed_content_def Let_def prefixed_ok_def
        split: if_splits prod.splits)
qed

lemma parse_fixed_Inr:
  "parse_fixed fixed = Inr (vc, len) \<Longrightarrow>
     take 12 fixed = V2_SIGNATURE \<and> vc = fixed ! 12 \<and> drop_bit 4 vc = 2
     \<and> (vc AND 0x0F = CMD_PROXY \<or> vc AND 0x0F = CMD_LOCAL)
     \<and> len = unat (u16_be (fixed ! 14) (fixed ! 15)) \<and> len \<le> MAX_ADDRESS_BLOCK"
  by (auto simp: parse_fixed_def Let_def split: if_splits)

lemma prefixed_content_new [simp]: "prefixed_content (prefixed_new p s) = p @ concat s"
  by (simp add: prefixed_content_def prefixed_new_def)

lemma u16_be_octets [simp]: "u16_be (octets 2 p ! 0) (octets 2 p ! Suc 0) = p"
proof -
  have "from_octets (octets 2 p) = u16_be (octets 2 p ! 0) (octets 2 p ! Suc 0)"
    by (simp add: from_octets_def octets_def u16_be_def numeral_2_eq_2)
  then show ?thesis by (simp add: from_octets_octets)
qed

subsection \<open>The CIDR comparison, bit by bit\<close>

text \<open>Bit \<open>k\<close> of a network-order octet string, counted from its most significant bit.\<close>

definition octet_bit :: "u8 list \<Rightarrow> nat \<Rightarrow> bool" where
  "octet_bit os k = bit (os ! (k div 8)) (7 - k mod 8)"

lemma octet_bit_octets: "k < 8 * n \<Longrightarrow> octet_bit (octets n w) k = bit w (8 * n - 1 - k)"
proof -
  assume k: "k < 8 * n"
  then have lt: "k div 8 < n" by auto
  have "k = 8 * (k div 8) + k mod 8" "k mod 8 < 8" by simp_all
  with lt have "8 * (n - 1 - k div 8) + (7 - k mod 8) = 8 * n - 1 - k" by linarith
  moreover have "7 - k mod 8 < 8" by simp
  ultimately show ?thesis unfolding octet_bit_def bit_octets [OF lt] by metis
qed

lemma octet_eq_iff: "(x :: u8) = y \<longleftrightarrow> (\<forall>j < 8. bit x j = bit y j)"
  by (auto intro: bit_word_eqI)

lemma take_octets_eq_iff:
  assumes "m \<le> length a" "m \<le> length b"
  shows "take m a = take m b \<longleftrightarrow> (\<forall>k < 8 * m. octet_bit a k = octet_bit b k)"
proof
  assume eq: "take m a = take m b"
  show "\<forall>k < 8 * m. octet_bit a k = octet_bit b k"
  proof (intro allI impI)
    fix k assume "k < 8 * m"
    then have "k div 8 < m" by auto
    with arg_cong [OF eq, of "\<lambda>xs. xs ! (k div 8)"] show "octet_bit a k = octet_bit b k"
      by (simp add: octet_bit_def)
  qed
next
  assume bits: "\<forall>k < 8 * m. octet_bit a k = octet_bit b k"
  show "take m a = take m b"
  proof (rule nth_equalityI)
    fix i assume "i < length (take m a)"
    then have i: "i < m" by simp
    have "bit (a ! i) j = bit (b ! i) j" if "j < 8" for j
    proof -
      have "8 * i + (7 - j) < 8 * m" using i that by linarith
      with bits have "octet_bit a (8 * i + (7 - j)) = octet_bit b (8 * i + (7 - j))" by blast
      moreover have "(8 * i + (7 - j)) div 8 = i" "(8 * i + (7 - j)) mod 8 = 7 - j" "7 - (7 - j) = j"
        using that unfolding div_mult_self4 mod_mult_self4 by simp_all
      ultimately show ?thesis unfolding octet_bit_def by metis
    qed
    then show "take m a ! i = take m b ! i" using i by (simp add: octet_eq_iff)
  qed (use assms in simp)
qed

lemma masked_octet_eq_iff:
  assumes "0 < r" "r < 8"
  shows "(x :: u8) AND push_bit (8 - r) 0xFF = y AND push_bit (8 - r) 0xFF
    \<longleftrightarrow> (\<forall>j < r. bit x (7 - j) = bit y (7 - j))"
proof -
  have ff: "(0xFF :: u8) = - 1" by simp
  have m: "bit (push_bit (8 - r) (0xFF :: u8)) j \<longleftrightarrow> 8 - r \<le> j \<and> j < 8" for j
    unfolding ff bit_push_bit_iff by auto
  have "x AND push_bit (8 - r) 0xFF = y AND push_bit (8 - r) 0xFF
      \<longleftrightarrow> (\<forall>j < 8. 8 - r \<le> j \<longrightarrow> bit x j = bit y j)"
    unfolding octet_eq_iff bit_and_iff m by auto
  also have "\<dots> \<longleftrightarrow> (\<forall>j < r. bit x (7 - j) = bit y (7 - j))"
  proof (rule iffI; intro allI impI)
    fix j assume "\<forall>j < 8. 8 - r \<le> j \<longrightarrow> bit x j = bit y j" "j < r"
    moreover from this assms have "7 - j < 8" "8 - r \<le> 7 - j" by linarith+
    ultimately show "bit x (7 - j) = bit y (7 - j)" by blast
  next
    fix j assume h: "\<forall>j < r. bit x (7 - j) = bit y (7 - j)" and "j < 8" "8 - r \<le> j"
    then have "7 - j < r" "7 - (7 - j) = j" by auto
    with h show "bit x j = bit y j" by metis
  qed
  finally show ?thesis .
qed

lemma all_less_add_iff: "(\<forall>k < m + r. P k) \<longleftrightarrow> (\<forall>k < m. P k) \<and> (\<forall>j < (r :: nat). P (m + j))"
proof (intro iffI conjI allI impI)
  fix k assume h: "(\<forall>k < m. P k) \<and> (\<forall>j < r. P (m + j))" and k: "k < m + r"
  show "P k"
  proof (cases "k < m")
    case False
    then have "k - m < r" "m + (k - m) = k" using k by auto
    with h show ?thesis by metis
  qed (use h in blast)
qed auto

lemma prefix_matches_bits:
  assumes len: "length a = n" "length b = n" and p: "unat plen \<le> 8 * n"
  shows "prefix_matches a b plen = Some (\<forall>k < unat plen. octet_bit a k = octet_bit b k)"
proof -
  define w r where "w = unat plen div 8" and "r = unat plen mod 8"
  have pl: "unat plen = 8 * w + r" and r8: "r < 8" by (auto simp: w_def r_def)
  have uw: "unat (plen div 8) = w" by (simp add: w_def unat_div)
  have um: "unat (plen mod 8) = r" by (simp add: r_def unat_mod)
  have z: "plen mod 8 = 0 \<longleftrightarrow> r = 0" using um by (metis unat_eq_zero)
  have us: "unat (8 - plen mod 8) = 8 - r"
    using um r8 by (simp add: unat_sub_if')
  have wn: "w \<le> n" using p pl by auto
  have tk: "take w a = take w b \<longleftrightarrow> (\<forall>k < 8 * w. octet_bit a k = octet_bit b k)"
    using wn len by (intro take_octets_eq_iff) auto
  show ?thesis
  proof (cases "r = 0")
    case True
    then have "prefix_matches a b plen = Some (take w a = take w b)"
      using wn len z by (simp add: prefix_matches_def Let_def uw)
    then show ?thesis by (simp only: tk pl True add_0_right)
  next
    case False
    then have lt: "w < n" using p pl by auto
    have "(\<forall>j < r. octet_bit a (8 * w + j) = octet_bit b (8 * w + j))
        \<longleftrightarrow> (\<forall>j < r. bit (a ! w) (7 - j) = bit (b ! w) (7 - j))"
      using r8 by (auto simp: octet_bit_def)
    also have "\<dots> \<longleftrightarrow> a ! w AND push_bit (8 - r) 0xFF = b ! w AND push_bit (8 - r) 0xFF"
      using False r8 by (simp add: masked_octet_eq_iff)
    finally have last: "(a ! w AND push_bit (8 - r) 0xFF = b ! w AND push_bit (8 - r) 0xFF)
        = (\<forall>j < r. octet_bit a (8 * w + j) = octet_bit b (8 * w + j))" by (rule sym)
    have "prefix_matches a b plen = Some (take w a = take w b
        \<and> a ! w AND push_bit (8 - r) 0xFF = b ! w AND push_bit (8 - r) 0xFF)"
      using lt len z False by (simp add: prefix_matches_def Let_def uw us)
    then show ?thesis by (simp only: tk last pl all_less_add_iff)
  qed
qed

lemma octet_bits_drop_bit:
  fixes a b :: "'a::len word"
  assumes len: "LENGTH('a) = 8 * n" and p: "p \<le> 8 * n"
  shows "(\<forall>k < p. octet_bit (octets n a) k = octet_bit (octets n b) k)
    \<longleftrightarrow> drop_bit (8 * n - p) a = drop_bit (8 * n - p) b"
proof
  assume h: "\<forall>k < p. octet_bit (octets n a) k = octet_bit (octets n b) k"
  show "drop_bit (8 * n - p) a = drop_bit (8 * n - p) b"
  proof (rule bit_word_eqI)
    fix i assume "i < LENGTH('a)"
    show "bit (drop_bit (8 * n - p) a) i = bit (drop_bit (8 * n - p) b) i"
    proof (cases "8 * n - p + i < 8 * n")
      case True
      then have i: "i < p" by simp
      then have "p - 1 - i < p" "8 * n - 1 - (p - 1 - i) = 8 * n - p + i" using p by auto
      with h [rule_format, of "p - 1 - i"] p show ?thesis
        by (simp add: octet_bit_octets bit_drop_bit_eq)
    next
      case False
      then show ?thesis using len by (auto simp: bit_drop_bit_eq dest: bit_imp_le_length)
    qed
  qed
next
  assume eq: "drop_bit (8 * n - p) a = drop_bit (8 * n - p) b"
  show "\<forall>k < p. octet_bit (octets n a) k = octet_bit (octets n b) k"
  proof (intro allI impI)
    fix k assume k: "k < p"
    then have "8 * n - 1 - k = 8 * n - p + (p - 1 - k)" using p by auto
    with arg_cong [OF eq, of "\<lambda>w. bit w (p - 1 - k)"] k p
    show "octet_bit (octets n a) k = octet_bit (octets n b) k"
      by (simp add: octet_bit_octets bit_drop_bit_eq)
  qed
qed

section \<open>Properties\<close>

text \<open>The meaning of a block: address families agree and the leading bits agree.\<close>

definition same_network :: "cidr \<Rightarrow> ip_addr \<Rightarrow> bool" where
  "same_network c ip \<longleftrightarrow>
     (case (cidr_base c, to_canonical ip) of
        (V4 b, V4 a) \<Rightarrow>
          drop_bit (32 - unat (cidr_prefix_len c)) b = drop_bit (32 - unat (cidr_prefix_len c)) a
      | (V6 b, V6 a) \<Rightarrow>
          drop_bit (128 - unat (cidr_prefix_len c)) b = drop_bit (128 - unat (cidr_prefix_len c)) a
      | _ \<Rightarrow> False)"

lemma prefix_matches_octets:
  fixes a b :: "'a::len word"
  assumes "LENGTH('a) = 8 * n" "unat plen \<le> 8 * n"
  shows "prefix_matches (octets n a) (octets n b) plen =
    Some (drop_bit (8 * n - unat plen) a = drop_bit (8 * n - unat plen) b)"
  using assms by (simp add: prefix_matches_bits [of _ n] octet_bits_drop_bit)

lemma cidr_contains_eq: "cidr_wf c \<Longrightarrow> cidr_contains c ip = Some (same_network c ip)"
  using prefix_matches_octets [where 'a = 32 and n = 4]
    prefix_matches_octets [where 'a = 128 and n = 16]
  by (cases "cidr_base c"; cases "to_canonical ip")
    (auto simp: cidr_contains_def same_network_def cidr_wf_def)

text \<open>C22. The proxy list trusts a peer exactly when, after unmapping an IPv4-mapped
  address, the peer agrees with some listed block on its first \<open>prefix_len\<close> bits; a peer of the
  other family never matches, and the byte-and-mask comparison never indexes out of range.\<close>

theorem trusts_iff:
  assumes "\<And>c. c \<in> set t \<Longrightarrow> cidr_wf c"
  shows "trusts t ip \<longleftrightarrow> (\<exists>c \<in> set t. same_network c ip)"
  using assms by (auto simp: trusts_def cidr_contains_eq)

theorem trusts_iff_witness:
  "trusts [\<lparr>cidr_base = V4 0x0A000000, cidr_prefix_len = 8\<rparr>] (V6 (v4_mapped 0x0A010203))"
  using trusts_iff [of "[\<lparr>cidr_base = V4 0x0A000000, cidr_prefix_len = 8\<rparr>]"
      "V6 (v4_mapped 0x0A010203)"]
  by (simp add: cidr_wf_def same_network_def)

lemma length_ip_octets: "length (ip_octets i) = (if ip_is_ipv4 i then 4 else 16)"
  by (cases i) auto

lemma octets2_list: "octets 2 (p :: u16) = [octets 2 p ! 0, octets 2 p ! Suc 0]"
  by (simp add: octets_def numeral_2_eq_2)

lemma parse_fixed_tcp_header:
  assumes "length block \<le> MAX_ADDRESS_BLOCK"
  shows "parse_fixed (V2_SIGNATURE @ [0x21, fam] @ octets 2 (of_nat (length block) :: u16))
    = Inr (0x21, length block)"
proof -
  have "unat (of_nat (length block) :: u16) = length block"
    using assms by (simp add: MAX_ADDRESS_BLOCK_def unat_of_nat)
  moreover have "length V2_SIGNATURE = 12" by (simp add: V2_SIGNATURE_def)
  ultimately show ?thesis using assms
    by (simp add: parse_fixed_def Let_def nth_append CMD_PROXY_def CMD_LOCAL_def)
qed

lemma parse_address_block_tcp:
  assumes "ip_is_ipv4 dst = ip_is_ipv4 src"
  shows "parse_address_block 0x21 (if ip_is_ipv4 src then AF_TCP4 else AF_TCP6)
    (ip_octets src @ ip_octets dst @ octets 2 sport @ octets 2 dport @ tlvs)
    = Inr (Proxy (mk_sa src sport))"
  using assms
  by (cases src; cases dst)
    (simp_all add: parse_address_block_def CMD_LOCAL_def AF_TCP4_def AF_TCP6_def nth_append
      from_octets_octets)


text \<open>C23. A PROXY v2 header for a TCP client, followed by any payload and cut into chunks
  at any points, gives the declared client address, and what the rest of the server reads is
  exactly the payload.\<close>

theorem read_source_addr_header:
  assumes fam: "ip_is_ipv4 dst = ip_is_ipv4 src" and tlvs: "length tlvs \<le> 988"
    and sent: "concat stream = tcp_header src sport dst dport tlvs @ payload"
  shows "\<exists>s. read_source_addr stream = Some (Some (mk_sa src sport), s)
    \<and> prefixed_content s = payload"
proof -
  define block where
    "block = ip_octets src @ ip_octets dst @ octets 2 sport @ octets 2 dport @ tlvs"
  define family where "family = (if ip_is_ipv4 src then AF_TCP4 else AF_TCP6)"
  define fixed where
    "fixed = V2_SIGNATURE @ [0x21, family] @ octets 2 (of_nat (length block) :: u16)"
  have sent': "concat stream = fixed @ block @ payload"
    using sent by (simp add: tcp_header_def Let_def fixed_def family_def block_def)
  have lf: "length fixed = V2_FIXED_LEN" and f13: "fixed ! 13 = family"
    by (simp_all add: fixed_def V2_FIXED_LEN_def V2_SIGNATURE_def)
  have pf: "parse_fixed fixed = Inr (0x21, length block)"
    unfolding fixed_def using tlvs
    by (intro parse_fixed_tcp_header)
      (simp add: block_def length_ip_octets fam MAX_ADDRESS_BLOCK_def)
  have pb: "parse_address_block 0x21 family block = Inr (Proxy (mk_sa src sport))"
    unfolding family_def block_def by (rule parse_address_block_tcp [OF fam])
  obtain r where r: "read_exact V2_FIXED_LEN stream = Some (fixed, r)" "concat r = block @ payload"
    by (rule read_exact_cases [of V2_FIXED_LEN stream]) (auto simp: sent' lf [symmetric])
  obtain r' where r': "read_exact (length block) r = Some (block, r')" "concat r' = payload"
    by (rule read_exact_cases [of "length block" r]) (auto simp: r(2))
  show ?thesis using r r' pf pb by (simp add: read_source_addr_def f13)
qed

theorem read_source_addr_header_witness:
  "\<exists>s. read_source_addr [tcp_header (V4 0xCB007107) 443 (V4 0x0A000001) 9450 [] @ [1, 2, 3]]
      = Some (Some (mk_sa (V4 0xCB007107) 443), s) \<and> prefixed_content s = [1, 2, 3]"
  using read_source_addr_header [of "V4 0x0A000001" "V4 0xCB007107" "[]"
      "[tcp_header (V4 0xCB007107) 443 (V4 0x0A000001) 9450 [] @ [1, 2, 3]]" 443 9450 "[1, 2, 3]"]
  by simp

text \<open>C24. A connection whose first bytes are not the PROXY v2 signature is not rejected
  and loses nothing: whatever buffer sizes the server polls with, it reads all the bytes the peer
  sent, in order, the sixteen peeked ones included.\<close>

theorem read_source_addr_replays:
  assumes ok: "transport_ok stream" and len: "V2_FIXED_LEN \<le> length (concat stream)"
    and other: "take 12 (concat stream) \<noteq> V2_SIGNATURE"
  shows "\<exists>s. read_source_addr stream = Some (None, s)
    \<and> (\<forall>ns. 0 \<notin> set ns \<longrightarrow> length (concat stream) \<le> length ns
          \<longrightarrow> fst (ps.polls s ns) = concat stream)"
proof -
  obtain r where r: "read_exact V2_FIXED_LEN stream = Some (take V2_FIXED_LEN (concat stream), r)"
    "concat r = drop V2_FIXED_LEN (concat stream)"
    by (rule read_exact_cases [of V2_FIXED_LEN stream]) (use len in auto)
  define s where "s = prefixed_new (take V2_FIXED_LEN (concat stream)) r"
  have "read_source_addr stream = Some (None, s)"
    using r other by (simp add: read_source_addr_def parse_fixed_def V2_FIXED_LEN_def s_def)
  moreover have "prefixed_content s = concat stream" by (simp add: s_def r)
  moreover have "prefixed_ok s"
    using read_exact_ok [OF r(1) ok] by (simp add: s_def prefixed_ok_def prefixed_new_def)
  ultimately show ?thesis using ps.polls_all by metis
qed

theorem read_source_addr_replays_witness:
  "\<exists>s. read_source_addr [replicate 20 22] = Some (None, s)
    \<and> fst (ps.polls s (replicate 20 7)) = replicate 20 22"
proof -
  have "hd (replicate 12 (22 :: u8)) \<noteq> hd V2_SIGNATURE" by (simp add: V2_SIGNATURE_def)
  then have "replicate 12 (22 :: u8) \<noteq> V2_SIGNATURE" by metis
  then show ?thesis
    using read_source_addr_replays [of "[replicate 20 22]"]
    by (auto simp: transport_ok_def V2_FIXED_LEN_def)
qed

end
