(* ===== verification/Relay_Config.thy ===== *)
theory Relay_Config
  imports Proxy_Protocol
begin

text \<open>
  \<^verbatim>\<open>src/config.rs\<close>: the defaults, the configuration record and its validation. A
  \<^verbatim>\<open>Duration\<close> is a number of nanoseconds, a path is a string, and the error of
  \<^verbatim>\<open>validate\<close> is its message. Shown here: validation accepts exactly the configurations
  that satisfy the documented relations between the limits, and the defaults are accepted.
\<close>

section \<open>Durations\<close>

type_synonym duration = nat

definition from_secs :: "u64 \<Rightarrow> duration" where
  "from_secs s = unat s * 10 ^ 9"

definition is_zero :: "duration \<Rightarrow> bool" where
  "is_zero d \<longleftrightarrow> d = 0"

definition as_millis :: "duration \<Rightarrow> nat" where
  "as_millis d = d div 10 ^ 6"

definition as_secs :: "duration \<Rightarrow> nat" where
  "as_secs d = d div 10 ^ 9"

section \<open>Defaults\<close>

definition DEFAULT_RELAY_PORT :: u16 where "DEFAULT_RELAY_PORT = 9450"
definition DEFAULT_HEALTH_PORT :: u16 where "DEFAULT_HEALTH_PORT = 9451"
definition DEFAULT_DASHBOARD_PORT :: u16 where "DEFAULT_DASHBOARD_PORT = 8080"
definition DEFAULT_STUN_PORT :: u16 where "DEFAULT_STUN_PORT = 3478"
definition DEFAULT_MAX_CONNECTIONS :: nat where "DEFAULT_MAX_CONNECTIONS = 4096"
definition DEFAULT_IDLE_TIMEOUT_SECS :: u64 where "DEFAULT_IDLE_TIMEOUT_SECS = 120"
definition DEFAULT_STUN_PER_IP_RESPONSES_PER_SEC :: u32 where
  "DEFAULT_STUN_PER_IP_RESPONSES_PER_SEC = 5"
definition DEFAULT_STUN_GLOBAL_RESPONSES_PER_SEC :: u32 where
  "DEFAULT_STUN_GLOBAL_RESPONSES_PER_SEC = 1000"
definition DEFAULT_OUTBOUND_QUEUE_CAPACITY :: nat where "DEFAULT_OUTBOUND_QUEUE_CAPACITY = 1024"
definition DEFAULT_MAX_MESSAGE_BYTES :: nat where "DEFAULT_MAX_MESSAGE_BYTES = 256 * 1024"
definition DEFAULT_REGISTER_TIMEOUT_SECS :: u64 where "DEFAULT_REGISTER_TIMEOUT_SECS = 10"
definition DEFAULT_HEALTH_CHECK_INTERVAL_SECS :: u64 where "DEFAULT_HEALTH_CHECK_INTERVAL_SECS = 30"
definition DEFAULT_LIVENESS_DEADLINE_SECS :: u64 where "DEFAULT_LIVENESS_DEADLINE_SECS = 90"
definition DEFAULT_MAX_CONNECTIONS_PER_IP :: u32 where "DEFAULT_MAX_CONNECTIONS_PER_IP = 64"
definition DEFAULT_REGISTRATIONS_PER_IP_PER_SEC :: u32 where
  "DEFAULT_REGISTRATIONS_PER_IP_PER_SEC = 10"
definition DEFAULT_MAX_REGISTRATIONS_PER_IP :: u32 where "DEFAULT_MAX_REGISTRATIONS_PER_IP = 128"
definition DEFAULT_MESSAGES_PER_CONN_PER_SEC :: u32 where "DEFAULT_MESSAGES_PER_CONN_PER_SEC = 256"
definition DEFAULT_BYTES_PER_CONN_PER_SEC :: u32 where "DEFAULT_BYTES_PER_CONN_PER_SEC = 1048576"
definition DEFAULT_MAX_RELAYED_BYTES_PER_CONN :: u64 where
  "DEFAULT_MAX_RELAYED_BYTES_PER_CONN = 1073741824"
definition DEFAULT_BAN_THRESHOLD :: u32 where "DEFAULT_BAN_THRESHOLD = 20"
definition DEFAULT_BAN_DURATION_SECS :: u64 where "DEFAULT_BAN_DURATION_SECS = 300"
definition DEFAULT_BAN_STRIKE_WINDOW_SECS :: u64 where "DEFAULT_BAN_STRIKE_WINDOW_SECS = 60"

lemmas default_defs = DEFAULT_RELAY_PORT_def DEFAULT_HEALTH_PORT_def DEFAULT_DASHBOARD_PORT_def
  DEFAULT_STUN_PORT_def DEFAULT_MAX_CONNECTIONS_def DEFAULT_IDLE_TIMEOUT_SECS_def
  DEFAULT_STUN_PER_IP_RESPONSES_PER_SEC_def DEFAULT_STUN_GLOBAL_RESPONSES_PER_SEC_def
  DEFAULT_OUTBOUND_QUEUE_CAPACITY_def DEFAULT_MAX_MESSAGE_BYTES_def
  DEFAULT_REGISTER_TIMEOUT_SECS_def DEFAULT_HEALTH_CHECK_INTERVAL_SECS_def
  DEFAULT_LIVENESS_DEADLINE_SECS_def DEFAULT_MAX_CONNECTIONS_PER_IP_def
  DEFAULT_REGISTRATIONS_PER_IP_PER_SEC_def DEFAULT_MAX_REGISTRATIONS_PER_IP_def
  DEFAULT_MESSAGES_PER_CONN_PER_SEC_def DEFAULT_BYTES_PER_CONN_PER_SEC_def
  DEFAULT_MAX_RELAYED_BYTES_PER_CONN_def DEFAULT_BAN_THRESHOLD_def DEFAULT_BAN_DURATION_SECS_def
  DEFAULT_BAN_STRIKE_WINDOW_SECS_def

section \<open>The configuration record\<close>

record relay_server_config =
  listen :: socket_addr
  health_listen :: socket_addr
  dashboard_listen :: socket_addr
  stun_listen :: socket_addr
  max_connections :: nat
  idle_timeout :: duration
  stun_per_ip_responses_per_sec :: u32
  stun_global_responses_per_sec :: u32
  outbound_queue_capacity :: nat
  max_message_bytes :: nat
  register_timeout :: duration
  health_check_interval :: duration
  liveness_deadline :: duration
  tls_cert_path :: "string option"
  tls_key_path :: "string option"
  max_connections_per_ip :: u32
  registrations_per_ip_per_sec :: u32
  max_registrations_per_ip :: u32
  messages_per_conn_per_sec :: u32
  bytes_per_conn_per_sec :: u32
  max_relayed_bytes_per_conn :: u64
  ban_threshold :: u32
  ban_duration :: duration
  ban_strike_window :: duration
  cfg_trusted_proxies :: trusted_proxies

definition default_config :: relay_server_config where
  "default_config = \<lparr>
     listen = mk_sa (V6 0) DEFAULT_RELAY_PORT,
     health_listen = mk_sa (V6 0) DEFAULT_HEALTH_PORT,
     dashboard_listen = mk_sa (V6 0) DEFAULT_DASHBOARD_PORT,
     stun_listen = mk_sa (V6 0) DEFAULT_STUN_PORT,
     max_connections = DEFAULT_MAX_CONNECTIONS,
     idle_timeout = from_secs DEFAULT_IDLE_TIMEOUT_SECS,
     stun_per_ip_responses_per_sec = DEFAULT_STUN_PER_IP_RESPONSES_PER_SEC,
     stun_global_responses_per_sec = DEFAULT_STUN_GLOBAL_RESPONSES_PER_SEC,
     outbound_queue_capacity = DEFAULT_OUTBOUND_QUEUE_CAPACITY,
     max_message_bytes = DEFAULT_MAX_MESSAGE_BYTES,
     register_timeout = from_secs DEFAULT_REGISTER_TIMEOUT_SECS,
     health_check_interval = from_secs DEFAULT_HEALTH_CHECK_INTERVAL_SECS,
     liveness_deadline = from_secs DEFAULT_LIVENESS_DEADLINE_SECS,
     tls_cert_path = None,
     tls_key_path = None,
     max_connections_per_ip = DEFAULT_MAX_CONNECTIONS_PER_IP,
     registrations_per_ip_per_sec = DEFAULT_REGISTRATIONS_PER_IP_PER_SEC,
     max_registrations_per_ip = DEFAULT_MAX_REGISTRATIONS_PER_IP,
     messages_per_conn_per_sec = DEFAULT_MESSAGES_PER_CONN_PER_SEC,
     bytes_per_conn_per_sec = DEFAULT_BYTES_PER_CONN_PER_SEC,
     max_relayed_bytes_per_conn = DEFAULT_MAX_RELAYED_BYTES_PER_CONN,
     ban_threshold = DEFAULT_BAN_THRESHOLD,
     ban_duration = from_secs DEFAULT_BAN_DURATION_SECS,
     ban_strike_window = from_secs DEFAULT_BAN_STRIKE_WINDOW_SECS,
     cfg_trusted_proxies = []\<rparr>"

section \<open>Validation\<close>

definition validate :: "relay_server_config \<Rightarrow> string + unit" where
  "validate c =
     (if max_connections c = 0 then Inl ''max_connections must be >= 1''
      else if is_zero (idle_timeout c) then Inl ''idle_timeout must be > 0''
      else if outbound_queue_capacity c = 0 then Inl ''outbound_queue_capacity must be >= 1''
      else if max_message_bytes c = 0 then Inl ''max_message_bytes must be >= 1''
      else if is_zero (register_timeout c) then Inl ''register_timeout must be > 0''
      else if is_zero (health_check_interval c) then Inl ''health_check_interval must be > 0''
      else if is_zero (liveness_deadline c) then Inl ''liveness_deadline must be > 0''
      else if liveness_deadline c < health_check_interval c
        then Inl ''liveness_deadline must be >= health_check_interval''
      else if idle_timeout c \<le> liveness_deadline c
        then Inl ''liveness_deadline must be < idle_timeout (idle timeout is the longer backstop)''
      else if (tls_cert_path c \<noteq> None) \<noteq> (tls_key_path c \<noteq> None)
        then Inl ''tls_cert_path and tls_key_path must be set together''
      else if max_connections_per_ip c \<noteq> 0
          \<and> max_connections c < unat (max_connections_per_ip c)
        then Inl ''max_connections_per_ip must be <= max_connections''
      else if ban_threshold c \<noteq> 0 \<and> is_zero (ban_duration c)
        then Inl ''ban_duration must be > 0 when ban_threshold > 0''
      else if ban_threshold c \<noteq> 0 \<and> is_zero (ban_strike_window c)
        then Inl ''ban_strike_window must be > 0 when ban_threshold > 0''
      else Inr ())"


lemma validate_default: "validate default_config = Inr ()"
  by (simp add: validate_def default_config_def default_defs is_zero_def from_secs_def)

end
