(* ===== verification/Limit_Contracts.thy ===== *)
theory Limit_Contracts
  imports Relay_Prelude
begin

text \<open>
  The two contracts the abuse limits are built on. \<open>window_budget\<close> is a budget that refills at
  the start of each time window: its client lemma says that, over any sequence of requests whose
  windows never go backwards, a request is granted exactly when the window's grants so far leave
  room for it. \<open>slot_pool\<close> is a pool of per-key slots handed out up to a cap and returned by
  releasing them: its client lemmas say that acquiring, refusing and releasing keep the pool's
  counts equal to the numbers of live slots and below the cap.
\<close>

locale window_budget =
  fixes spend :: "'b \<Rightarrow> 'e \<Rightarrow> bool \<times> 'b"
    and cost :: "'e \<Rightarrow> nat"
    and win_of :: "'e \<Rightarrow> 'w::linorder"
    and avail :: "'b \<Rightarrow> nat"
    and win :: "'b \<Rightarrow> 'w"
    and cap :: nat
  assumes spend_ok: "fst (spend b e) \<longleftrightarrow> cost e \<le> (if win b = win_of e then avail b else cap)"
    and spend_avail: "avail (snd (spend b e)) =
      (if win b = win_of e then avail b else cap) - (if fst (spend b e) then cost e else 0)"
    and spend_win: "win (snd (spend b e)) = win_of e"
begin

fun final :: "'b \<Rightarrow> 'e list \<Rightarrow> 'b" where
  "final b [] = b"
| "final b (e # es) = final (snd (spend b e)) es"

fun granted :: "'w \<Rightarrow> 'b \<Rightarrow> 'e list \<Rightarrow> nat" where
  "granted w b [] = 0"
| "granted w b (e # es) =
     (if fst (spend b e) \<and> win_of e = w then cost e else 0) + granted w (snd (spend b e)) es"

lemma final_snoc: "final b (es @ [e]) = snd (spend (final b es) e)"
  by (induction es arbitrary: b) simp_all

lemma granted_snoc: "granted w b (es @ [e]) =
    granted w b es + (if fst (spend (final b es) e) \<and> win_of e = w then cost e else 0)"
  by (induction es arbitrary: b) simp_all

lemma budget_inv:
  assumes "sorted (map win_of es)" "\<forall>e \<in> set es. win b \<le> win_of e" "avail b = cap"
  shows "win (final b es) = (if es = [] then win b else win_of (last es))"
    and "avail (final b es) + granted (win (final b es)) b es = cap"
    and "win (final b es) < w \<Longrightarrow> granted w b es = 0"
    and "granted w b es \<le> cap"
proof -
  have "win (final b es) = (if es = [] then win b else win_of (last es))
    \<and> avail (final b es) + granted (win (final b es)) b es = cap
    \<and> (\<forall>w. win (final b es) < w \<longrightarrow> granted w b es = 0) \<and> (\<forall>w. granted w b es \<le> cap)"
    using assms
  proof (induction es rule: rev_induct)
    case Nil
    then show ?case by simp
  next
    case (snoc e es)
    let ?f = "final b es"
    from snoc have IH: "win ?f = (if es = [] then win b else win_of (last es))"
      "avail ?f + granted (win ?f) b es = cap" "\<And>w. win ?f < w \<Longrightarrow> granted w b es = 0"
      "\<And>w. granted w b es \<le> cap"
      by (auto simp: sorted_append)
    have le: "win ?f \<le> win_of e"
      using snoc.prems IH(1) by (auto simp: sorted_append)
    have room: "(if win ?f = win_of e then avail ?f else cap) + granted (win_of e) b es = cap"
      using IH(2) IH(3) [of "win_of e"] le by (cases "win ?f = win_of e") auto
    have "avail (final b (es @ [e])) + granted (win_of e) b (es @ [e]) = cap"
      using room spend_ok [of ?f e] by (auto simp: final_snoc granted_snoc spend_avail)
    moreover have "granted w b (es @ [e]) = 0" if "win_of e < w" for w
      using that IH(3) le by (auto simp: granted_snoc)
    moreover have "granted w b (es @ [e]) \<le> cap" for w
      using IH(4) [of w] room spend_ok [of ?f e] by (auto simp: granted_snoc)
    ultimately show ?case by (simp add: final_snoc spend_win)
  qed
  then show "win (final b es) = (if es = [] then win b else win_of (last es))"
    and "avail (final b es) + granted (win (final b es)) b es = cap"
    and "win (final b es) < w \<Longrightarrow> granted w b es = 0"
    and "granted w b es \<le> cap"
    by blast+
qed

text \<open>Exactness: the next request is granted iff the window still has room for it.\<close>

lemma spend_exact:
  assumes "sorted (map win_of (es @ [e]))" "\<forall>e' \<in> set (es @ [e]). win b \<le> win_of e'"
    and "avail b = cap"
  shows "fst (spend (final b es) e) \<longleftrightarrow> granted (win_of e) b es + cost e \<le> cap"
proof -
  have s: "sorted (map win_of es)" "\<forall>e \<in> set es. win b \<le> win_of e"
    using assms by (auto simp: sorted_append)
  note inv = budget_inv [OF s assms(3)]
  have "win (final b es) \<le> win_of e"
    using assms inv(1) by (auto simp: sorted_append)
  then show ?thesis
    using inv(2) inv(3) [of "win_of e"] spend_ok [of "final b es" e]
    by (cases "win (final b es) = win_of e") auto
qed

end

locale slot_pool =
  fixes acquire :: "'s \<Rightarrow> 'a \<Rightarrow> 'x option \<times> 's"
    and release :: "'x \<Rightarrow> 's \<Rightarrow> 's"
    and key :: "'a \<Rightarrow> 'k"
    and slot_key :: "'x \<Rightarrow> 'k"
    and tracked :: "'x \<Rightarrow> bool"
    and count :: "'s \<Rightarrow> 'k \<Rightarrow> nat"
    and ok :: "'s \<Rightarrow> bool"
    and cap :: nat
  assumes acquire_ok: "ok s \<Longrightarrow> ok (snd (acquire s a))"
    and acquire_some: "ok s \<Longrightarrow> acquire s a = (Some x, s') \<Longrightarrow>
      slot_key x = key a \<and> (tracked x \<longleftrightarrow> cap \<noteq> 0)
      \<and> (tracked x \<longrightarrow> count s (key a) < cap)
      \<and> count s' = (if tracked x then (count s)(key a := count s (key a) + 1) else count s)"
    and acquire_none: "ok s \<Longrightarrow> acquire s a = (None, s') \<Longrightarrow>
      cap \<noteq> 0 \<and> cap \<le> count s (key a) \<and> count s' = count s"
    and release_ok: "ok s \<Longrightarrow> ok (release x s)"
    and release_count: "ok s \<Longrightarrow> tracked x \<Longrightarrow> 0 < count s (slot_key x) \<Longrightarrow>
      count (release x s) = (count s)(slot_key x := count s (slot_key x) - 1)"
    and release_untracked: "ok s \<Longrightarrow> \<not> tracked x \<Longrightarrow> count (release x s) = count s"
begin

text \<open>The live slots are those handed out and not yet released. \<open>accounted\<close> says that the
  pool's counts are the numbers of live slots, and that no key is above the cap.\<close>

definition live_count :: "'x list \<Rightarrow> 'k \<Rightarrow> nat" where
  "live_count live k = length (filter (\<lambda>x. tracked x \<and> slot_key x = k) live)"

definition accounted :: "'s \<Rightarrow> 'x list \<Rightarrow> bool" where
  "accounted s live \<longleftrightarrow> ok s \<and> (\<forall>k. count s k = live_count live k)
     \<and> (\<forall>k. cap \<noteq> 0 \<longrightarrow> live_count live k \<le> cap)"

lemma live_count_remove:
  "live_count (xs @ x # ys) k = live_count (xs @ ys) k + (if tracked x \<and> slot_key x = k then 1 else 0)"
  by (simp add: live_count_def)

lemma accounted_start: "ok s \<Longrightarrow> count s = (\<lambda>_. 0) \<Longrightarrow> accounted s []"
  by (simp add: accounted_def live_count_def)

lemma accounted_frame: "accounted s live \<Longrightarrow> ok s' \<Longrightarrow> count s' = count s \<Longrightarrow> accounted s' live"
  by (simp add: accounted_def)

lemma accounted_acquire:
  assumes "accounted s live" "acquire s a = (Some x, s')"
  shows "accounted s' (x # live)"
proof -
  have inv: "ok s" "\<And>k. count s k = live_count live k"
    "\<And>k. cap \<noteq> 0 \<Longrightarrow> live_count live k \<le> cap"
    using assms(1) by (auto simp: accounted_def)
  have "ok s'" using acquire_ok [OF inv(1), of a] assms(2) by simp
  with acquire_some [OF inv(1) assms(2)] inv(2,3) show ?thesis
    by (auto simp: accounted_def live_count_def)
qed

lemma accounted_acquire_at:
  assumes "accounted s (xs @ ys)" "acquire s a = (Some x, s')"
  shows "accounted s' (xs @ x # ys)"
proof -
  have "live_count (x # xs @ ys) = live_count (xs @ x # ys)" by (simp add: fun_eq_iff live_count_def)
  with accounted_acquire [OF assms] show ?thesis by (simp add: accounted_def)
qed

lemma accounted_refused:
  assumes "accounted s live" "acquire s a = (None, s')"
  shows "accounted s' live" "live_count live (key a) = cap"
proof -
  have "ok s" "count s (key a) = live_count live (key a)"
    "cap \<noteq> 0 \<Longrightarrow> live_count live (key a) \<le> cap"
    using assms(1) by (auto simp: accounted_def)
  with acquire_ok [of s a] acquire_none [OF _ assms(2)] assms(2)
  have "ok s'" "count s' = count s" "live_count live (key a) = cap" by auto
  then show "accounted s' live" "live_count live (key a) = cap"
    using accounted_frame [OF assms(1)] by blast+
qed

lemma accounted_release:
  assumes "accounted s (xs @ x # ys)"
  shows "accounted (release x s) (xs @ ys)"
proof -
  have inv: "ok s" "\<And>k. count s k = live_count (xs @ x # ys) k"
    "\<And>k. cap \<noteq> 0 \<Longrightarrow> live_count (xs @ x # ys) k \<le> cap"
    using assms by (auto simp: accounted_def)
  have "live_count (xs @ ys) k \<le> cap" if "cap \<noteq> 0" for k
    using inv(3) [OF that, of k] by (simp add: live_count_remove split: if_splits)
  moreover have "count (release x s) k = live_count (xs @ ys) k" for k
  proof (cases "tracked x")
    case True
    then have "0 < count s (slot_key x)" by (simp add: inv(2) live_count_remove)
    then show ?thesis using release_count [OF inv(1) True] True by (simp add: inv(2) live_count_remove)
  next
    case False
    then show ?thesis
      using release_untracked [OF inv(1) False] by (simp add: inv(2) live_count_remove)
  qed
  ultimately show ?thesis using release_ok [OF inv(1)] by (simp add: accounted_def)
qed

end

end
