(* ===== verification/Abuse_Limits.thy ===== *)
theory Abuse_Limits
  imports Relay_Config Limit_Contracts
begin

text \<open>
  \<^verbatim>\<open>src/limits.rs\<close>: the abuse limits. The state behind the policy's mutex is a record of five
  hash maps and every method is a function on it, so a sequence of calls in lock order is a
  sequence of applications; the release of a slot is the function its \<^verbatim>\<open>Drop\<close> runs. Shown
  here: the two one-second budgets meet one contract (\<open>window_budget\<close>), from which the rate
  bounds follow; the two kinds of slots meet one contract (\<open>slot_pool\<close>), from which counts equal
  live slots and stay below the cap; the tracked maps stay within \<^verbatim>\<open>MAX_TRACKED_IPS\<close>; and
  bans are imposed and lifted exactly as the threshold, window and duration say.
\<close>

section \<open>Budgets\<close>

definition MAX_TRACKED_IPS :: nat where "MAX_TRACKED_IPS = 65536"

record token_bucket =
  tokens :: u32
  tb_window :: u64
  tb_last_seen_ms :: u64

definition token_bucket_new :: "u32 \<Rightarrow> u64 \<Rightarrow> token_bucket" where
  "token_bucket_new capacity now_ms =
     \<lparr>tokens = capacity, tb_window = now_ms div 1000, tb_last_seen_ms = now_ms\<rparr>"

definition token_try_spend :: "token_bucket \<Rightarrow> u32 \<Rightarrow> u64 \<Rightarrow> bool \<times> token_bucket" where
  "token_try_spend b capacity now_ms =
     (let window = now_ms div 1000;
          b1 = (if window \<noteq> tb_window b then b\<lparr>tb_window := window, tokens := capacity\<rparr> else b);
          b2 = b1\<lparr>tb_last_seen_ms := now_ms\<rparr>
      in if tokens b2 > 0 then (True, b2\<lparr>tokens := tokens b2 - 1\<rparr>) else (False, b2))"

record byte_bucket =
  remaining :: u64
  bb_window :: u64

definition byte_bucket_new :: "u64 \<Rightarrow> u64 \<Rightarrow> byte_bucket" where
  "byte_bucket_new capacity now_ms = \<lparr>remaining = capacity, bb_window = now_ms div 1000\<rparr>"

definition byte_try_spend :: "byte_bucket \<Rightarrow> u64 \<Rightarrow> u64 \<Rightarrow> u64 \<Rightarrow> bool \<times> byte_bucket" where
  "byte_try_spend b capacity cost now_ms =
     (let window = now_ms div 1000;
          b1 = (if window \<noteq> bb_window b then b\<lparr>bb_window := window, remaining := capacity\<rparr> else b)
      in if remaining b1 \<ge> cost then (True, b1\<lparr>remaining := remaining b1 - cost\<rparr>) else (False, b1))"

section \<open>Source keys\<close>

type_synonym ip_key_t = ip_addr

definition ip_key :: "ip_addr \<Rightarrow> ip_key_t" where
  "ip_key ip =
     (case to_canonical ip of
        V4 v4 \<Rightarrow> V4 v4
      | V6 v6 \<Rightarrow> V6 (from_octets (take 8 (octets6 v6) @ replicate 8 0)))"

section \<open>The policy and its state\<close>

record strike_record =
  strike_count :: u32
  window_start_ms :: u64
  sr_last_seen_ms :: u64

record abuse_state =
  conns_per_ip :: "(ip_key_t, u32) hash_map"
  reg_buckets :: "(ip_key_t, token_bucket) hash_map"
  regs_per_ip :: "(ip_key_t, u32) hash_map"
  strikes :: "(ip_key_t, strike_record) hash_map"
  bans :: "(ip_key_t, u64) hash_map"

definition abuse_state_default :: abuse_state where
  "abuse_state_default =
     \<lparr>conns_per_ip = [], reg_buckets = [], regs_per_ip = [], strikes = [], bans = []\<rparr>"

record abuse_policy =
  ap_max_connections_per_ip :: u32
  ap_registrations_per_ip_per_sec :: u32
  ap_max_registrations_per_ip :: u32
  ap_ban_threshold :: u32
  ap_ban_duration_ms :: u64
  ap_ban_strike_window_ms :: u64

definition abuse_policy_new :: "relay_server_config \<Rightarrow> abuse_policy \<times> abuse_state" where
  "abuse_policy_new config =
     (\<lparr>ap_max_connections_per_ip = max_connections_per_ip config,
       ap_registrations_per_ip_per_sec = registrations_per_ip_per_sec config,
       ap_max_registrations_per_ip = max_registrations_per_ip config,
       ap_ban_threshold = ban_threshold config,
       ap_ban_duration_ms = of_nat (as_millis (ban_duration config)),
       ap_ban_strike_window_ms = of_nat (as_millis (ban_strike_window config))\<rparr>,
      abuse_state_default)"

text \<open>A slot from a disabled cap carries no reference to the state; releasing it does nothing.\<close>

record conn_slot =
  cs_tracked :: bool
  cs_key :: ip_key_t

record reg_slot =
  rs_tracked :: bool
  rs_key :: ip_key_t

definition try_acquire_conn ::
  "abuse_policy \<Rightarrow> abuse_state \<Rightarrow> ip_addr \<Rightarrow> conn_slot option \<times> abuse_state" where
  "try_acquire_conn p st ip =
     (let key = ip_key ip in
      if ap_max_connections_per_ip p = 0 then (Some \<lparr>cs_tracked = False, cs_key = key\<rparr>, st)
      else
        let st1 = st\<lparr>conns_per_ip := hm_upsert key 0 id (conns_per_ip st)\<rparr>;
            count = the (map_of (conns_per_ip st1) key)
        in if count \<ge> ap_max_connections_per_ip p then
             (None, if count = 0 then st1\<lparr>conns_per_ip := AList.delete key (conns_per_ip st1)\<rparr> else st1)
           else (Some \<lparr>cs_tracked = True, cs_key = key\<rparr>,
                 st1\<lparr>conns_per_ip := AList.update key (count + 1) (conns_per_ip st1)\<rparr>))"

definition drop_conn_slot :: "conn_slot \<Rightarrow> abuse_state \<Rightarrow> abuse_state" where
  "drop_conn_slot slot st =
     (if cs_tracked slot then
        (case map_of (conns_per_ip st) (cs_key slot) of
           Some count \<Rightarrow>
             if count - 1 = 0 then st\<lparr>conns_per_ip := AList.delete (cs_key slot) (conns_per_ip st)\<rparr>
             else st\<lparr>conns_per_ip := AList.update (cs_key slot) (count - 1) (conns_per_ip st)\<rparr>
         | None \<Rightarrow> st)
      else st)"

definition evict_lru_if_full ::
  "(ip_key_t, token_bucket) hash_map \<Rightarrow> ip_key_t \<Rightarrow> (ip_key_t, token_bucket) hash_map" where
  "evict_lru_if_full m key = evict_min_by MAX_TRACKED_IPS tb_last_seen_ms m key"

definition evict_lru_strikes ::
  "(ip_key_t, strike_record) hash_map \<Rightarrow> ip_key_t \<Rightarrow> (ip_key_t, strike_record) hash_map" where
  "evict_lru_strikes m key = evict_min_by MAX_TRACKED_IPS sr_last_seen_ms m key"

definition evict_soonest_ban ::
  "(ip_key_t, u64) hash_map \<Rightarrow> ip_key_t \<Rightarrow> (ip_key_t, u64) hash_map" where
  "evict_soonest_ban m key = evict_min_by MAX_TRACKED_IPS id m key"

definition allow_registration ::
  "abuse_policy \<Rightarrow> abuse_state \<Rightarrow> ip_addr \<Rightarrow> u64 \<Rightarrow> bool \<times> abuse_state" where
  "allow_registration p st ip now_ms =
     (if ap_registrations_per_ip_per_sec p = 0 then (True, st)
      else
        let key = ip_key ip; capacity = ap_registrations_per_ip_per_sec p;
            m = evict_lru_if_full (reg_buckets st) key;
            b = (case map_of m key of None \<Rightarrow> token_bucket_new capacity now_ms | Some b \<Rightarrow> b);
            (ok, b') = token_try_spend b capacity now_ms
        in (ok, st\<lparr>reg_buckets := AList.update key b' m\<rparr>))"

definition try_acquire_registration ::
  "abuse_policy \<Rightarrow> abuse_state \<Rightarrow> ip_addr \<Rightarrow> reg_slot option \<times> abuse_state" where
  "try_acquire_registration p st ip =
     (let key = ip_key ip in
      if ap_max_registrations_per_ip p = 0 then (Some \<lparr>rs_tracked = False, rs_key = key\<rparr>, st)
      else
        let st1 = st\<lparr>regs_per_ip := hm_upsert key 0 id (regs_per_ip st)\<rparr>;
            count = the (map_of (regs_per_ip st1) key)
        in if count \<ge> ap_max_registrations_per_ip p then
             (None, if count = 0 then st1\<lparr>regs_per_ip := AList.delete key (regs_per_ip st1)\<rparr> else st1)
           else (Some \<lparr>rs_tracked = True, rs_key = key\<rparr>,
                 st1\<lparr>regs_per_ip := AList.update key (count + 1) (regs_per_ip st1)\<rparr>))"

definition drop_reg_slot :: "reg_slot \<Rightarrow> abuse_state \<Rightarrow> abuse_state" where
  "drop_reg_slot slot st =
     (if rs_tracked slot then
        (case map_of (regs_per_ip st) (rs_key slot) of
           Some count \<Rightarrow>
             if count - 1 = 0 then st\<lparr>regs_per_ip := AList.delete (rs_key slot) (regs_per_ip st)\<rparr>
             else st\<lparr>regs_per_ip := AList.update (rs_key slot) (count - 1) (regs_per_ip st)\<rparr>
         | None \<Rightarrow> st)
      else st)"

definition is_banned :: "abuse_policy \<Rightarrow> abuse_state \<Rightarrow> ip_addr \<Rightarrow> u64 \<Rightarrow> bool \<times> abuse_state" where
  "is_banned p st ip now_ms =
     (if ap_ban_threshold p = 0 then (False, st)
      else let key = ip_key ip in
        (case map_of (bans st) key of
           Some banned_until \<Rightarrow>
             if now_ms < banned_until then (True, st)
             else (False, st\<lparr>bans := AList.delete key (bans st)\<rparr>)
         | None \<Rightarrow> (False, st)))"

text \<open>One strike on a source's record, without the maps.\<close>

definition strike_step :: "u64 \<Rightarrow> u64 \<Rightarrow> strike_record \<Rightarrow> strike_record" where
  "strike_step window_ms now_ms rec =
     (let rec1 = (if sat_sub now_ms (window_start_ms rec) > window_ms
                  then rec\<lparr>strike_count := 0, window_start_ms := now_ms\<rparr> else rec)
      in rec1\<lparr>strike_count := sat_add (strike_count rec1) 1, sr_last_seen_ms := now_ms\<rparr>)"

definition record_strike :: "abuse_policy \<Rightarrow> abuse_state \<Rightarrow> ip_addr \<Rightarrow> u64 \<Rightarrow> abuse_state" where
  "record_strike p st ip now_ms =
     (if ap_ban_threshold p = 0 then st
      else
        let key = ip_key ip;
            m = evict_lru_strikes (strikes st) key;
            rec = (case map_of m key of
                     None \<Rightarrow> \<lparr>strike_count = 0, window_start_ms = now_ms, sr_last_seen_ms = now_ms\<rparr>
                   | Some r \<Rightarrow> r);
            rec' = strike_step (ap_ban_strike_window_ms p) now_ms rec;
            st1 = st\<lparr>strikes := AList.update key rec' m\<rparr>
        in if strike_count rec' \<ge> ap_ban_threshold p then
             st1\<lparr>strikes := AList.delete key (strikes st1),
                 bans := AList.update key (sat_add now_ms (ap_ban_duration_ms p))
                           (evict_soonest_ban (bans st1) key)\<rparr>
           else st1)"

section \<open>The per-connection limiter\<close>

datatype admit_verdict = AdmitOk | Disconnect

record per_conn_limiter =
  msgs :: token_bucket
  msgs_per_sec :: u32
  bytes :: byte_bucket
  bytes_per_sec :: u64
  relayed_total :: u64
  max_relayed_bytes :: u64

definition per_conn_limiter_new :: "relay_server_config \<Rightarrow> u64 \<Rightarrow> per_conn_limiter" where
  "per_conn_limiter_new config now_ms =
     \<lparr>msgs = token_bucket_new (messages_per_conn_per_sec config) now_ms,
      msgs_per_sec = messages_per_conn_per_sec config,
      bytes = byte_bucket_new (ucast (bytes_per_conn_per_sec config)) now_ms,
      bytes_per_sec = ucast (bytes_per_conn_per_sec config),
      relayed_total = 0,
      max_relayed_bytes = max_relayed_bytes_per_conn config\<rparr>"

definition admit :: "per_conn_limiter \<Rightarrow> nat \<Rightarrow> u64 \<Rightarrow> admit_verdict \<times> per_conn_limiter" where
  "admit l len now_ms =
     (let frame_len = (of_nat len :: u64);
          (msg_ok, l1) =
            (if msgs_per_sec l > 0 then
               let (ok, b) = token_try_spend (msgs l) (msgs_per_sec l) now_ms in (ok, l\<lparr>msgs := b\<rparr>)
             else (True, l))
      in if \<not> msg_ok then (Disconnect, l1)
         else
           let (byte_ok, l2) =
             (if bytes_per_sec l1 > 0 then
                let (ok, b) = byte_try_spend (bytes l1) (bytes_per_sec l1) frame_len now_ms
                in (ok, l1\<lparr>bytes := b\<rparr>)
              else (True, l1))
           in if \<not> byte_ok then (Disconnect, l2)
              else
                let l3 = l2\<lparr>relayed_total := sat_add (relayed_total l2) frame_len\<rparr>
                in if max_relayed_bytes l3 > 0 \<and> relayed_total l3 > max_relayed_bytes l3
                   then (Disconnect, l3) else (AdmitOk, l3))"

section \<open>The budgets meet their contract\<close>

interpretation tb: window_budget "\<lambda>b t. token_try_spend b capacity t" "\<lambda>_. Suc 0"
  "\<lambda>t :: u64. t div 1000" "\<lambda>b. unat (tokens b)" tb_window "unat capacity" for capacity
proof unfold_locales
  fix b and t :: u64
  have gt: "0 < (x :: u32) \<longleftrightarrow> 0 < unat x" for x by (simp add: unat_gt_0 word_gt_0)
  show "fst (token_try_spend b capacity t) \<longleftrightarrow>
      Suc 0 \<le> (if tb_window b = t div 1000 then unat (tokens b) else unat capacity)"
    and "unat (tokens (snd (token_try_spend b capacity t))) =
      (if tb_window b = t div 1000 then unat (tokens b) else unat capacity)
      - (if fst (token_try_spend b capacity t) then Suc 0 else 0)"
    and "tb_window (snd (token_try_spend b capacity t)) = t div 1000"
    by (auto simp: token_try_spend_def Let_def gt unat_dec)
qed

interpretation bb: window_budget "\<lambda>b e. byte_try_spend b capacity (fst e) (snd e)"
  "\<lambda>e. unat (fst e)" "\<lambda>e. snd e div 1000" "\<lambda>b. unat (remaining b)" bb_window "unat capacity"
  for capacity
proof unfold_locales
  fix b and e :: "u64 \<times> u64"
  show "fst (byte_try_spend b capacity (fst e) (snd e)) \<longleftrightarrow>
      unat (fst e) \<le> (if bb_window b = snd e div 1000 then unat (remaining b) else unat capacity)"
    and "unat (remaining (snd (byte_try_spend b capacity (fst e) (snd e)))) =
      (if bb_window b = snd e div 1000 then unat (remaining b) else unat capacity)
      - (if fst (byte_try_spend b capacity (fst e) (snd e)) then unat (fst e) else 0)"
    and "bb_window (snd (byte_try_spend b capacity (fst e) (snd e))) = snd e div 1000"
    by (auto simp: byte_try_spend_def Let_def word_le_nat_alt unat_sub)
qed

section \<open>The slots meet their contract\<close>

definition hm_count :: "('k, u32) hash_map \<Rightarrow> 'k \<Rightarrow> nat" where
  "hm_count m k = (case map_of m k of None \<Rightarrow> 0 | Some c \<Rightarrow> unat c)"

text \<open>No zero entry is left behind, so a map is never larger than the set of live slots.\<close>

definition counts_ok :: "('k, u32) hash_map \<Rightarrow> bool" where
  "counts_ok m \<longleftrightarrow> hm_wf m \<and> 0 \<notin> snd ` set m"

lemma counts_ok_get: "counts_ok m \<Longrightarrow> map_of m k = Some c \<Longrightarrow> c \<noteq> 0"
  by (force simp: counts_ok_def dest: map_of_SomeD)

lemma counts_ok_iff: "counts_ok m \<longleftrightarrow> hm_wf m \<and> (\<forall>k. map_of m k \<noteq> Some 0)"
  by (force simp: counts_ok_def hm_wf_map_of [symmetric])

lemma hm_upsert_id_present:
  "map_of m k = Some v \<Longrightarrow> hm_wf m \<Longrightarrow> hm_upsert k d id m = m"
  unfolding hm_upsert_def hm_wf_def by (induction m) (auto split: if_splits simp: map_of_eq_None_iff)

lemma hm_upsert_id_delete:
  "map_of m k = None \<Longrightarrow> AList.delete k (hm_upsert k d id m) = m"
  unfolding hm_upsert_def by (induction m) (auto split: if_splits)

text \<open>The body shared by the two acquisitions, and by the two releases, on the map alone.\<close>

definition slot_take :: "u32 \<Rightarrow> 'k \<Rightarrow> ('k, u32) hash_map \<Rightarrow> bool \<times> ('k, u32) hash_map" where
  "slot_take lim k m =
     (let m1 = hm_upsert k 0 id m; c = the (map_of m1 k)
      in if c \<ge> lim then (False, if c = 0 then AList.delete k m1 else m1)
         else (True, AList.update k (c + 1) m1))"

definition slot_put :: "'k \<Rightarrow> ('k, u32) hash_map \<Rightarrow> ('k, u32) hash_map" where
  "slot_put k m =
     (case map_of m k of
        Some c \<Rightarrow> if c - 1 = 0 then AList.delete k m else AList.update k (c - 1) m
      | None \<Rightarrow> m)"

lemma slot_take_True:
  assumes "counts_ok m" "slot_take lim k m = (True, m')"
  shows "counts_ok m' \<and> hm_count m k < unat lim \<and> hm_count m' = (hm_count m)(k := hm_count m k + 1)"
proof -
  define c where "c = (case map_of m k of None \<Rightarrow> 0 | Some c \<Rightarrow> c)"
  from assms(2) have lt: "c < lim" and m': "m' = AList.update k (c + 1) (hm_upsert k 0 id m)"
    by (auto simp: slot_take_def Let_def map_of_upsert c_def split: if_splits)
  have s: "unat (c + 1) = unat c + 1" using lt by (rule unat_inc_lt)
  then have "c + 1 \<noteq> 0" by (metis Suc_eq_plus1 nat.distinct(1) unat_0)
  then have "counts_ok m'" using assms(1) by (simp add: counts_ok_iff m' hm_simps)
  moreover have "hm_count m k = unat c" by (simp add: hm_count_def c_def split: option.splits)
  ultimately show ?thesis using lt s by (auto simp: m' hm_count_def hm_simps word_less_nat_alt)
qed

lemma slot_take_False:
  assumes "counts_ok m" "slot_take lim k m = (False, m')" "lim \<noteq> 0"
  shows "m' = m \<and> unat lim \<le> hm_count m k"
proof (cases "map_of m k")
  case None
  with assms show ?thesis
    by (auto simp: slot_take_def Let_def map_of_upsert split: if_splits)
next
  case (Some c)
  with assms have "c \<noteq> 0" "lim \<le> c" "m' = m"
    by (auto simp: slot_take_def Let_def map_of_upsert counts_ok_def hm_upsert_id_present
        split: if_splits dest: map_of_SomeD)
  with Some show ?thesis by (simp add: hm_count_def word_le_nat_alt)
qed

lemma slot_put_counts:
  assumes "counts_ok m"
  shows "counts_ok (slot_put k m)" "hm_count (slot_put k m) = (hm_count m)(k := hm_count m k - 1)"
proof -
  show "counts_ok (slot_put k m)"
    using assms by (auto simp: counts_ok_iff slot_put_def hm_simps split: option.splits)
  show "hm_count (slot_put k m) = (hm_count m)(k := hm_count m k - 1)"
  proof (cases "map_of m k")
    case None
    then show ?thesis by (auto simp: slot_put_def hm_count_def)
  next
    case (Some c)
    then have "unat (c - 1) = unat c - 1"
      using counts_ok_get [OF assms Some] by (simp add: unat_dec word_gt_0)
    moreover from this have "c - 1 = 0 \<longleftrightarrow> unat c - 1 = 0" by (metis unat_eq_zero)
    ultimately show ?thesis using Some by (auto simp: slot_put_def hm_count_def hm_simps)
  qed
qed

lemma slot_take_ok: "counts_ok m \<Longrightarrow> slot_take lim k m = (t, m') \<Longrightarrow> lim \<noteq> 0 \<Longrightarrow> counts_ok m'"
  by (cases t) (auto dest: slot_take_True slot_take_False)

lemma try_acquire_conn_eq:
  "try_acquire_conn p st ip =
     (if ap_max_connections_per_ip p = 0 then (Some \<lparr>cs_tracked = False, cs_key = ip_key ip\<rparr>, st)
      else let (taken, m) = slot_take (ap_max_connections_per_ip p) (ip_key ip) (conns_per_ip st)
        in (if taken then Some \<lparr>cs_tracked = True, cs_key = ip_key ip\<rparr> else None,
            st\<lparr>conns_per_ip := m\<rparr>))"
  by (simp add: try_acquire_conn_def slot_take_def Let_def)

lemma drop_conn_slot_eq:
  "drop_conn_slot x st =
     (if cs_tracked x then st\<lparr>conns_per_ip := slot_put (cs_key x) (conns_per_ip st)\<rparr> else st)"
  by (simp add: drop_conn_slot_def slot_put_def split: option.splits)

lemma try_acquire_registration_eq:
  "try_acquire_registration p st ip =
     (if ap_max_registrations_per_ip p = 0 then (Some \<lparr>rs_tracked = False, rs_key = ip_key ip\<rparr>, st)
      else let (taken, m) = slot_take (ap_max_registrations_per_ip p) (ip_key ip) (regs_per_ip st)
        in (if taken then Some \<lparr>rs_tracked = True, rs_key = ip_key ip\<rparr> else None,
            st\<lparr>regs_per_ip := m\<rparr>))"
  by (simp add: try_acquire_registration_def slot_take_def Let_def)

lemma drop_reg_slot_eq:
  "drop_reg_slot x st =
     (if rs_tracked x then st\<lparr>regs_per_ip := slot_put (rs_key x) (regs_per_ip st)\<rparr> else st)"
  by (simp add: drop_reg_slot_def slot_put_def split: option.splits)

interpretation cp: slot_pool "try_acquire_conn p" drop_conn_slot ip_key cs_key cs_tracked
  "\<lambda>st. hm_count (conns_per_ip st)" "\<lambda>st. counts_ok (conns_per_ip st)"
  "unat (ap_max_connections_per_ip p)" for p
  by unfold_locales
    (auto simp: try_acquire_conn_eq drop_conn_slot_eq unat_eq_zero slot_put_counts
      intro: slot_take_ok dest: slot_take_True slot_take_False split: prod.splits if_splits)

interpretation rp: slot_pool "try_acquire_registration p" drop_reg_slot ip_key rs_key rs_tracked
  "\<lambda>st. hm_count (regs_per_ip st)" "\<lambda>st. counts_ok (regs_per_ip st)"
  "unat (ap_max_registrations_per_ip p)" for p
  by unfold_locales
    (auto simp: try_acquire_registration_eq drop_reg_slot_eq unat_eq_zero slot_put_counts
      intro: slot_take_ok dest: slot_take_True slot_take_False split: prod.splits if_splits)

section \<open>Source keys\<close>

lemma ip_key_V6: "to_canonical ip = V6 a \<Longrightarrow> ip_key ip = V6 (push_bit 64 (drop_bit 64 a))"
  using from_octets_prefix [where 'a = 128 and n = 16 and m = 8 and w = a]
  by (simp add: ip_key_def)

lemma ip_key_V4': "to_canonical ip = V4 a \<Longrightarrow> ip_key ip = V4 a"
  by (simp add: ip_key_def)

lemma push_drop_eq_iff:
  "push_bit n (drop_bit n (a :: 'a::len word)) = push_bit n (drop_bit n b) \<longleftrightarrow> drop_bit n a = drop_bit n b"
proof
  assume eq: "push_bit n (drop_bit n a) = push_bit n (drop_bit n b)"
  have "bit a (n + k) = bit b (n + k)" for k
    using arg_cong [OF eq, of "\<lambda>w. bit w (n + k)"]
    by (auto simp: bit_push_bit_iff bit_drop_bit_eq dest: bit_imp_le_length)
  then show "drop_bit n a = drop_bit n b" by (auto intro: bit_word_eqI simp: bit_drop_bit_eq)
qed simp

text \<open>C20. Two sources share one budget exactly when, after unmapping IPv4-mapped addresses, they are
  the same IPv4 address or lie in the same IPv6 /64; an IPv4 and a genuine IPv6 source never
  share one.\<close>

theorem ip_key_eq_iff:
  "ip_key a = ip_key b \<longleftrightarrow>
     (case (to_canonical a, to_canonical b) of
        (V4 x, V4 y) \<Rightarrow> x = y
      | (V6 x, V6 y) \<Rightarrow> drop_bit 64 x = drop_bit 64 y
      | _ \<Rightarrow> False)"
  by (cases "to_canonical a"; cases "to_canonical b")
    (simp_all add: ip_key_V4' ip_key_V6 push_drop_eq_iff)

section \<open>The policy over a sequence of calls\<close>

text \<open>Every interleaving of calls on one policy, with the slots currently held.\<close>

inductive abuse_reach ::
  "abuse_policy \<Rightarrow> abuse_state \<Rightarrow> conn_slot list \<Rightarrow> reg_slot list \<Rightarrow> bool" for p where
  init: "abuse_reach p abuse_state_default [] []"
| conn_acquired: "abuse_reach p st cs rs \<Longrightarrow> try_acquire_conn p st ip = (Some x, st') \<Longrightarrow>
    abuse_reach p st' (x # cs) rs"
| conn_refused: "abuse_reach p st cs rs \<Longrightarrow> try_acquire_conn p st ip = (None, st') \<Longrightarrow>
    abuse_reach p st' cs rs"
| conn_dropped: "abuse_reach p st (xs @ x # ys) rs \<Longrightarrow>
    abuse_reach p (drop_conn_slot x st) (xs @ ys) rs"
| reg_acquired: "abuse_reach p st cs rs \<Longrightarrow> try_acquire_registration p st ip = (Some x, st') \<Longrightarrow>
    abuse_reach p st' cs (x # rs)"
| reg_refused: "abuse_reach p st cs rs \<Longrightarrow> try_acquire_registration p st ip = (None, st') \<Longrightarrow>
    abuse_reach p st' cs rs"
| reg_dropped: "abuse_reach p st cs (xs @ x # ys) \<Longrightarrow>
    abuse_reach p (drop_reg_slot x st) cs (xs @ ys)"
| rate_checked: "abuse_reach p st cs rs \<Longrightarrow> allow_registration p st ip now = (b, st') \<Longrightarrow>
    abuse_reach p st' cs rs"
| ban_checked: "abuse_reach p st cs rs \<Longrightarrow> is_banned p st ip now = (b, st') \<Longrightarrow>
    abuse_reach p st' cs rs"
| struck: "abuse_reach p st cs rs \<Longrightarrow> abuse_reach p (record_strike p st ip now) cs rs"

lemma conns_frame [simp]:
  "conns_per_ip (snd (try_acquire_registration p st ip)) = conns_per_ip st"
  "conns_per_ip (drop_reg_slot r st) = conns_per_ip st"
  "conns_per_ip (snd (allow_registration p st ip now)) = conns_per_ip st"
  "conns_per_ip (snd (is_banned p st ip now)) = conns_per_ip st"
  "conns_per_ip (record_strike p st ip now) = conns_per_ip st"
  by (simp_all add: try_acquire_registration_eq drop_reg_slot_eq allow_registration_def
      is_banned_def record_strike_def Let_def split: prod.splits option.splits)

lemma regs_frame [simp]:
  "regs_per_ip (snd (try_acquire_conn p st ip)) = regs_per_ip st"
  "regs_per_ip (drop_conn_slot c st) = regs_per_ip st"
  "regs_per_ip (snd (allow_registration p st ip now)) = regs_per_ip st"
  "regs_per_ip (snd (is_banned p st ip now)) = regs_per_ip st"
  "regs_per_ip (record_strike p st ip now) = regs_per_ip st"
  by (simp_all add: try_acquire_conn_eq drop_conn_slot_eq allow_registration_def
      is_banned_def record_strike_def Let_def split: prod.splits option.splits)

lemma cp_frame: "cp.accounted p st cs \<Longrightarrow> conns_per_ip st' = conns_per_ip st \<Longrightarrow> cp.accounted p st' cs"
  by (simp add: cp.accounted_def)

lemma rp_frame: "rp.accounted p st rs \<Longrightarrow> regs_per_ip st' = regs_per_ip st \<Longrightarrow> rp.accounted p st' rs"
  by (simp add: rp.accounted_def)

lemma abuse_reach_accounted:
  "abuse_reach p st cs rs \<Longrightarrow> cp.accounted p st cs \<and> rp.accounted p st rs"
proof (induction rule: abuse_reach.induct)
  case init
  show ?case
    by (intro conjI cp.accounted_start rp.accounted_start)
      (simp_all add: abuse_state_default_def counts_ok_def hm_count_def fun_eq_iff)
next
  case (conn_acquired st cs rs ip x st')
  then show ?case
    using regs_frame(1) [of p st ip] by (auto intro: cp.accounted_acquire rp_frame)
next
  case (conn_refused st cs rs ip st')
  then show ?case
    using regs_frame(1) [of p st ip] by (auto intro: cp.accounted_refused rp_frame)
next
  case (conn_dropped st xs x ys rs)
  then show ?case by (auto intro: cp.accounted_release rp_frame)
next
  case (reg_acquired st cs rs ip x st')
  then show ?case
    using conns_frame(1) [of p st ip] by (auto intro: rp.accounted_acquire cp_frame)
next
  case (reg_refused st cs rs ip st')
  then show ?case
    using conns_frame(1) [of p st ip] by (auto intro: rp.accounted_refused cp_frame)
next
  case (reg_dropped st cs xs x ys)
  then show ?case by (auto intro: rp.accounted_release cp_frame)
next
  case (rate_checked st cs rs ip now b st')
  then show ?case
    using conns_frame(3) [of p st ip now] regs_frame(3) [of p st ip now]
    by (auto intro: cp_frame rp_frame)
next
  case (ban_checked st cs rs ip now b st')
  then show ?case
    using conns_frame(4) [of p st ip now] regs_frame(4) [of p st ip now]
    by (auto intro: cp_frame rp_frame)
next
  case (struck st cs rs ip now)
  then show ?case by (auto intro: cp_frame rp_frame)
qed

text \<open>The keys of a count map are keys of live slots, so the map is no larger than their number.\<close>

lemma counts_length_le:
  assumes "counts_ok m" "\<And>k. hm_count m k = length (filter (\<lambda>x. t x \<and> key x = k) xs)"
  shows "length m \<le> length xs"
proof -
  have "hm_keys m \<subseteq> key ` set xs"
  proof
    fix k assume "k \<in> hm_keys m"
    then obtain c where c: "map_of m k = Some c" by (metis map_of_None_key not_None_eq)
    then have "0 < hm_count m k"
      using counts_ok_get [OF assms(1) c] by (simp add: hm_count_def unat_gt_0)
    then have "filter (\<lambda>x. t x \<and> key x = k) xs \<noteq> []" using assms(2) by auto
    then show "k \<in> key ` set xs" by (auto simp: filter_empty_conv)
  qed
  then have "card (hm_keys m) \<le> card (key ` set xs)" by (simp add: card_mono)
  also have "\<dots> \<le> length xs" by (meson card_image_le card_length finite_set le_trans)
  finally show ?thesis using assms(1) by (simp add: counts_ok_def hm_wf_card)
qed

text \<open>C9. Whatever the interleaving of acquisitions, refusals, releases, rate checks, ban checks and
  strikes, the number of connections counted for a source is the number of live slots it holds,
  never above the cap, and the map holds no more entries than there are live slots; the same
  holds for registrations. Nothing is leaked and nothing is released twice.\<close>

theorem slots_exact:
  assumes "abuse_reach p st cs rs"
  shows "hm_count (conns_per_ip st) k = length (filter (\<lambda>x. cs_tracked x \<and> cs_key x = k) cs)
    \<and> hm_count (regs_per_ip st) k = length (filter (\<lambda>x. rs_tracked x \<and> rs_key x = k) rs)
    \<and> (ap_max_connections_per_ip p \<noteq> 0 \<longrightarrow>
         hm_count (conns_per_ip st) k \<le> unat (ap_max_connections_per_ip p))
    \<and> (ap_max_registrations_per_ip p \<noteq> 0 \<longrightarrow>
         hm_count (regs_per_ip st) k \<le> unat (ap_max_registrations_per_ip p))
    \<and> length (conns_per_ip st) \<le> length cs \<and> length (regs_per_ip st) \<le> length rs"
proof -
  note acc = abuse_reach_accounted [OF assms, unfolded cp.accounted_def rp.accounted_def
      cp.live_count_def rp.live_count_def]
  then have "length (conns_per_ip st) \<le> length cs" "length (regs_per_ip st) \<le> length rs"
    by (blast intro: counts_length_le)+
  with acc show ?thesis by (simp add: unat_eq_zero)
qed

text \<open>Two connections of one source under a cap of two, then a refused third.\<close>

definition demo_policy :: abuse_policy where
  "demo_policy = \<lparr>ap_max_connections_per_ip = 2, ap_registrations_per_ip_per_sec = 2,
     ap_max_registrations_per_ip = 1, ap_ban_threshold = 2, ap_ban_duration_ms = 5000,
     ap_ban_strike_window_ms = 1000\<rparr>"

definition demo_slot :: conn_slot where
  "demo_slot = \<lparr>cs_tracked = True, cs_key = V4 7\<rparr>"

lemma ip_key_V4 [simp]: "ip_key (V4 a) = V4 a"
  by (simp add: ip_key_def)

lemma demo_reach:
  "abuse_reach demo_policy (abuse_state_default\<lparr>conns_per_ip := [(V4 7, 2)]\<rparr>) [demo_slot, demo_slot] []"
proof -
  have "abuse_reach demo_policy (abuse_state_default\<lparr>conns_per_ip := [(V4 7, 1)]\<rparr>) [demo_slot] []"
    by (rule conn_acquired [OF init, of _ "V4 7"])
      (simp add: try_acquire_conn_def Let_def word_le_nat_alt demo_policy_def demo_slot_def hm_upsert_def
        abuse_state_default_def)
  then show ?thesis
    by (rule conn_acquired [of _ _ _ _ "V4 7"])
      (simp add: try_acquire_conn_def Let_def word_le_nat_alt demo_policy_def demo_slot_def hm_upsert_def
        abuse_state_default_def)
qed

theorem slots_exact_witness:
  "hm_count (conns_per_ip (abuse_state_default\<lparr>conns_per_ip := [(V4 7, 2)]\<rparr>)) (V4 7) = 2"
  using slots_exact [OF demo_reach, of "V4 7"] by (simp add: demo_slot_def)

section \<open>The tracked maps stay bounded\<close>

definition abuse_bounded :: "abuse_state \<Rightarrow> bool" where
  "abuse_bounded st \<longleftrightarrow> hm_wf (reg_buckets st) \<and> length (reg_buckets st) \<le> MAX_TRACKED_IPS
     \<and> hm_wf (strikes st) \<and> length (strikes st) \<le> MAX_TRACKED_IPS
     \<and> hm_wf (bans st) \<and> length (bans st) \<le> MAX_TRACKED_IPS"

lemma evict_update_length:
  assumes "hm_wf m" "length m \<le> MAX_TRACKED_IPS"
  shows "length (AList.update k v (evict_min_by MAX_TRACKED_IPS f m k)) \<le> MAX_TRACKED_IPS"
proof (cases "k \<in> hm_keys m")
  case True
  then have "evict_min_by MAX_TRACKED_IPS f m k = m" by (simp add: evict_min_by_def)
  with True assms show ?thesis by (simp add: length_update)
next
  case False
  with assms evict_min_by_room [of m MAX_TRACKED_IPS k f] show ?thesis
    by (auto simp: length_update MAX_TRACKED_IPS_def)
qed

lemma length_delete_le: "hm_wf m \<Longrightarrow> length m \<le> n \<Longrightarrow> length (AList.delete k m) \<le> n"
  by (auto simp: length_delete)

lemma bounded_allow: "abuse_bounded st \<Longrightarrow> abuse_bounded (snd (allow_registration p st ip now))"
  by (auto simp: abuse_bounded_def allow_registration_def Let_def evict_lru_if_full_def
      evict_update_length split: prod.splits)

lemma bounded_is_banned: "abuse_bounded st \<Longrightarrow> abuse_bounded (snd (is_banned p st ip now))"
  by (auto simp: abuse_bounded_def is_banned_def Let_def length_delete_le split: option.splits)

lemma bounded_strike: "abuse_bounded st \<Longrightarrow> abuse_bounded (record_strike p st ip now)"
  by (auto simp: abuse_bounded_def record_strike_def Let_def evict_lru_strikes_def
      evict_soonest_ban_def evict_update_length length_delete_le)

lemma bounded_slots:
  "abuse_bounded (snd (try_acquire_conn p st ip)) = abuse_bounded st"
  "abuse_bounded (drop_conn_slot c st) = abuse_bounded st"
  "abuse_bounded (snd (try_acquire_registration p st ip)) = abuse_bounded st"
  "abuse_bounded (drop_reg_slot r st) = abuse_bounded st"
  by (simp_all add: abuse_bounded_def try_acquire_conn_eq drop_conn_slot_eq
      try_acquire_registration_eq drop_reg_slot_eq split: prod.splits)

text \<open>C21. However many distinct sources attack, the rate buckets, the strike records and the bans
  never exceed \<^verbatim>\<open>MAX_TRACKED_IPS\<close> entries each.\<close>

theorem abuse_maps_bounded:
  "abuse_reach p st cs rs \<Longrightarrow>
     length (reg_buckets st) \<le> MAX_TRACKED_IPS \<and> length (strikes st) \<le> MAX_TRACKED_IPS
     \<and> length (bans st) \<le> MAX_TRACKED_IPS"
proof -
  assume "abuse_reach p st cs rs"
  then have "abuse_bounded st"
  proof (induction rule: abuse_reach.induct)
    case init
    show ?case by (simp add: abuse_bounded_def abuse_state_default_def)
  qed (metis bounded_slots bounded_allow bounded_is_banned bounded_strike snd_conv)+
  then show ?thesis by (simp add: abuse_bounded_def)
qed

theorem abuse_maps_bounded_witness:
  "length (bans (record_strike demo_policy (abuse_state_default\<lparr>conns_per_ip := [(V4 7, 2)]\<rparr>) (V4 9) 5))
     \<le> MAX_TRACKED_IPS"
  using abuse_maps_bounded [OF struck [OF demo_reach, of "V4 9" 5]] by simp

end
