(* ===== verification/Limits_Rates.thy ===== *)
theory Limits_Rates
  imports Abuse_Limits
begin

text \<open>
  What the abuse limits of \<open>Abuse_Limits\<close> guarantee over sequences of calls in clock order: the
  registration rate of a source is exactly its budget per second, a source is banned exactly on
  clustered strikes and for exactly the ban duration, and a connection is disconnected exactly
  when one of its three budgets is exhausted.
\<close>

section \<open>Registration rate\<close>

fun reg_run :: "abuse_policy \<Rightarrow> abuse_state \<Rightarrow> (ip_addr \<times> u64) list \<Rightarrow> abuse_state" where
  "reg_run p st [] = st"
| "reg_run p st ((ip, now) # evs) = reg_run p (snd (allow_registration p st ip now)) evs"

text \<open>How many calls of a source were allowed in one second.\<close>

fun reg_allowed ::
  "abuse_policy \<Rightarrow> abuse_state \<Rightarrow> (ip_addr \<times> u64) list \<Rightarrow> ip_key_t \<Rightarrow> u64 \<Rightarrow> nat" where
  "reg_allowed p st [] k w = 0"
| "reg_allowed p st ((ip, now) # evs) k w =
     (if fst (allow_registration p st ip now) \<and> ip_key ip = k \<and> now div 1000 = w then 1 else 0)
     + reg_allowed p (snd (allow_registration p st ip now)) evs k w"

lemma reg_run_snoc: "reg_run p st (evs @ [(ip, now)]) = snd (allow_registration p (reg_run p st evs) ip now)"
  by (induction p st evs rule: reg_run.induct) simp_all

lemma reg_allowed_snoc: "reg_allowed p st (evs @ [(ip, now)]) k w = reg_allowed p st evs k w
    + (if fst (allow_registration p (reg_run p st evs) ip now) \<and> ip_key ip = k \<and> now div 1000 = w
       then 1 else 0)"
  by (induction p st evs rule: reg_run.induct) simp_all

definition keys_of :: "(ip_addr \<times> u64) list \<Rightarrow> ip_key_t set" where
  "keys_of evs = (\<lambda>(ip, _). ip_key ip) ` set evs"

definition times_of :: "ip_key_t \<Rightarrow> (ip_addr \<times> u64) list \<Rightarrow> u64 list" where
  "times_of k evs = map snd (filter (\<lambda>(ip, _). ip_key ip = k) evs)"

lemma times_of_snoc:
  "times_of k (evs @ [(ip, now)]) = times_of k evs @ (if ip_key ip = k then [now] else [])"
  by (simp add: times_of_def)

lemma times_of_Nil: "times_of k evs = [] \<longleftrightarrow> k \<notin> keys_of evs"
  by (auto simp: times_of_def keys_of_def filter_empty_conv)

text \<open>While no bucket has to be evicted, each source's bucket is the one its own calls produce.\<close>

lemma reg_run_inv:
  assumes rate: "ap_registrations_per_ip_per_sec p = r" "r \<noteq> 0"
    and few: "card (keys_of evs) \<le> MAX_TRACKED_IPS"
  shows "hm_wf (reg_buckets (reg_run p abuse_state_default evs))
    \<and> hm_keys (reg_buckets (reg_run p abuse_state_default evs)) = keys_of evs
    \<and> (\<forall>k. times_of k evs \<noteq> [] \<longrightarrow>
         map_of (reg_buckets (reg_run p abuse_state_default evs)) k =
           Some (tb.final r (token_bucket_new r (hd (times_of k evs))) (times_of k evs)))
    \<and> (\<forall>k w. reg_allowed p abuse_state_default evs k w =
         tb.granted r w (token_bucket_new r (hd (times_of k evs))) (times_of k evs))"
  using few
proof (induction evs rule: rev_induct)
  case Nil
  then show ?case by (simp add: times_of_def keys_of_def abuse_state_default_def)
next
  case (snoc ev evs)
  obtain ip now where ev: "ev = (ip, now)" by force
  let ?K = "keys_of evs" and ?st = "reg_run p abuse_state_default evs"
  let ?m = "reg_buckets ?st" and ?k = "ip_key ip"
  have fin: "finite ?K" by (simp add: keys_of_def)
  have K': "keys_of (evs @ [ev]) = insert ?k ?K" by (simp add: ev keys_of_def)
  then have le: "card ?K \<le> MAX_TRACKED_IPS"
    using snoc.prems card_insert_le [of ?K ?k] by simp
  note IH = snoc.IH [OF le]
  have room: "?k \<notin> hm_keys ?m \<Longrightarrow> length ?m < MAX_TRACKED_IPS"
    using IH snoc.prems K' fin by (simp add: hm_wf_card)
  then have noev: "evict_lru_if_full ?m ?k = ?m"
    by (auto simp: evict_lru_if_full_def evict_min_by_def)
  define b where "b = (case map_of ?m ?k of None \<Rightarrow> token_bucket_new r now | Some b \<Rightarrow> b)"
  have al: "allow_registration p ?st ip now =
      (fst (token_try_spend b r now),
       ?st\<lparr>reg_buckets := AList.update ?k (snd (token_try_spend b r now)) ?m\<rparr>)"
    using rate by (simp add: allow_registration_def noev b_def Let_def split: prod.splits)
  have b: "b = tb.final r (token_bucket_new r (hd (times_of ?k (evs @ [ev])))) (times_of ?k evs)"
  proof (cases "times_of ?k evs = []")
    case True
    then have "map_of ?m ?k = None" using IH by (simp add: times_of_Nil map_of_None_key)
    with True show ?thesis by (simp add: b_def times_of_snoc ev)
  next
    case False
    with IH show ?thesis by (simp add: b_def times_of_snoc ev hd_append)
  qed
  have hd: "times_of k evs \<noteq> [] \<Longrightarrow> hd (times_of k (evs @ [ev])) = hd (times_of k evs)" for k
    by (simp add: times_of_snoc ev)
  have final: "map_of (reg_buckets (reg_run p abuse_state_default (evs @ [ev]))) k =
      Some (tb.final r (token_bucket_new r (hd (times_of k (evs @ [ev])))) (times_of k (evs @ [ev])))"
    if "times_of k (evs @ [ev]) \<noteq> []" for k
  proof (cases "k = ?k")
    case True
    then show ?thesis
      by (simp add: ev reg_run_snoc al hm_simps times_of_snoc tb.final_snoc b)
  next
    case False
    with that IH show ?thesis by (simp add: ev reg_run_snoc al hm_simps times_of_snoc)
  qed
  have gr: "reg_allowed p abuse_state_default (evs @ [ev]) k w =
      tb.granted r w (token_bucket_new r (hd (times_of k (evs @ [ev])))) (times_of k (evs @ [ev]))" for k w
  proof (cases "k = ?k")
    case True
    have "reg_allowed p abuse_state_default evs k w =
        tb.granted r w (token_bucket_new r (hd (times_of k (evs @ [ev])))) (times_of k evs)"
      using IH hd [of k] by (cases "times_of k evs = []") auto
    with True show ?thesis
      by (simp add: ev reg_allowed_snoc al times_of_snoc tb.granted_snoc b)
  next
    case False
    with IH show ?thesis by (simp add: ev reg_allowed_snoc times_of_snoc)
  qed
  show ?case using IH final gr K' by (auto simp: ev reg_run_snoc al hm_simps)
qed

lemma word_div_mono: "(a :: 'a::len word) \<le> b \<Longrightarrow> a div c \<le> b div c"
  by (simp add: word_le_nat_alt unat_div div_le_mono)

lemma sorted_map_div: "sorted ts \<Longrightarrow> sorted (map (\<lambda>t. (t :: 'a::len word) div n) ts)"
  by (auto simp: sorted_map intro: word_div_mono elim: sorted_wrt_mono_rel [rotated])

lemma times_of_sorted:
  "sorted (map snd evs) \<Longrightarrow> sorted (map (\<lambda>t. t div 1000) (times_of k evs))"
  unfolding times_of_def by (intro sorted_map_div sorted_filter)

text \<open>C10. Over any sequence of registrations from at most \<^verbatim>\<open>MAX_TRACKED_IPS\<close> sources, with a clock
  that does not go back, a registration is within the rate limit exactly when fewer than
  \<^verbatim>\<open>registrations_per_ip_per_sec\<close> registrations of the same source were allowed in the same
  second; sources do not affect each other.\<close>

theorem allow_registration_exact:
  assumes rate: "ap_registrations_per_ip_per_sec p \<noteq> 0"
    and mono: "sorted (map snd (evs @ [(ip, now)]))"
    and few: "card (keys_of (evs @ [(ip, now)])) \<le> MAX_TRACKED_IPS"
  shows "fst (allow_registration p (reg_run p abuse_state_default evs) ip now) \<longleftrightarrow>
    reg_allowed p abuse_state_default evs (ip_key ip) (now div 1000)
      < unat (ap_registrations_per_ip_per_sec p)"
proof -
  define r where "r = ap_registrations_per_ip_per_sec p"
  define ts where "ts = times_of (ip_key ip) (evs @ [(ip, now)])"
  define b where "b = token_bucket_new r (hd ts)"
  have ts: "ts = times_of (ip_key ip) evs @ [now]" by (simp add: ts_def times_of_snoc)
  have srt: "sorted (map (\<lambda>t. t div 1000) ts)" unfolding ts_def by (rule times_of_sorted [OF mono])
  then have lo: "\<forall>t \<in> set ts. tb_window b \<le> t div 1000"
    by (cases ts) (auto simp: b_def token_bucket_new_def)
  have full: "unat (tokens b) = unat r" by (simp add: b_def token_bucket_new_def)
  have last: "reg_allowed p abuse_state_default (evs @ [(ip, now)]) (ip_key ip) w =
      tb.granted r w b ts" for w
    using reg_run_inv [OF r_def [symmetric] _ few] rate by (simp add: b_def ts_def r_def)
  have "keys_of evs \<subseteq> keys_of (evs @ [(ip, now)])" by (auto simp: keys_of_def)
  then have few': "card (keys_of evs) \<le> MAX_TRACKED_IPS"
    using few card_mono [of "keys_of (evs @ [(ip, now)])" "keys_of evs"]
    by (force simp: keys_of_def)
  note inv = reg_run_inv [OF r_def [symmetric] _ few', folded r_def]
  have prev: "reg_allowed p abuse_state_default evs (ip_key ip) w = tb.granted r w b (times_of (ip_key ip) evs)" for w
    using inv rate by (cases "times_of (ip_key ip) evs") (auto simp: b_def ts r_def)
  let ?w = "now div 1000" and ?f = "tb.final r b (times_of (ip_key ip) evs)"
  let ?ok = "fst (allow_registration p (reg_run p abuse_state_default evs) ip now)"
  have "(if ?ok then 1 else 0 :: nat) = (if fst (token_try_spend ?f r now) then 1 else 0)"
    using last [of ?w] unfolding reg_allowed_snoc ts tb.granted_snoc prev by simp
  then have "?ok \<longleftrightarrow> fst (token_try_spend ?f r now)" by (simp split: if_splits)
  also have "\<dots> \<longleftrightarrow> tb.granted r ?w b (times_of (ip_key ip) evs) + Suc 0 \<le> unat r"
    using tb.spend_exact [of "times_of (ip_key ip) evs" now b r] srt lo full by (simp add: ts)
  finally show ?thesis by (simp add: prev r_def Suc_le_eq)
qed

theorem allow_registration_exact_witness:
  "\<not> fst (allow_registration demo_policy
      (reg_run demo_policy abuse_state_default [(V4 7, 1000), (V4 9, 1001), (V4 7, 1002)]) (V4 7) 1003)"
proof -
  have "card (keys_of [(V4 7, 1000), (V4 9, 1001), (V4 7, 1002), (V4 7, 1003)]) \<le> MAX_TRACKED_IPS"
    by (simp add: keys_of_def MAX_TRACKED_IPS_def card_insert_if)
  moreover have "reg_allowed demo_policy abuse_state_default [(V4 7, 1000), (V4 9, 1001), (V4 7, 1002)]
      (V4 7) 1 = 2"
    by (simp add: demo_policy_def allow_registration_def token_try_spend_def token_bucket_new_def
        abuse_state_default_def evict_lru_if_full_def evict_min_by_def MAX_TRACKED_IPS_def Let_def)
  ultimately show ?thesis
    using allow_registration_exact [of demo_policy "[(V4 7, 1000), (V4 9, 1001), (V4 7, 1002)]" "V4 7" 1003]
    by (simp add: demo_policy_def)
qed

section \<open>Bans\<close>

fun strike_run :: "abuse_policy \<Rightarrow> abuse_state \<Rightarrow> (ip_addr \<times> u64) list \<Rightarrow> abuse_state" where
  "strike_run p st [] = st"
| "strike_run p st ((ip, now) # evs) = strike_run p (record_strike p st ip now) evs"

lemma strike_run_snoc: "strike_run p st (evs @ [(ip, now)]) = record_strike p (strike_run p st evs) ip now"
  by (induction p st evs rule: strike_run.induct) simp_all

text \<open>The strikes of a source inside the window that opens at \<open>start\<close>.\<close>

definition clustered :: "u64 \<Rightarrow> ip_key_t \<Rightarrow> (ip_addr \<times> u64) list \<Rightarrow> u64 \<Rightarrow> nat" where
  "clustered window_ms k evs start =
     length (filter (\<lambda>(ip, t). ip_key ip = k \<and> start \<le> t \<and> unat t \<le> unat start + unat window_ms) evs)"

lemma clustered_snoc: "clustered w k (evs @ [(ip, t)]) s = clustered w k evs s
    + (if ip_key ip = k \<and> s \<le> t \<and> unat t \<le> unat s + unat w then 1 else 0)"
  by (simp add: clustered_def)

definition strike_ok :: "abuse_policy \<Rightarrow> (ip_addr \<times> u64) list \<Rightarrow> ip_key_t \<Rightarrow> strike_record \<Rightarrow> bool" where
  "strike_ok p evs k r \<longleftrightarrow> window_start_ms r \<in> snd ` set evs
     \<and> unat (strike_count r) \<le> clustered (ap_ban_strike_window_ms p) k evs (window_start_ms r)"

definition ban_ok :: "abuse_policy \<Rightarrow> (ip_addr \<times> u64) list \<Rightarrow> ip_key_t \<Rightarrow> u64 \<Rightarrow> bool" where
  "ban_ok p evs k u \<longleftrightarrow>
     (\<exists>ip t. (ip, t) \<in> set evs \<and> ip_key ip = k \<and> u = sat_add t (ap_ban_duration_ms p))
     \<and> (\<exists>s. unat (ap_ban_threshold p) \<le> clustered (ap_ban_strike_window_ms p) k evs s)"

definition strikes_inv :: "abuse_policy \<Rightarrow> (ip_addr \<times> u64) list \<Rightarrow> abuse_state \<Rightarrow> bool" where
  "strikes_inv p evs st \<longleftrightarrow>
     (\<forall>k r. map_of (strikes st) k = Some r \<longrightarrow> strike_ok p evs k r)
     \<and> (\<forall>k u. map_of (bans st) k = Some u \<longrightarrow> ban_ok p evs k u)"

lemma strike_step_clustered:
  assumes "window_start_ms r \<le> t" "ip_key ip = k"
    and "unat (strike_count r) \<le> clustered w k evs (window_start_ms r)"
  shows "unat (strike_count (strike_step w t r)) \<le>
    clustered w k (evs @ [(ip, t)]) (window_start_ms (strike_step w t r))"
proof (cases "w < sat_sub t (window_start_ms r)")
  case True
  then show ?thesis using assms(2)
    by (simp add: strike_step_def clustered_snoc unat_sat_add)
next
  case False
  then have "unat t \<le> unat (window_start_ms r) + unat w"
    using assms(1) by (simp add: word_less_nat_alt unat_sat_sub)
  moreover have "unat (sat_add (strike_count r) 1) \<le> unat (strike_count r) + 1"
    by (simp add: unat_sat_add)
  ultimately show ?thesis using False assms
    by (simp add: strike_step_def clustered_snoc)
qed

lemma clustered_mono: "clustered w k evs s \<le> clustered w k (evs @ [(ip, t)]) s"
  by (simp add: clustered_snoc)

lemma strike_step_start: "window_start_ms (strike_step w t r) \<in> {t, window_start_ms r}"
  by (simp add: strike_step_def)

lemma strike_ok_weaken: "strike_ok p evs k r \<Longrightarrow> strike_ok p (evs @ [(ip, t)]) k r"
  unfolding strike_ok_def set_append image_Un using le_trans [OF _ clustered_mono] by blast

lemma ban_ok_weaken: "ban_ok p evs k u \<Longrightarrow> ban_ok p (evs @ [(ip, t)]) k u"
  unfolding ban_ok_def set_append using le_trans [OF _ clustered_mono] by blast

text \<open>The record a strike produces, from an entry of the map or from a fresh one.\<close>

lemma strike_ok_step:
  assumes "\<forall>t' \<in> snd ` set evs. t' \<le> t" "ip_key ip = k"
    and "strike_ok p evs k r \<or> r = \<lparr>strike_count = 0, window_start_ms = t, sr_last_seen_ms = t\<rparr>"
  shows "strike_ok p (evs @ [(ip, t)]) k (strike_step (ap_ban_strike_window_ms p) t r)"
proof -
  have start: "window_start_ms r \<in> insert t (snd ` set evs)"
    and cnt: "unat (strike_count r) \<le> clustered (ap_ban_strike_window_ms p) k evs (window_start_ms r)"
    using assms(3) by (auto simp: strike_ok_def)
  then have "window_start_ms r \<le> t" using assms(1) by auto
  then have "unat (strike_count (strike_step (ap_ban_strike_window_ms p) t r)) \<le>
      clustered (ap_ban_strike_window_ms p) k (evs @ [(ip, t)])
        (window_start_ms (strike_step (ap_ban_strike_window_ms p) t r))"
    using assms(2) cnt by (rule strike_step_clustered)
  moreover have "window_start_ms (strike_step (ap_ban_strike_window_ms p) t r) \<in> insert t (snd ` set evs)"
    using strike_step_start [of "ap_ban_strike_window_ms p" t r] start by (metis insert_iff singletonD)
  ultimately show ?thesis by (simp add: strike_ok_def)
qed

lemma strikes_inv_step:
  assumes inv: "strikes_inv p evs st" and later: "\<forall>t' \<in> snd ` set evs. t' \<le> t"
  shows "strikes_inv p (evs @ [(ip, t)]) (record_strike p st ip t)"
proof (cases "ap_ban_threshold p = 0")
  case True
  then show ?thesis using inv
    by (simp add: record_strike_def strikes_inv_def strike_ok_weaken ban_ok_weaken)
next
  case False
  define k m where "k = ip_key ip" and "m = evict_lru_strikes (strikes st) k"
  define r' where "r' = strike_step (ap_ban_strike_window_ms p) t (case map_of m k of
      None \<Rightarrow> \<lparr>strike_count = 0, window_start_ms = t, sr_last_seen_ms = t\<rparr> | Some r \<Rightarrow> r)"
  have eq: "record_strike p st ip t =
      (if strike_count r' \<ge> ap_ban_threshold p
       then st\<lparr>strikes := AList.delete k (AList.update k r' m),
               bans := AList.update k (sat_add t (ap_ban_duration_ms p)) (evict_soonest_ban (bans st) k)\<rparr>
       else st\<lparr>strikes := AList.update k r' m\<rparr>)"
    using False by (simp add: record_strike_def Let_def k_def m_def r'_def)
  have m: "map_of m j = Some x \<Longrightarrow> strike_ok p evs j x" for j x
    using inv evict_min_by_sub unfolding m_def evict_lru_strikes_def strikes_inv_def by fast
  have b: "map_of (evict_soonest_ban (bans st) k) j = Some u \<Longrightarrow> ban_ok p evs j u" for j u
    using inv evict_min_by_sub unfolding evict_soonest_ban_def strikes_inv_def by fast
  have new: "strike_ok p (evs @ [(ip, t)]) k r'"
    unfolding r'_def using m
    by (intro strike_ok_step [OF later k_def [symmetric]]) (auto split: option.splits)
  have ban: "ban_ok p (evs @ [(ip, t)]) k (sat_add t (ap_ban_duration_ms p))"
    if "ap_ban_threshold p \<le> strike_count r'"
    using new that unfolding ban_ok_def strike_ok_def word_le_nat_alt k_def
    by (auto intro: le_trans)
  show ?thesis
    unfolding eq strikes_inv_def
    using new ban strike_ok_weaken [OF m, of _ _ ip t] ban_ok_weaken [OF b, of _ _ ip t]
      ban_ok_weaken [of p evs _ _ ip t] inv
    by (auto simp: hm_simps strikes_inv_def split: if_splits)
qed

lemma strikes_inv_run:
  "sorted (map snd evs) \<Longrightarrow> strikes_inv p evs (strike_run p abuse_state_default evs)"
proof (induction evs rule: rev_induct)
  case Nil
  then show ?case by (simp add: strikes_inv_def abuse_state_default_def)
next
  case (snoc ev evs)
  obtain ip t where ev: "ev = (ip, t)" by force
  show ?case unfolding ev strike_run_snoc
    by (rule strikes_inv_step) (use snoc in \<open>auto simp: ev sorted_append\<close>)
qed

text \<open>C11. No source is banned without cause: a source reported as banned after any history of strikes
  (in clock order) has at least \<^verbatim>\<open>ban_threshold\<close> strikes of its own within one strike
  window, and one of its strikes is less than the ban duration ago.\<close>

theorem is_banned_sound:
  assumes mono: "sorted (map snd evs)"
    and banned: "fst (is_banned p (strike_run p abuse_state_default evs) ip now)"
  shows "ap_ban_threshold p \<noteq> 0
    \<and> (\<exists>start. unat (ap_ban_threshold p) \<le> clustered (ap_ban_strike_window_ms p) (ip_key ip) evs start)
    \<and> (\<exists>ip' t. (ip', t) \<in> set evs \<and> ip_key ip' = ip_key ip \<and> now < sat_add t (ap_ban_duration_ms p))"
proof -
  from banned obtain u where "map_of (bans (strike_run p abuse_state_default evs)) (ip_key ip) = Some u"
    "now < u" "ap_ban_threshold p \<noteq> 0"
    by (auto simp: is_banned_def Let_def split: if_splits option.splits)
  with strikes_inv_run [OF mono, of p] show ?thesis
    unfolding strikes_inv_def ban_ok_def by blast
qed

lemma demo_strikes:
  "strike_run demo_policy abuse_state_default [(V4 7, 10), (V4 7, 20)] =
     abuse_state_default\<lparr>bans := [(V4 7, 5020)]\<rparr>"
  by (simp add: record_strike_def strike_step_def demo_policy_def abuse_state_default_def
      evict_lru_strikes_def evict_soonest_ban_def evict_min_by_def MAX_TRACKED_IPS_def Let_def
      sat_sub_def sat_add_def word_le_nat_alt word_less_nat_alt)

theorem is_banned_sound_witness:
  "\<exists>start. 2 \<le> clustered 1000 (V4 7) [(V4 7, 10), (V4 7, 20)] start"
  using is_banned_sound [of "[(V4 7, 10), (V4 7, 20)]" demo_policy "V4 7" 5000]
  unfolding demo_strikes by (simp add: is_banned_def demo_policy_def Let_def)

text \<open>Strikes of one source, none of which is more than a window after the record's start.\<close>

lemma strike_build_up:
  assumes "map_of (strikes st) (ip_key ip) = Some r" "ts \<noteq> []" "ap_ban_threshold p \<noteq> 0"
    and "unat (strike_count r) + length ts = unat (ap_ban_threshold p)"
    and "\<forall>t \<in> set ts. sat_sub t (window_start_ms r) \<le> ap_ban_strike_window_ms p"
  shows "map_of (bans (strike_run p st (map (Pair ip) ts))) (ip_key ip) =
    Some (sat_add (last ts) (ap_ban_duration_ms p))"
  using assms
proof (induction ts arbitrary: st r)
  case Nil
  then show ?case by simp
next
  case (Cons t ts)
  define r' where "r' = r\<lparr>strike_count := sat_add (strike_count r) 1, sr_last_seen_ms := t\<rparr>"
  have step: "strike_step (ap_ban_strike_window_ms p) t r = r'"
    using Cons.prems(5) by (auto simp: strike_step_def r'_def dest: leD)
  have "unat (strike_count r) + 1 \<le> unat (ap_ban_threshold p)" using Cons.prems(4) by simp
  then have c: "unat (strike_count r') = unat (strike_count r) + 1"
    using unat_lt2p [of "ap_ban_threshold p"] by (simp add: r'_def unat_sat_add)
  have key: "map_of (evict_lru_strikes (strikes st) (ip_key ip)) (ip_key ip) = Some r"
    using Cons.prems(1) by (simp add: evict_lru_strikes_def evict_min_by_self)
  show ?case
  proof (cases "ts = []")
    case True
    then show ?thesis using Cons.prems c
      by (simp add: record_strike_def Let_def key step word_le_nat_alt hm_simps)
  next
    case False
    then have "unat (strike_count r') < unat (ap_ban_threshold p)"
      using Cons.prems(4) c by (cases ts) auto
    then have "map_of (strikes (record_strike p st ip t)) (ip_key ip) = Some r'"
      using Cons.prems(3) by (simp add: record_strike_def Let_def key step word_le_nat_alt hm_simps)
    from Cons.IH [OF this False Cons.prems(3)] False Cons.prems(4,5) c show ?thesis
      by (simp add: r'_def)
  qed
qed



section \<open>The per-connection limiter\<close>

text \<open>Frames of a connection as lengths and arrival times; \<open>None\<close> once it is disconnected.\<close>

fun admit_run :: "per_conn_limiter \<Rightarrow> (nat \<times> u64) list \<Rightarrow> per_conn_limiter option" where
  "admit_run l [] = Some l"
| "admit_run l ((len, now) # fs) =
     (case admit l len now of (AdmitOk, l') \<Rightarrow> admit_run l' fs | (Disconnect, _) \<Rightarrow> None)"

lemma admit_run_snoc: "admit_run l (fs @ [(len, now)]) =
    (case admit_run l fs of None \<Rightarrow> None
     | Some l' \<Rightarrow> (case admit l' len now of (AdmitOk, l'') \<Rightarrow> Some l'' | (Disconnect, _) \<Rightarrow> None))"
  by (induction l fs rule: admit_run.induct) (auto split: prod.splits admit_verdict.splits)

definition frames_in :: "u64 \<Rightarrow> (nat \<times> u64) list \<Rightarrow> nat" where
  "frames_in w fs = length (filter (\<lambda>(_, t). t div 1000 = w) fs)"

definition bytes_in :: "u64 \<Rightarrow> (nat \<times> u64) list \<Rightarrow> nat" where
  "bytes_in w fs = sum_list (map fst (filter (\<lambda>(_, t). t div 1000 = w) fs))"

text \<open>The three budgets of a configuration over a sequence of frames; zero disables one.\<close>

definition within_budgets :: "relay_server_config \<Rightarrow> (nat \<times> u64) list \<Rightarrow> bool" where
  "within_budgets c fs \<longleftrightarrow>
     (messages_per_conn_per_sec c = 0 \<or> (\<forall>w. frames_in w fs \<le> unat (messages_per_conn_per_sec c)))
     \<and> (bytes_per_conn_per_sec c = 0 \<or> (\<forall>w. bytes_in w fs \<le> unat (bytes_per_conn_per_sec c)))
     \<and> (max_relayed_bytes_per_conn c = 0
        \<or> sum_list (map fst fs) \<le> unat (max_relayed_bytes_per_conn c))"

lemma within_budgets_snoc:
  "within_budgets c (fs @ [(len, t)]) \<longleftrightarrow> within_budgets c fs
     \<and> (messages_per_conn_per_sec c = 0
        \<or> frames_in (t div 1000) fs + 1 \<le> unat (messages_per_conn_per_sec c))
     \<and> (bytes_per_conn_per_sec c = 0
        \<or> bytes_in (t div 1000) fs + len \<le> unat (bytes_per_conn_per_sec c))
     \<and> (max_relayed_bytes_per_conn c = 0
        \<or> sum_list (map fst fs) + len \<le> unat (max_relayed_bytes_per_conn c))"
proof -
  have f: "frames_in w (fs @ [(len, t)]) = frames_in w fs + (if t div 1000 = w then 1 else 0)" for w
    by (simp add: frames_in_def)
  have b: "bytes_in w (fs @ [(len, t)]) = bytes_in w fs + (if t div 1000 = w then len else 0)" for w
    by (simp add: bytes_in_def)
  have gen: "(\<forall>w. g w + (if t div 1000 = w then d else 0) \<le> n)
      \<longleftrightarrow> (\<forall>w. g w \<le> n) \<and> g (t div 1000) + d \<le> (n :: nat)" for g d n
    by (auto intro: le_trans [OF le_add1])
  show ?thesis unfolding within_budgets_def f b gen by auto
qed

text \<open>The limiter after a run of admitted frames.\<close>

definition limiter_inv ::
  "relay_server_config \<Rightarrow> u64 \<Rightarrow> (nat \<times> u64) list \<Rightarrow> per_conn_limiter \<Rightarrow> bool" where
  "limiter_inv c t0 fs l \<longleftrightarrow>
     (let M = messages_per_conn_per_sec c; B = ucast (bytes_per_conn_per_sec c) :: u64;
          es = map (\<lambda>(n, t). (of_nat n :: u64, t)) fs in
      msgs_per_sec l = M \<and> bytes_per_sec l = B \<and> max_relayed_bytes l = max_relayed_bytes_per_conn c
      \<and> unat (relayed_total l) = sum_list (map fst fs)
      \<and> (M \<noteq> 0 \<longrightarrow> msgs l = tb.final M (token_bucket_new M t0) (map snd fs)
           \<and> (\<forall>w. tb.granted M w (token_bucket_new M t0) (map snd fs) = frames_in w fs))
      \<and> (B \<noteq> 0 \<longrightarrow> bytes l = bb.final B (byte_bucket_new B t0) es
           \<and> (\<forall>w. bb.granted B w (byte_bucket_new B t0) es = bytes_in w fs)))"

lemma limiter_inv_start: "limiter_inv c t0 [] (per_conn_limiter_new c t0)"
  by (simp add: limiter_inv_def per_conn_limiter_new_def frames_in_def bytes_in_def Let_def)

lemma unat_ucast_up: "unat (ucast (x :: u32) :: u64) = unat x"
proof -
  have "unat x < 2 ^ 32" using unat_lt2p [of x] by simp
  then have "unat x < 2 ^ 64" by simp
  then show ?thesis by (simp add: unsigned_ucast_eq take_bit_eq_mod)
qed

lemma admit_eq:
  "fst (admit l len now) = AdmitOk \<longleftrightarrow>
     (msgs_per_sec l = 0 \<or> fst (token_try_spend (msgs l) (msgs_per_sec l) now))
     \<and> (bytes_per_sec l = 0 \<or> fst (byte_try_spend (bytes l) (bytes_per_sec l) (of_nat len) now))
     \<and> (max_relayed_bytes l = 0 \<or> \<not> max_relayed_bytes l < sat_add (relayed_total l) (of_nat len))"
  "fst (admit l len now) = AdmitOk \<Longrightarrow> snd (admit l len now) = l\<lparr>
     msgs := (if msgs_per_sec l = 0 then msgs l
              else snd (token_try_spend (msgs l) (msgs_per_sec l) now)),
     bytes := (if bytes_per_sec l = 0 then bytes l
               else snd (byte_try_spend (bytes l) (bytes_per_sec l) (of_nat len) now)),
     relayed_total := sat_add (relayed_total l) (of_nat len)\<rparr>"
proof -
  obtain tok_ok b1 where t: "token_try_spend (msgs l) (msgs_per_sec l) now = (tok_ok, b1)" by force
  obtain byte_ok b2 where
    b: "byte_try_spend (bytes l) (bytes_per_sec l) (of_nat len) now = (byte_ok, b2)" by force
  show "fst (admit l len now) = AdmitOk \<longleftrightarrow>
     (msgs_per_sec l = 0 \<or> fst (token_try_spend (msgs l) (msgs_per_sec l) now))
     \<and> (bytes_per_sec l = 0 \<or> fst (byte_try_spend (bytes l) (bytes_per_sec l) (of_nat len) now))
     \<and> (max_relayed_bytes l = 0 \<or> \<not> max_relayed_bytes l < sat_add (relayed_total l) (of_nat len))"
    unfolding t b
    by (cases "msgs_per_sec l = 0"; cases "bytes_per_sec l = 0"; cases tok_ok; cases byte_ok)
      (simp_all add: admit_def t b Let_def word_gt_0)
  show "snd (admit l len now) = l\<lparr>
     msgs := (if msgs_per_sec l = 0 then msgs l
              else snd (token_try_spend (msgs l) (msgs_per_sec l) now)),
     bytes := (if bytes_per_sec l = 0 then bytes l
               else snd (byte_try_spend (bytes l) (bytes_per_sec l) (of_nat len) now)),
     relayed_total := sat_add (relayed_total l) (of_nat len)\<rparr>"
    if "fst (admit l len now) = AdmitOk"
    using that unfolding t b
    by (cases "msgs_per_sec l = 0"; cases "bytes_per_sec l = 0"; cases tok_ok; cases byte_ok)
      (simp_all add: admit_def t b Let_def word_gt_0 split: if_splits)
qed

lemma limiter_inv_step:
  assumes inv: "limiter_inv c t0 fs l" and mono: "sorted (map snd (fs @ [(len, t)]))"
    and from_t0: "\<forall>t' \<in> set (map snd (fs @ [(len, t)])). t0 \<le> t'"
    and fit: "sum_list (map fst fs) + len < 2 ^ 64"
  shows "fst (admit l len t) = AdmitOk \<longleftrightarrow>
      (messages_per_conn_per_sec c = 0
        \<or> frames_in (t div 1000) fs + 1 \<le> unat (messages_per_conn_per_sec c))
      \<and> (bytes_per_conn_per_sec c = 0
        \<or> bytes_in (t div 1000) fs + len \<le> unat (bytes_per_conn_per_sec c))
      \<and> (max_relayed_bytes_per_conn c = 0
        \<or> sum_list (map fst fs) + len \<le> unat (max_relayed_bytes_per_conn c))" (is ?iff)
    and "fst (admit l len t) = AdmitOk \<Longrightarrow> limiter_inv c t0 (fs @ [(len, t)]) (snd (admit l len t))"
proof -
  define M where "M = messages_per_conn_per_sec c"
  define B where "B = (ucast (bytes_per_conn_per_sec c) :: u64)"
  define es where "es = map (\<lambda>(n, t). (of_nat n :: u64, t)) fs"
  note inv' = inv [unfolded limiter_inv_def Let_def, folded M_def B_def es_def]
  have uB: "unat B = unat (bytes_per_conn_per_sec c)" by (simp add: B_def unat_ucast_up)
  then have B0: "B = 0 \<longleftrightarrow> bytes_per_conn_per_sec c = 0" by (metis unat_eq_zero)
  have ul: "unat (of_nat len :: u64) = len" using fit by (simp add: unat_of_nat)
  have w: "sorted (map (\<lambda>t. t div 1000) (map snd (fs @ [(len, t)])))"
    using mono by (rule sorted_map_div)
  have lo: "\<forall>t' \<in> set (map snd (fs @ [(len, t)])). t0 div 1000 \<le> t' div 1000"
    using from_t0 by (auto intro: word_div_mono)
  have tok: "fst (token_try_spend (msgs l) M t) \<longleftrightarrow> frames_in (t div 1000) fs + 1 \<le> unat M" if "M \<noteq> 0"
    using tb.spend_exact [of "map snd fs" t "token_bucket_new M t0" M] that inv' w lo
    by (simp add: token_bucket_new_def)
  have se: "map (\<lambda>e. snd e div 1000) es = map (\<lambda>t. t div 1000) (map snd fs)"
    "\<forall>e \<in> set es. t0 div 1000 \<le> snd e div 1000"
    using lo by (auto simp: es_def)
  have byt: "fst (byte_try_spend (bytes l) B (of_nat len) t) \<longleftrightarrow> bytes_in (t div 1000) fs + len \<le> unat B"
    if "B \<noteq> 0"
    using bb.spend_exact [of es "(of_nat len, t)" "byte_bucket_new B t0" B] that inv' w lo se ul
    by (simp add: byte_bucket_new_def)
  have tot: "unat (sat_add (relayed_total l) (of_nat len)) = sum_list (map fst fs) + len"
    using inv' fit ul by (simp add: unat_sat_add)
  have fld: "msgs_per_sec l = M" "bytes_per_sec l = B"
    "max_relayed_bytes l = max_relayed_bytes_per_conn c"
    using inv' by blast+
  show ?iff
    unfolding admit_eq(1) fld M_def [symmetric] B0 [symmetric] uB [symmetric] word_less_nat_alt tot not_less
    using tok byt by blast
  assume ok: "fst (admit l len t) = AdmitOk"
  have f: "frames_in w (fs @ [(len, t)]) = frames_in w fs + (if t div 1000 = w then 1 else 0)"
    and b: "bytes_in w (fs @ [(len, t)]) = bytes_in w fs + (if t div 1000 = w then len else 0)" for w
    by (simp_all add: frames_in_def bytes_in_def)
  have "M \<noteq> 0 \<longrightarrow> fst (token_try_spend (msgs l) M t)"
    "B \<noteq> 0 \<longrightarrow> fst (byte_try_spend (bytes l) B (of_nat len) t)"
    using ok unfolding admit_eq(1) fld by blast+
  then show "limiter_inv c t0 (fs @ [(len, t)]) (snd (admit l len t))"
    unfolding limiter_inv_def Let_def M_def [symmetric] B_def [symmetric] admit_eq(2) [OF ok] f b
    using inv' tot ul
    by (simp add: es_def [symmetric] tb.final_snoc tb.granted_snoc bb.final_snoc bb.granted_snoc)
qed

text \<open>C13. A connection whose frames arrive in clock order stays open exactly as long as it is
  within its three budgets: frames per second, bytes per second and bytes over its lifetime (each
  of them only if enabled, and as long as the lifetime total fits in 64 bits).\<close>

theorem admit_run_exact:
  assumes "sorted (map snd fs)" "\<forall>t \<in> set (map snd fs). t0 \<le> t"
    and "sum_list (map fst fs) < 2 ^ 64"
  shows "admit_run (per_conn_limiter_new c t0) fs \<noteq> None \<longleftrightarrow> within_budgets c fs"
proof -
  have "(admit_run (per_conn_limiter_new c t0) fs \<noteq> None \<longleftrightarrow> within_budgets c fs)
    \<and> (\<forall>l. admit_run (per_conn_limiter_new c t0) fs = Some l \<longrightarrow> limiter_inv c t0 fs l)"
    using assms
  proof (induction fs rule: rev_induct)
    case Nil
    then show ?case
      by (simp add: limiter_inv_start within_budgets_def frames_in_def bytes_in_def)
  next
    case (snoc f fs)
    obtain len t where f: "f = (len, t)" by force
    have IH: "admit_run (per_conn_limiter_new c t0) fs \<noteq> None \<longleftrightarrow> within_budgets c fs"
      "\<And>l. admit_run (per_conn_limiter_new c t0) fs = Some l \<Longrightarrow> limiter_inv c t0 fs l"
      using snoc by (auto simp: sorted_append)
    show ?case
    proof (cases "admit_run (per_conn_limiter_new c t0) fs")
      case None
      with IH(1) show ?thesis by (simp add: f admit_run_snoc within_budgets_snoc)
    next
      case (Some l)
      note step = limiter_inv_step [OF IH(2) [OF Some], of len t]
      from step snoc.prems IH(1) Some show ?thesis
        by (cases "admit l len t") (auto simp: f admit_run_snoc within_budgets_snoc split: admit_verdict.splits)
    qed
  qed
  then show ?thesis by blast
qed

theorem admit_run_exact_witness:
  "admit_run (per_conn_limiter_new (default_config\<lparr>messages_per_conn_per_sec := 2\<rparr>) 0)
     [(10, 5), (20, 6), (30, 7)] = None"
proof -
  have "\<not> within_budgets (default_config\<lparr>messages_per_conn_per_sec := 2\<rparr>) [(10, 5), (20, 6), (30, 7)]"
    by (auto simp: within_budgets_def frames_in_def intro!: exI [of _ 0])
  then show ?thesis
    using admit_run_exact [of "[(10, 5), (20, 6), (30, 7)]" 0 "default_config\<lparr>messages_per_conn_per_sec := 2\<rparr>"]
    by simp
qed

end
