(* ===== verification/Wire.thy ===== *)
theory Wire
  imports Net_Addr
begin

text \<open>
  \<^verbatim>\<open>src/wire.rs\<close>: the relay's message type, the peer information it hands out and the
  \<^verbatim>\<open>type\<close> tags of the JSON encoding. The JSON text codec itself (serde) is a parameter of the
  server model. Shown here: the tags of the relay messages are pairwise distinct by kind and
  never take the \<^verbatim>\<open>pex_\<close> prefix, so the frame classifier of the server cannot confuse the two
  message families.
\<close>

record relay_peer_info =
  pi_peer_id :: string
  pi_network_id :: string
  pi_protocol_version :: u32
  pi_connected_at :: u64
  pi_last_seen :: u64
  pi_addresses :: "socket_addr list"

text \<open>The clock reading of \<^verbatim>\<open>unix_secs\<close> is an argument.\<close>

definition relay_peer_info_new :: "string \<Rightarrow> string \<Rightarrow> u32 \<Rightarrow> u64 \<Rightarrow> relay_peer_info" where
  "relay_peer_info_new peer_id network_id protocol_version now =
     \<lparr>pi_peer_id = peer_id, pi_network_id = network_id, pi_protocol_version = protocol_version,
      pi_connected_at = now, pi_last_seen = now, pi_addresses = []\<rparr>"

record dht_record_entry =
  re_content_key :: string
  re_providers :: nat

datatype relay_message =
    Register (reg_peer_id: string) (reg_network_id: string) (reg_protocol_version: u32)
      (reg_listen_addrs: "socket_addr list")
  | RegisterAck (ack_success: bool) (ack_message: string) (ack_connected_peers: nat)
  | Unregister string
  | RelayGossipMessage (rgm_from: string) (rgm_to: string) (rgm_payload: "u8 list") (rgm_seq: u64)
  | Broadcast (bc_from: string) (bc_payload: "u8 list") (bc_exclude: "string list")
  | PeerConnected relay_peer_info
  | PeerDisconnected string
  | GetPeers "string option"
  | Peers "relay_peer_info list"
  | Ping u64
  | Pong u64
  | HolePunchRequest string string socket_addr
  | HolePunchCoordinate string socket_addr
  | HolePunchResult string bool
  | ErrorMsg u32 string
  | GetDhtRecords nat
  | DhtRecords "dht_record_entry list" nat bool

text \<open>The \<^verbatim>\<open>#[serde(rename = ...)]\<close> discriminator of each variant.\<close>

fun msg_type :: "relay_message \<Rightarrow> string" where
  "msg_type (Register _ _ _ _) = ''register''"
| "msg_type (RegisterAck _ _ _) = ''register_ack''"
| "msg_type (Unregister _) = ''unregister''"
| "msg_type (RelayGossipMessage _ _ _ _) = ''relay_message''"
| "msg_type (Broadcast _ _ _) = ''broadcast''"
| "msg_type (PeerConnected _) = ''peer_connected''"
| "msg_type (PeerDisconnected _) = ''peer_disconnected''"
| "msg_type (GetPeers _) = ''get_peers''"
| "msg_type (Peers _) = ''peers''"
| "msg_type (Ping _) = ''ping''"
| "msg_type (Pong _) = ''pong''"
| "msg_type (HolePunchRequest _ _ _) = ''hole_punch_request''"
| "msg_type (HolePunchCoordinate _ _) = ''hole_punch_coordinate''"
| "msg_type (HolePunchResult _ _) = ''hole_punch_result''"
| "msg_type (ErrorMsg _ _) = ''error''"
| "msg_type (GetDhtRecords _) = ''get_dht_records''"
| "msg_type (DhtRecords _ _ _) = ''dht_records''"

text \<open>
  \<^verbatim>\<open>is_pex_frame\<close> of \<^verbatim>\<open>src/server.rs\<close>: \<open>peek\<close> stands for reading the \<^verbatim>\<open>type\<close> member of
  the frame's JSON object (\<open>None\<close> when the frame is not such an object).
\<close>

definition is_pex_frame :: "(u8 list \<Rightarrow> string option) \<Rightarrow> u8 list \<Rightarrow> bool" where
  "is_pex_frame peek frame =
     (case map_option (\<lambda>t. take 4 t = ''pex_'') (peek frame) of None \<Rightarrow> False | Some b \<Rightarrow> b)"

lemma msg_type_not_pex: "take 4 (msg_type m) \<noteq> ''pex_''"
  by (cases m) auto

lemma is_pex_frame_relay: "peek frame = Some (msg_type m) \<Longrightarrow> \<not> is_pex_frame peek frame"
  by (simp add: is_pex_frame_def msg_type_not_pex)

end
