(* ===== verification/Registry.thy ===== *)
theory Registry
  imports Wire
begin

text \<open>
  \<^verbatim>\<open>src/registry.rs\<close>: the peer registry. A record holds the identifier of the peer's outbound
  channel and of its activity cell; whether a channel's receiver is gone and what a cell holds are
  read through the functions \<open>closed\<close> and \<open>act\<close>, as \<^verbatim>\<open>is_closed\<close> and the atomic load read
  shared state. Shown here: the anti-hijack rule, the routing queries and the sweep's selection
  characterised exactly, and the registry as an instance of \<open>peer_table\<close>, the contract under
  which removing a list of peers keeps count of what was removed.
\<close>

type_synonym chan_id = nat
type_synonym cell_id = nat

record peer =
  p_network_id :: string
  p_info :: relay_peer_info
  p_tx :: chan_id
  p_last_activity :: cell_id

datatype register_outcome = Registered | Reconnected | Occupied

type_synonym registry = "(string, peer) hash_map"

definition registry_new :: registry where "registry_new = []"

definition registry_len :: "registry \<Rightarrow> nat" where "registry_len r = length r"

definition registry_is_empty :: "registry \<Rightarrow> bool" where "registry_is_empty r \<longleftrightarrow> r = []"

definition register ::
  "(chan_id \<Rightarrow> bool) \<Rightarrow> registry \<Rightarrow> string \<Rightarrow> string \<Rightarrow> relay_peer_info \<Rightarrow> chan_id \<Rightarrow> cell_id
     \<Rightarrow> register_outcome \<times> registry" where
  "register closed r peer_id network_id info tx last_activity =
     (let p = \<lparr>p_network_id = network_id, p_info = info, p_tx = tx, p_last_activity = last_activity\<rparr>
      in case map_of r peer_id of
           Some existing \<Rightarrow>
             if \<not> closed (p_tx existing) then (Occupied, r)
             else (Reconnected, AList.update peer_id p r)
         | None \<Rightarrow> (Registered, AList.update peer_id p r))"

definition dead_or_stale ::
  "(chan_id \<Rightarrow> bool) \<Rightarrow> (cell_id \<Rightarrow> u64) \<Rightarrow> registry \<Rightarrow> u64 \<Rightarrow> u64 \<Rightarrow> (string \<times> string) list" where
  "dead_or_stale closed act r now_secs deadline_secs =
     map (\<lambda>(i, p). (i, p_network_id p))
       (filter (\<lambda>(_, p). closed (p_tx p) \<or> sat_sub now_secs (act (p_last_activity p)) > deadline_secs) r)"

definition unregister :: "registry \<Rightarrow> string \<Rightarrow> peer option \<times> registry" where
  "unregister r peer_id = (map_of r peer_id, AList.delete peer_id r)"

definition sender_in_network :: "registry \<Rightarrow> string \<Rightarrow> string \<Rightarrow> chan_id option" where
  "sender_in_network r peer_id network_id =
     (case map_of r peer_id of
        Some p \<Rightarrow> if p_network_id p = network_id then Some (p_tx p) else None
      | None \<Rightarrow> None)"

definition peers :: "registry \<Rightarrow> string option \<Rightarrow> relay_peer_info list" where
  "peers r network_id =
     sort_key pi_peer_id
       (map p_info (filter (\<lambda>p. case network_id of None \<Rightarrow> True | Some n \<Rightarrow> p_network_id p = n)
          (map snd r)))"

definition broadcast_targets ::
  "registry \<Rightarrow> string \<Rightarrow> string \<Rightarrow> string list \<Rightarrow> (string \<times> chan_id) list" where
  "broadcast_targets r from network_id exclude =
     map (\<lambda>(i, p). (i, p_tx p))
       (filter (\<lambda>(i, p). p_network_id p = network_id \<and> i \<noteq> from \<and> \<not> (\<exists>e \<in> set exclude. e = i)) r)"

definition all_senders :: "registry \<Rightarrow> (string \<times> chan_id) list" where
  "all_senders r = map (\<lambda>(i, p). (i, p_tx p)) r"

section \<open>Well-formedness\<close>

text \<open>One record per id, and each record's public information carries its own id and network.\<close>

definition registry_wf :: "registry \<Rightarrow> bool" where
  "registry_wf r \<longleftrightarrow> hm_wf r
     \<and> (\<forall>(i, p) \<in> set r. pi_peer_id (p_info p) = i \<and> pi_network_id (p_info p) = p_network_id p)"

lemma registry_wf_iff:
  "registry_wf r \<longleftrightarrow> hm_wf r \<and> (\<forall>i p. map_of r i = Some p \<longrightarrow>
     pi_peer_id (p_info p) = i \<and> pi_network_id (p_info p) = p_network_id p)"
  by (force simp: registry_wf_def hm_wf_map_of [symmetric])

lemma registry_wf_new [simp]: "registry_wf registry_new"
  by (simp add: registry_wf_def registry_new_def)

lemma registry_wf_register:
  "registry_wf r \<Longrightarrow> pi_peer_id info = i \<Longrightarrow> pi_network_id info = n \<Longrightarrow>
     registry_wf (snd (register closed r i n info tx la))"
  by (auto simp: registry_wf_iff register_def Let_def hm_simps split: option.splits)

lemma registry_wf_unregister: "registry_wf r \<Longrightarrow> registry_wf (snd (unregister r i))"
  by (auto simp: registry_wf_iff unregister_def hm_simps)

section \<open>Removing peers\<close>

locale peer_table =
  fixes get :: "'r \<Rightarrow> 'k \<Rightarrow> 'v option"
    and del :: "'r \<Rightarrow> 'k \<Rightarrow> 'r"
    and size_of :: "'r \<Rightarrow> nat"
    and ok :: "'r \<Rightarrow> bool"
  assumes del_get: "ok r \<Longrightarrow> get (del r k) = (get r)(k := None)"
    and del_size: "ok r \<Longrightarrow> size_of (del r k) = (if get r k = None then size_of r else size_of r - 1)"
    and get_size: "ok r \<Longrightarrow> get r k \<noteq> None \<Longrightarrow> 0 < size_of r"
    and del_ok: "ok r \<Longrightarrow> ok (del r k)"
begin

fun del_all :: "'r \<Rightarrow> 'k list \<Rightarrow> 'r" where
  "del_all r [] = r"
| "del_all r (k # ks) = del_all (del r k) ks"

lemma del_all_ok: "ok r \<Longrightarrow> ok (del_all r ks)"
  by (induction ks arbitrary: r) (simp_all add: del_ok)

lemma del_all_get: "ok r \<Longrightarrow> get (del_all r ks) k = (if k \<in> set ks then None else get r k)"
  by (induction ks arbitrary: r) (auto simp: del_get del_ok)

lemma del_all_size:
  "ok r \<Longrightarrow> distinct ks \<Longrightarrow> (\<And>k. k \<in> set ks \<Longrightarrow> get r k \<noteq> None) \<Longrightarrow>
     size_of (del_all r ks) + length ks = size_of r"
proof (induction ks arbitrary: r)
  case Nil
  then show ?case by simp
next
  case (Cons k ks)
  have "size_of (del_all (del r k) ks) + length ks = size_of (del r k)"
    using Cons.prems by (intro Cons.IH) (auto simp: del_ok del_get)
  moreover have "Suc (size_of (del r k)) = size_of r"
    using Cons.prems(3) [of k] get_size [OF Cons.prems(1)] del_size [OF Cons.prems(1)] by force
  ultimately show ?case by simp
qed

end

interpretation pt: peer_table map_of "\<lambda>r k. snd (unregister r k)" registry_len hm_wf
  by unfold_locales
    (auto simp: unregister_def registry_len_def hm_simps fun_eq_iff map_of_None_key
      dest: map_of_SomeD)

section \<open>Registration\<close>

lemma register_cases:
  obtains (occupied) p where "map_of r i = Some p" "\<not> closed (p_tx p)"
      "register closed r i n info tx la = (Occupied, r)"
  | (reconnected) p where "map_of r i = Some p" "closed (p_tx p)"
      "register closed r i n info tx la = (Reconnected, AList.update i
         \<lparr>p_network_id = n, p_info = info, p_tx = tx, p_last_activity = la\<rparr> r)"
  | (registered) "map_of r i = None"
      "register closed r i n info tx la = (Registered, AList.update i
         \<lparr>p_network_id = n, p_info = info, p_tx = tx, p_last_activity = la\<rparr> r)"
proof (cases "map_of r i")
  case None
  then show thesis by (intro registered) (simp_all add: register_def)
next
  case (Some p)
  then show thesis
    by (cases "closed (p_tx p)") (auto simp: register_def intro: occupied reconnected)
qed

lemma register_len:
  assumes "hm_wf r" "register closed r i n info tx la = (out, r')"
  shows "registry_len r' = registry_len r + (if out = Registered then 1 else 0)"
  using assms
  by (cases rule: register_cases [of r i closed n info tx la])
    (auto simp: registry_len_def length_update map_of_None_key dest: map_of_Some_key)

text \<open>C14. Anti-hijack: an id held by a peer whose channel is still open cannot be taken; the
  registration is refused and the registry is unchanged, so the incumbent keeps its slot and its
  channel. In every other case the id now routes to the registrant, every other id routes as
  before, and the registry has grown by one exactly when the id was unused.\<close>

theorem register_exact:
  assumes wf: "hm_wf r" and reg: "register closed r i n info tx la = (out, r')"
  shows "(out = Occupied \<longleftrightarrow> (\<exists>p. map_of r i = Some p \<and> \<not> closed (p_tx p)))
    \<and> (out = Registered \<longleftrightarrow> map_of r i = None)
    \<and> (out = Occupied \<longrightarrow> r' = r)
    \<and> (out \<noteq> Occupied \<longrightarrow> map_of r' = (map_of r)
         (i \<mapsto> \<lparr>p_network_id = n, p_info = info, p_tx = tx, p_last_activity = la\<rparr>))
    \<and> registry_len r' = registry_len r + (if out = Registered then 1 else 0)"
  using reg register_len [OF wf reg]
  by (cases rule: register_cases [of r i closed n info tx la]) (auto simp: hm_simps)

definition demo_peer :: peer where
  "demo_peer = \<lparr>p_network_id = ''net'', p_info = relay_peer_info_new ''a'' ''net'' 1 0, p_tx = 3,
     p_last_activity = 3\<rparr>"

theorem register_exact_witness:
  "fst (register (\<lambda>c. c \<noteq> 3) [(''a'', demo_peer)] ''a'' ''net'' (relay_peer_info_new ''a'' ''net'' 1 9) 4 4)
     = Occupied"
proof -
  let ?reg = "register (\<lambda>c. c \<noteq> 3) [(''a'', demo_peer)] ''a'' ''net''
    (relay_peer_info_new ''a'' ''net'' 1 9) 4 4"
  have "?reg = (fst ?reg, snd ?reg)" by simp
  from register_exact [OF _ this] show ?thesis by (simp add: hm_wf_def demo_peer_def)
qed

section \<open>Routing\<close>

lemma broadcast_targets_mem:
  "hm_wf r \<Longrightarrow> (j, tx) \<in> set (broadcast_targets r from n exclude) \<longleftrightarrow>
     (\<exists>p. map_of r j = Some p \<and> p_network_id p = n \<and> j \<noteq> from \<and> j \<notin> set exclude \<and> tx = p_tx p)"
  by (auto simp: broadcast_targets_def hm_wf_map_of [symmetric] image_iff)

lemma broadcast_targets_distinct: "hm_wf r \<Longrightarrow> distinct (map fst (broadcast_targets r from n exclude))"
  unfolding broadcast_targets_def hm_wf_def
  by (simp add: comp_def split_def distinct_map_filter)



lemma peers_ids:
  "registry_wf r \<Longrightarrow> map (\<lambda>p. pi_peer_id (p_info p)) (filter f (map snd r))
     = map fst (filter (\<lambda>(_, p). f p) r)"
  unfolding registry_wf_def by (induction r) (auto simp: hm_wf_def)

text \<open>C16. The peer list answers with exactly the registered peers of the requested network (all of
  them without a filter), each once, in strictly increasing order of peer id.\<close>

theorem peers_exact:
  assumes "registry_wf r"
  shows "set (peers r filt) =
      {p_info p | i p. map_of r i = Some p \<and> (filt = None \<or> filt = Some (p_network_id p))}
    \<and> sorted_wrt (<) (map pi_peer_id (peers r filt))"
proof -
  let ?f = "\<lambda>p. case filt of None \<Rightarrow> True | Some n \<Rightarrow> p_network_id p = n"
  have wf: "hm_wf r" using assms by (simp add: registry_wf_def)
  have "distinct (map fst (filter (\<lambda>(_, p). ?f p) r))"
    using wf unfolding hm_wf_def by (simp add: distinct_map_filter)
  then have "distinct (map pi_peer_id (map p_info (filter ?f (map snd r))))"
    using peers_ids [OF assms, of ?f] by (simp add: comp_def)
  then have "distinct (map pi_peer_id (peers r filt))"
    unfolding peers_def distinct_map_sort_key .
  moreover have "sorted (map pi_peer_id (peers r filt))" unfolding peers_def by simp
  moreover have "set (peers r filt) =
      {p_info p | i p. map_of r i = Some p \<and> (filt = None \<or> filt = Some (p_network_id p))}"
  proof -
    have "snd ` set r = {p. \<exists>i. map_of r i = Some p}"
      by (force simp: hm_wf_map_of [OF wf, symmetric])
    then have "set (peers r filt) = p_info ` {p. (\<exists>i. map_of r i = Some p) \<and> ?f p}"
      by (simp add: peers_def)
    then show ?thesis by (cases filt) auto
  qed
  ultimately show ?thesis by (simp add: strict_sorted_iff)
qed
theorem peers_exact_witness:
  "p_info demo_peer \<in> set (peers [(''a'', demo_peer)] (Some ''net''))"
  using peers_exact [of "[(''a'', demo_peer)]" "Some ''net''"]
  by (auto simp: registry_wf_def hm_wf_def demo_peer_def relay_peer_info_new_def)

section \<open>The sweep's selection\<close>

definition expired :: "(chan_id \<Rightarrow> bool) \<Rightarrow> (cell_id \<Rightarrow> u64) \<Rightarrow> u64 \<Rightarrow> u64 \<Rightarrow> peer \<Rightarrow> bool" where
  "expired closed act now deadline p \<longleftrightarrow>
     closed (p_tx p) \<or> unat (act (p_last_activity p)) + unat deadline < unat now"

lemma dead_or_stale_mem:
  "hm_wf r \<Longrightarrow> (i, n) \<in> set (dead_or_stale closed act r now deadline) \<longleftrightarrow>
     (\<exists>p. map_of r i = Some p \<and> p_network_id p = n \<and> expired closed act now deadline p)"
  by (auto simp: dead_or_stale_def hm_wf_map_of [symmetric] image_iff expired_def word_less_nat_alt
      unat_sat_sub less_diff_conv add.commute)

lemma dead_or_stale_distinct:
  "hm_wf r \<Longrightarrow> distinct (map fst (dead_or_stale closed act r now deadline))"
  unfolding dead_or_stale_def hm_wf_def
  by (simp add: comp_def split_def distinct_map_filter)

end
