(* ===== verification/Dial.thy ===== *)
theory Dial
  imports Abuse_Limits
begin

text \<open>
  \<^verbatim>\<open>src/dial.rs\<close>: the dialable addresses the relay publishes for a registrant. The address family
  order of the \<^verbatim>\<open>dig_ip\<close> crate is the parameter \<open>family_of\<close>. Shown here: every published
  host is the observed source or lies in the same limiter key as it (the same IPv4 address or
  IPv6 /64), so no third-party address is ever handed out; the list is duplicate free, ordered by
  family, at most eight long, and complete when eight suffice.
\<close>

definition MAX_DIALABLE_CANDIDATES :: nat where "MAX_DIALABLE_CANDIDATES = 8"

definition is_ipv6_local :: "128 word \<Rightarrow> bool" where
  "is_ipv6_local v6 \<longleftrightarrow>
     (let leading = segments6 v6 ! 0
      in leading AND 0xfe00 = 0xfc00 \<or> leading AND 0xffc0 = 0xfe80)"

definition is_unroutable4 :: "32 word \<Rightarrow> bool" where
  "is_unroutable4 v4 \<longleftrightarrow>
     v4_is_unspecified v4 \<or> v4_is_loopback v4 \<or> v4_is_private v4 \<or> v4_is_link_local v4"

fun is_unroutable :: "ip_addr \<Rightarrow> bool" where
  "is_unroutable (V4 v4) = is_unroutable4 v4"
| "is_unroutable (V6 v6) =
     (case to_ipv4_mapped v6 of
        Some v4 \<Rightarrow> is_unroutable4 v4
      | None \<Rightarrow> v6_is_unspecified v6 \<or> v6_is_loopback v6 \<or> is_ipv6_local v6)"

definition same_ipv6_prefix64 :: "128 word \<Rightarrow> 128 word \<Rightarrow> bool" where
  "same_ipv6_prefix64 a b \<longleftrightarrow> take 4 (segments6 a) = take 4 (segments6 b)"

fun canonical :: "ip_addr \<Rightarrow> ip_addr" where
  "canonical (V6 v6) = (case to_ipv4_mapped v6 of Some v4 \<Rightarrow> V4 v4 | None \<Rightarrow> V6 v6)"
| "canonical (V4 v4) = V4 v4"

definition belongs_to_source :: "ip_addr \<Rightarrow> ip_addr \<Rightarrow> bool" where
  "belongs_to_source advertised reflexive =
     (case (canonical advertised, canonical reflexive) of
        (V4 a, V4 r) \<Rightarrow> a = r
      | (V6 a, V6 r) \<Rightarrow> same_ipv6_prefix64 a r
      | _ \<Rightarrow> False)"

definition resolve_one :: "socket_addr \<Rightarrow> ip_addr \<Rightarrow> socket_addr" where
  "resolve_one candidate reflexive =
     (if \<not> is_unroutable (sa_ip candidate) \<and> belongs_to_source (sa_ip candidate) reflexive
      then candidate else mk_sa reflexive (sa_port candidate))"

definition order_ipv6_first :: "(socket_addr \<Rightarrow> 'f::linorder) \<Rightarrow> socket_addr list \<Rightarrow> socket_addr list" where
  "order_ipv6_first family_of candidates = sort_key family_of candidates"

text \<open>The \<^verbatim>\<open>filter(|addr| seen.insert(*addr))\<close> of an iterator: first occurrences, in order.\<close>

fun first_occurrences :: "'a set \<Rightarrow> 'a list \<Rightarrow> 'a list" where
  "first_occurrences seen [] = []"
| "first_occurrences seen (x # xs) =
     (if x \<in> seen then first_occurrences seen xs else x # first_occurrences (insert x seen) xs)"

definition resolve_dialable ::
  "(socket_addr \<Rightarrow> 'f::linorder) \<Rightarrow> socket_addr list \<Rightarrow> ip_addr \<Rightarrow> socket_addr list" where
  "resolve_dialable family_of advertised reflexive =
     order_ipv6_first family_of
       (take MAX_DIALABLE_CANDIDATES
          (first_occurrences {} (map (\<lambda>c. resolve_one c reflexive) advertised)))"

section \<open>Lemmas\<close>

lemma set_first_occurrences: "set (first_occurrences seen xs) = set xs - seen"
  by (induction seen xs rule: first_occurrences.induct) auto

lemma distinct_first_occurrences: "distinct (first_occurrences seen xs)"
  by (induction seen xs rule: first_occurrences.induct) (auto simp: set_first_occurrences)

lemma canonical_eq: "canonical ip = to_canonical ip"
  by (cases ip) simp_all

lemma belongs_to_source_iff: "belongs_to_source a r \<longleftrightarrow> ip_key a = ip_key r"
  by (cases "to_canonical a"; cases "to_canonical r")
    (simp_all add: belongs_to_source_def canonical_eq same_ipv6_prefix64_def take4_segments_eq
      ip_key_V6 push_drop_eq_iff ip_key_V4')

text \<open>C18. Whatever a registrant advertises, every published address keeps an advertised port and
  its host is the observed source itself or an advertised routable host with the same limiter key
  as the source: a third party can never be reflected. The list has no duplicates, is ordered by
  family, has at most eight entries, and leaves no candidate out when eight suffice.\<close>

theorem resolve_dialable_safe:
  fixes family_of :: "socket_addr \<Rightarrow> 'f::linorder"
  shows "(\<forall>a \<in> set (resolve_dialable family_of advertised reflexive).
       ip_key (sa_ip a) = ip_key reflexive
       \<and> (\<exists>c \<in> set advertised. sa_port a = sa_port c
            \<and> (sa_ip a = reflexive \<or> a = c \<and> \<not> is_unroutable (sa_ip c))))
    \<and> distinct (resolve_dialable family_of advertised reflexive)
    \<and> sorted (map family_of (resolve_dialable family_of advertised reflexive))
    \<and> length (resolve_dialable family_of advertised reflexive) \<le> 8
    \<and> (length advertised \<le> 8 \<longrightarrow> set (resolve_dialable family_of advertised reflexive)
         = (\<lambda>c. resolve_one c reflexive) ` set advertised)"
proof -
  let ?xs = "first_occurrences {} (map (\<lambda>c. resolve_one c reflexive) advertised)"
  let ?out = "resolve_dialable family_of advertised reflexive"
  have sub: "set ?out \<subseteq> (\<lambda>c. resolve_one c reflexive) ` set advertised"
    unfolding resolve_dialable_def order_ipv6_first_def
    using set_take_subset [of 8 ?xs] by (auto simp: set_first_occurrences MAX_DIALABLE_CANDIDATES_def)
  have one: "ip_key (sa_ip (resolve_one c reflexive)) = ip_key reflexive
      \<and> sa_port (resolve_one c reflexive) = sa_port c
      \<and> (sa_ip (resolve_one c reflexive) = reflexive
         \<or> resolve_one c reflexive = c \<and> \<not> is_unroutable (sa_ip c))" for c
    by (simp add: resolve_one_def belongs_to_source_iff)
  have "length ?xs \<le> length advertised"
    using distinct_card [OF distinct_first_occurrences [of "{}" "map (\<lambda>c. resolve_one c reflexive) advertised"]]
      card_length [of "map (\<lambda>c. resolve_one c reflexive) advertised"]
    by (simp add: set_first_occurrences)
  then have all: "length advertised \<le> 8 \<longrightarrow> set ?out = (\<lambda>c. resolve_one c reflexive) ` set advertised"
    by (simp add: resolve_dialable_def order_ipv6_first_def MAX_DIALABLE_CANDIDATES_def
        set_first_occurrences)
  have "distinct ?out" "sorted (map family_of ?out)" "length ?out \<le> 8"
    by (simp_all add: resolve_dialable_def order_ipv6_first_def MAX_DIALABLE_CANDIDATES_def
        distinct_first_occurrences)
  then show ?thesis using sub one all by (simp add: subset_iff image_iff) metis
qed

text \<open>A registrant seen at one address advertises a victim's.\<close>

theorem resolve_dialable_safe_witness:
  "set (resolve_dialable (\<lambda>a. if ip_is_ipv4 (canonical (sa_ip a)) then 1 else 0 :: nat)
       [mk_sa (V4 0x08080808) 9444, mk_sa (V6 0) 9445] (V4 0x01020304))
     \<subseteq> {a. ip_key (sa_ip a) = V4 0x01020304}"
  using resolve_dialable_safe [of "\<lambda>a. if ip_is_ipv4 (canonical (sa_ip a)) then 1 else 0 :: nat"
      "[mk_sa (V4 0x08080808) 9444, mk_sa (V6 0) 9445]" "V4 0x01020304"]
  by auto

end
