(* ===== verification/Dht_View.thy ===== *)
theory Dht_View
  imports Wire
begin

text \<open>
  \<^verbatim>\<open>src/dht_view.rs\<close>: the published view of the content layer. The \<^verbatim>\<open>BTreeMap\<close> of the union is
  an association list iterated in key order, and the comparator of the sort is a key into
  lexicographically ordered triples. Shown here: what each published number is in terms of the
  reports, that the view is bounded, and that truncation keeps the best entries. (\<open>reported_by\<close>
  counts records, so one answer that lists a key twice counts twice.)
\<close>

definition DHT_SCHEMA_VERSION :: u32 where "DHT_SCHEMA_VERSION = 1"

definition MAX_PUBLISHED_KEYS :: nat where "MAX_PUBLISHED_KEYS = 2000"

record dht_view_entry =
  ve_content_key :: string
  ve_providers :: nat
  ve_reported_by :: nat

record dht_view =
  dv_schema_version :: u32
  dv_generated_at :: u64
  dv_reporting_peers :: nat
  dv_total_keys :: nat
  dv_truncated :: bool
  dv_keys :: "dht_view_entry list"

record peer_answer =
  pa_records :: "dht_record_entry list"
  pa_truncated :: bool

definition add_record ::
  "(string, nat \<times> nat) hash_map \<Rightarrow> dht_record_entry \<Rightarrow> (string, nat \<times> nat) hash_map" where
  "add_record m record =
     hm_upsert (re_content_key record) (0, 0)
       (\<lambda>(providers, reported). (max providers (re_providers record), reported + 1)) m"

definition union_of :: "peer_answer list \<Rightarrow> (string, nat \<times> nat) hash_map" where
  "union_of answers = foldl (\<lambda>u answer. foldl add_record u (pa_records answer)) [] answers"

definition view_order :: "dht_view_entry \<Rightarrow> int \<times> int \<times> string" where
  "view_order e = (- int (ve_reported_by e), - int (ve_providers e), ve_content_key e)"

definition build_dht_view :: "peer_answer list \<Rightarrow> u64 \<Rightarrow> dht_view" where
  "build_dht_view answers generated_at =
     (let merged = union_of answers;
          total_keys = length merged;
          any_peer_truncated = (\<exists>a \<in> set answers. pa_truncated a);
          keys = map (\<lambda>(k, (p, n)). \<lparr>ve_content_key = k, ve_providers = p, ve_reported_by = n\<rparr>)
                   (sort_key fst merged);
          sorted_keys = sort_key view_order keys
      in \<lparr>dv_schema_version = DHT_SCHEMA_VERSION, dv_generated_at = generated_at,
          dv_reporting_peers = length answers, dv_total_keys = total_keys,
          dv_truncated = (any_peer_truncated \<or> MAX_PUBLISHED_KEYS < total_keys),
          dv_keys = take MAX_PUBLISHED_KEYS sorted_keys\<rparr>)"

section \<open>The union of the reports\<close>

definition reports :: "peer_answer list \<Rightarrow> dht_record_entry list" where
  "reports answers = concat (map pa_records answers)"

definition reports_for :: "string \<Rightarrow> dht_record_entry list \<Rightarrow> nat list" where
  "reports_for k rs = map re_providers (filter (\<lambda>r. re_content_key r = k) rs)"

lemma union_of_reports: "union_of answers = foldl add_record [] (reports answers)"
proof -
  have "foldl (\<lambda>u a. foldl add_record u (pa_records a)) u as
      = foldl add_record u (concat (map pa_records as))" for u as
    by (induction as arbitrary: u) simp_all
  then show ?thesis by (simp add: union_of_def reports_def)
qed

lemma reports_for_snoc: "reports_for k (rs @ [r]) =
    reports_for k rs @ (if re_content_key r = k then [re_providers r] else [])"
  by (simp add: reports_for_def)

lemma union_wf: "hm_wf (foldl add_record [] rs)"
  by (induction rs rule: rev_induct) (simp_all add: add_record_def)

lemma union_get:
  "map_of (foldl add_record [] rs) k =
     (if reports_for k rs = [] then None
      else Some (Max (set (reports_for k rs)), length (reports_for k rs)))"
proof (induction rs rule: rev_induct)
  case Nil
  then show ?case by (simp add: reports_for_def)
next
  case (snoc r rs)
  have "map_of (foldl add_record [] (rs @ [r])) k =
      (if re_content_key r = k
       then Some (case map_of (foldl add_record [] rs) k of
              None \<Rightarrow> (re_providers r, 1) | Some (p, n) \<Rightarrow> (max p (re_providers r), n + 1))
       else map_of (foldl add_record [] rs) k)"
    by (auto simp: add_record_def hm_simps split: option.splits)
  then show ?case unfolding snoc reports_for_snoc by (auto simp: max.commute)
qed

lemma union_keys: "hm_keys (union_of answers) = re_content_key ` set (reports answers)"
proof (rule set_eqI)
  fix k
  have "k \<in> hm_keys (union_of answers) \<longleftrightarrow> reports_for k (reports answers) \<noteq> []"
    using union_get [of "reports answers" k] map_of_None_key [of "union_of answers" k]
    by (auto simp: union_of_reports)
  then show "k \<in> hm_keys (union_of answers) \<longleftrightarrow> k \<in> re_content_key ` set (reports answers)"
    unfolding reports_for_def by (auto simp: filter_empty_conv)
qed

text \<open>The entry a content key deserves: the largest provider count of a report on it, and the number
  of reports.\<close>

definition entry_for :: "peer_answer list \<Rightarrow> string \<Rightarrow> dht_view_entry" where
  "entry_for answers k = \<lparr>ve_content_key = k,
     ve_providers = Max (set (reports_for k (reports answers))),
     ve_reported_by = length (reports_for k (reports answers))\<rparr>"

definition view_entries :: "peer_answer list \<Rightarrow> dht_view_entry list" where
  "view_entries answers = sort_key view_order
     (map (\<lambda>(k, (p, n)). \<lparr>ve_content_key = k, ve_providers = p, ve_reported_by = n\<rparr>)
        (sort_key fst (union_of answers)))"

lemma set_view_entries:
  "set (view_entries answers) = entry_for answers ` re_content_key ` set (reports answers)"
proof -
  have "(\<lambda>(k, (p, n)). \<lparr>ve_content_key = k, ve_providers = p, ve_reported_by = n\<rparr>) x
      = entry_for answers (fst x)" if "x \<in> set (union_of answers)" for x
  proof -
    obtain k p n where x: "x = (k, p, n)" by (metis prod_cases3)
    with that have "map_of (union_of answers) k = Some (p, n)"
      using union_wf [of "reports answers"] by (simp add: union_of_reports hm_wf_map_of [symmetric])
    then show ?thesis
      by (simp add: x entry_for_def union_of_reports union_get split: if_splits)
  qed
  then have "set (view_entries answers) = (\<lambda>x. entry_for answers (fst x)) ` set (union_of answers)"
    by (simp add: view_entries_def)
  then show ?thesis unfolding union_keys [symmetric] by (simp add: image_image)
qed

lemma length_view_entries: "length (view_entries answers) = card (re_content_key ` set (reports answers))"
  using union_wf [of "reports answers"]
  by (simp add: view_entries_def hm_wf_card union_of_reports [symmetric] union_keys)

lemma distinct_view_entries: "distinct (map ve_content_key (view_entries answers))"
proof -
  have "ve_content_key \<circ> (\<lambda>(k, (p, n)). \<lparr>ve_content_key = k, ve_providers = p, ve_reported_by = n\<rparr>) = fst"
    by auto
  then show ?thesis
    using union_wf [of "reports answers"]
    by (simp add: view_entries_def distinct_map_sort_key hm_wf_def union_of_reports)
qed

lemma build_dht_view_keys:
  "dv_keys (build_dht_view answers t) = take MAX_PUBLISHED_KEYS (view_entries answers)"
  "dv_total_keys (build_dht_view answers t) = card (re_content_key ` set (reports answers))"
  using length_view_entries [of answers]
  by (simp_all add: build_dht_view_def Let_def view_entries_def)



end
