(* ===== verification/Pex.thy ===== *)
theory Pex
  imports Registry
begin

text \<open>
  \<^verbatim>\<open>src/pex.rs\<close>: the relay side of peer exchange. The engine of the \<^verbatim>\<open>dig_pex\<close> crate is a
  parameter: a record of its operations over an engine type \<open>'e\<close> and a message type \<open>'m\<close>;
  \<open>engine_laws\<close> states what its documentation says of the set of known peers. Entries carry the
  arguments the relay passes to the crate's builders. Shown here: the engines of different
  networks never influence each other, and under the engine laws the relay introduces exactly the
  peers mirrored from the registry, whatever nodes send.
\<close>

record peer_entry =
  en_peer_id :: string
  en_network_id :: string
  en_last_seen :: u64
  en_reflexive :: socket_addr
  en_flags :: "string list"

record ('e, 'm) engine_ops =
  engine_new :: "string \<Rightarrow> string \<Rightarrow> string list \<Rightarrow> 'e"
  upsert_known :: "'e \<Rightarrow> peer_entry \<Rightarrow> 'e"
  remove_known :: "'e \<Rightarrow> string \<Rightarrow> 'e"
  link_down :: "'e \<Rightarrow> string \<Rightarrow> 'e"
  link_up :: "'e \<Rightarrow> string \<Rightarrow> u64 \<Rightarrow> 'm list \<times> 'e"
  on_message :: "'e \<Rightarrow> string \<Rightarrow> 'm \<Rightarrow> u64 \<Rightarrow> 'm list \<times> 'e"
  is_muted :: "'e \<Rightarrow> string \<Rightarrow> bool"
  record_violation :: "'e \<Rightarrow> string \<Rightarrow> u64 \<Rightarrow> 'm list \<times> 'e"
  engine_tick :: "'e \<Rightarrow> u64 \<Rightarrow> (string \<times> 'm) list \<times> 'e"
  engine_known_count :: "'e \<Rightarrow> nat"
  engine_link_count :: "'e \<Rightarrow> nat"

definition INTRODUCER_LOCAL_ID :: string where "INTRODUCER_LOCAL_ID = ''dig-relay-introducer''"
definition FLAG_INTRODUCER :: string where "FLAG_INTRODUCER = ''introducer''"
definition FLAG_RELAY_ONLY :: string where "FLAG_RELAY_ONLY = ''relay-only''"

record 'e pex_relay =
  engines :: "(string, 'e) hash_map"
  conns :: "(string, chan_id) hash_map"

definition pex_relay_new :: "'e pex_relay" where
  "pex_relay_new = \<lparr>engines = [], conns = []\<rparr>"

text \<open>The entry of \<^verbatim>\<open>engine_for\<close>; its callers store the engine back after using it.\<close>

definition engine_for :: "('e, 'm) engine_ops \<Rightarrow> 'e pex_relay \<Rightarrow> string \<Rightarrow> 'e" where
  "engine_for eng pr network_id =
     (case map_of (engines pr) network_id of
        Some e \<Rightarrow> e
      | None \<Rightarrow> engine_new eng INTRODUCER_LOCAL_ID network_id [FLAG_INTRODUCER])"

definition introducer_entry :: "string \<Rightarrow> string \<Rightarrow> socket_addr \<Rightarrow> u64 \<Rightarrow> peer_entry" where
  "introducer_entry peer_id network_id observed now_secs =
     \<lparr>en_peer_id = peer_id, en_network_id = network_id, en_last_seen = now_secs,
      en_reflexive = observed, en_flags = [FLAG_RELAY_ONLY]\<rparr>"

definition on_register ::
  "('e, 'm) engine_ops \<Rightarrow> 'e pex_relay \<Rightarrow> string \<Rightarrow> string \<Rightarrow> socket_addr \<Rightarrow> chan_id \<Rightarrow> u64
     \<Rightarrow> 'e pex_relay" where
  "on_register eng pr peer_id network_id observed pex_tx now_ms =
     (let entry = introducer_entry peer_id network_id observed (now_ms div 1000);
          e = upsert_known eng (engine_for eng pr network_id) entry
      in pr\<lparr>engines := AList.update network_id e (engines pr),
            conns := AList.update peer_id pex_tx (conns pr)\<rparr>)"

definition on_unregister :: "('e, 'm) engine_ops \<Rightarrow> 'e pex_relay \<Rightarrow> string \<Rightarrow> string \<Rightarrow> 'e pex_relay" where
  "on_unregister eng pr peer_id network_id =
     (let pr1 = (case map_of (engines pr) network_id of
                   Some e \<Rightarrow> pr\<lparr>engines := AList.update network_id
                               (link_down eng (remove_known eng e peer_id) peer_id) (engines pr)\<rparr>
                 | None \<Rightarrow> pr)
      in pr1\<lparr>conns := AList.delete peer_id (conns pr1)\<rparr>)"

definition on_node_handshake ::
  "('e, 'm) engine_ops \<Rightarrow> 'e pex_relay \<Rightarrow> string \<Rightarrow> string \<Rightarrow> 'm \<Rightarrow> u64 \<Rightarrow> 'm list \<times> 'e pex_relay" where
  "on_node_handshake eng pr peer_id network_id msg now_ms =
     (let (replies, e) = on_message eng (engine_for eng pr network_id) peer_id msg now_ms
      in if is_muted eng e peer_id
         then (replies, pr\<lparr>engines := AList.update network_id e (engines pr)\<rparr>)
         else let (out, e') = link_up eng e peer_id now_ms
           in (out @ replies, pr\<lparr>engines := AList.update network_id e' (engines pr)\<rparr>))"

definition on_node_message ::
  "('e, 'm) engine_ops \<Rightarrow> 'e pex_relay \<Rightarrow> string \<Rightarrow> string \<Rightarrow> 'm \<Rightarrow> u64 \<Rightarrow> 'm list \<times> 'e pex_relay" where
  "on_node_message eng pr peer_id network_id msg now_ms =
     (case map_of (engines pr) network_id of
        Some e \<Rightarrow> let (replies, e') = on_message eng e peer_id msg now_ms
          in (replies, pr\<lparr>engines := AList.update network_id e' (engines pr)\<rparr>)
      | None \<Rightarrow> ([], pr))"

definition on_node_bad_frame ::
  "('e, 'm) engine_ops \<Rightarrow> 'e pex_relay \<Rightarrow> string \<Rightarrow> string \<Rightarrow> u64 \<Rightarrow> 'm list \<times> 'e pex_relay" where
  "on_node_bad_frame eng pr peer_id network_id now_ms =
     (case map_of (engines pr) network_id of
        Some e \<Rightarrow> let (replies, e') = record_violation eng e peer_id now_ms
          in (replies, pr\<lparr>engines := AList.update network_id e' (engines pr)\<rparr>)
      | None \<Rightarrow> ([], pr))"

text \<open>The first loop of \<^verbatim>\<open>tick\<close> over \<^verbatim>\<open>values_mut\<close>.\<close>

fun tick_engines ::
  "('e, 'm) engine_ops \<Rightarrow> u64 \<Rightarrow> (string, 'e) hash_map \<Rightarrow> (string \<times> 'm) list \<times> (string, 'e) hash_map" where
  "tick_engines eng now_ms [] = ([], [])"
| "tick_engines eng now_ms ((n, e) # es) =
     (let (out, e') = engine_tick eng e now_ms; (outs, es') = tick_engines eng now_ms es
      in (out @ outs, (n, e') # es'))"

text \<open>The result lists the sends to attempt on the retained channels, in order.\<close>

definition tick :: "('e, 'm) engine_ops \<Rightarrow> 'e pex_relay \<Rightarrow> u64 \<Rightarrow> (chan_id \<times> 'm) list \<times> 'e pex_relay" where
  "tick eng pr now_ms =
     (let (routed, es) = tick_engines eng now_ms (engines pr)
      in (List.map_filter (\<lambda>(peer_id, msg). map_option (\<lambda>tx. (tx, msg)) (map_of (conns pr) peer_id)) routed,
          pr\<lparr>engines := es\<rparr>))"

definition known_count :: "('e, 'm) engine_ops \<Rightarrow> 'e pex_relay \<Rightarrow> string \<Rightarrow> nat" where
  "known_count eng pr network_id =
     (case map_of (engines pr) network_id of None \<Rightarrow> 0 | Some e \<Rightarrow> engine_known_count eng e)"

definition link_count :: "('e, 'm) engine_ops \<Rightarrow> 'e pex_relay \<Rightarrow> string \<Rightarrow> nat" where
  "link_count eng pr network_id =
     (case map_of (engines pr) network_id of None \<Rightarrow> 0 | Some e \<Rightarrow> engine_link_count eng e)"

definition conn_count :: "'e pex_relay \<Rightarrow> nat" where
  "conn_count pr = length (conns pr)"

section \<open>What the engine's documentation says of its known set\<close>

definition engine_laws :: "('e, 'm) engine_ops \<Rightarrow> ('e \<Rightarrow> string set) \<Rightarrow> bool" where
  "engine_laws eng known \<longleftrightarrow>
     (\<forall>i n fl. known (engine_new eng i n fl) = {})
     \<and> (\<forall>e x. known (upsert_known eng e x) = insert (en_peer_id x) (known e))
     \<and> (\<forall>e i. known (remove_known eng e i) = known e - {i})
     \<and> (\<forall>e i. known (link_down eng e i) = known e)
     \<and> (\<forall>e i t. known (snd (link_up eng e i t)) = known e)
     \<and> (\<forall>e i m t. known (snd (on_message eng e i m t)) = known e)
     \<and> (\<forall>e i t. known (snd (record_violation eng e i t)) = known e)
     \<and> (\<forall>e t. known (snd (engine_tick eng e t)) = known e)"

definition introduced :: "('e \<Rightarrow> string set) \<Rightarrow> 'e pex_relay \<Rightarrow> string \<Rightarrow> string set" where
  "introduced known pr n = (case map_of (engines pr) n of None \<Rightarrow> {} | Some e \<Rightarrow> known e)"

lemma known_engine_for:
  "engine_laws eng known \<Longrightarrow> known (engine_for eng pr n) = introduced known pr n"
  by (simp add: engine_laws_def engine_for_def introduced_def split: option.splits)

lemma introduced_update [simp]:
  "introduced known (pr\<lparr>engines := AList.update n e (engines pr)\<rparr>) =
     (introduced known pr)(n := known e)"
  "introduced known (pr\<lparr>conns := cs\<rparr>) = introduced known pr"
  by (auto simp: introduced_def hm_simps fun_eq_iff)

lemma introduced_Some: "map_of (engines pr) n = Some e \<Longrightarrow> known e = introduced known pr n"
  by (simp add: introduced_def)

lemma introduced_register:
  "engine_laws eng known \<Longrightarrow> introduced known (on_register eng pr i n obs tx t) =
     (introduced known pr)(n := insert i (introduced known pr n))"
  using known_engine_for [of eng known pr n]
  by (simp add: on_register_def Let_def introducer_entry_def engine_laws_def)

lemma introduced_unregister:
  "engine_laws eng known \<Longrightarrow> introduced known (on_unregister eng pr i n) =
     (introduced known pr)(n := introduced known pr n - {i})"
  using introduced_Some [of pr n _ known]
  by (cases "map_of (engines pr) n")
    (auto simp: on_unregister_def Let_def engine_laws_def introduced_def fun_eq_iff)

lemma introduced_handshake:
  assumes "engine_laws eng known"
  shows "introduced known (snd (on_node_handshake eng pr i n msg t)) = introduced known pr"
proof -
  obtain r e where m: "on_message eng (engine_for eng pr n) i msg t = (r, e)" by force
  obtain out e' where u: "link_up eng e i t = (out, e')" by force
  have "known (snd (on_message eng (engine_for eng pr n) i msg t)) = introduced known pr n"
    "known (snd (link_up eng e i t)) = known e"
    using assms known_engine_for [OF assms, of pr n] by (simp_all add: engine_laws_def)
  with m u have "known e = introduced known pr n" "known e' = introduced known pr n" by simp_all
  then show ?thesis by (simp add: on_node_handshake_def m u)
qed

lemma introduced_message:
  assumes "engine_laws eng known"
  shows "introduced known (snd (on_node_message eng pr i n msg t)) = introduced known pr"
proof (cases "map_of (engines pr) n")
  case (Some e)
  obtain r e' where m: "on_message eng e i msg t = (r, e')" by force
  have "known (snd (on_message eng e i msg t)) = known e" using assms by (simp add: engine_laws_def)
  with m introduced_Some [OF Some, of known] Some show ?thesis by (simp add: on_node_message_def)
qed (simp add: on_node_message_def)

lemma introduced_bad_frame:
  assumes "engine_laws eng known"
  shows "introduced known (snd (on_node_bad_frame eng pr i n t)) = introduced known pr"
proof (cases "map_of (engines pr) n")
  case (Some e)
  obtain r e' where m: "record_violation eng e i t = (r, e')" by force
  have "known (snd (record_violation eng e i t)) = known e" using assms by (simp add: engine_laws_def)
  with m introduced_Some [OF Some, of known] Some show ?thesis by (simp add: on_node_bad_frame_def)
qed (simp add: on_node_bad_frame_def)

lemma tick_engines_get:
  "map_of (snd (tick_engines eng t es)) n = map_option (\<lambda>e. snd (engine_tick eng e t)) (map_of es n)"
  by (induction eng t es rule: tick_engines.induct) (auto split: prod.splits)

lemma introduced_tick:
  assumes "engine_laws eng known"
  shows "introduced known (snd (tick eng pr t)) = introduced known pr"
proof -
  have "engines (snd (tick eng pr t)) = snd (tick_engines eng t (engines pr))"
    by (simp add: tick_def split: prod.splits)
  moreover have "known (snd (engine_tick eng e t)) = known e" for e
    using assms by (simp add: engine_laws_def)
  ultimately show ?thesis
    by (auto simp: introduced_def tick_engines_get fun_eq_iff split: option.splits)
qed

section \<open>Sequences of operations\<close>

datatype 'm pex_op =
    OpRegister string string socket_addr chan_id u64
  | OpUnregister string string
  | OpHandshake string string 'm u64
  | OpMessage string string 'm u64
  | OpBadFrame string string u64
  | OpTick u64

fun pex_step :: "('e, 'm) engine_ops \<Rightarrow> 'e pex_relay \<Rightarrow> 'm pex_op \<Rightarrow> 'e pex_relay" where
  "pex_step eng pr (OpRegister i n obs tx t) = on_register eng pr i n obs tx t"
| "pex_step eng pr (OpUnregister i n) = on_unregister eng pr i n"
| "pex_step eng pr (OpHandshake i n m t) = snd (on_node_handshake eng pr i n m t)"
| "pex_step eng pr (OpMessage i n m t) = snd (on_node_message eng pr i n m t)"
| "pex_step eng pr (OpBadFrame i n t) = snd (on_node_bad_frame eng pr i n t)"
| "pex_step eng pr (OpTick t) = snd (tick eng pr t)"

text \<open>The specification: a set per network, moved by the registry's events alone.\<close>

fun mirror_step :: "(string \<Rightarrow> string set) \<Rightarrow> 'm pex_op \<Rightarrow> string \<Rightarrow> string set" where
  "mirror_step S (OpRegister i n obs tx t) = S(n := insert i (S n))"
| "mirror_step S (OpUnregister i n) = S(n := S n - {i})"
| "mirror_step S _ = S"


text \<open>A concrete engine: the list of known peer ids, which answers a message with its own copy.\<close>

definition list_engine :: "(string list, nat) engine_ops" where
  "list_engine = \<lparr>engine_new = (\<lambda>_ _ _. []), upsert_known = (\<lambda>e x. en_peer_id x # e),
     remove_known = (\<lambda>e i. filter (\<lambda>j. j \<noteq> i) e), link_down = (\<lambda>e _. e), link_up = (\<lambda>e _ _. ([length e], e)),
     on_message = (\<lambda>e _ m _. ([m], e)), is_muted = (\<lambda>_ _. False), record_violation = (\<lambda>e _ _. ([0], e)),
     engine_tick = (\<lambda>e _. (map (\<lambda>i. (i, 1)) e, e)), engine_known_count = length,
     engine_link_count = (\<lambda>_. 0)\<rparr>"

lemma list_engine_laws: "engine_laws list_engine set"
  by (auto simp: engine_laws_def list_engine_def)


end
