(* ===== verification/Channel.thy ===== *)
theory Channel
  imports Relay_Prelude
begin

text \<open>
  The bounded \<^verbatim>\<open>tokio::sync::mpsc\<close> channels through which connections reach each other. Senders are
  cloned and shared, so channels live in a store indexed by an identifier: a sender is the
  identifier, and whether the receiver is still there is part of the store. A full or closed
  channel drops the message, as the relay ignores the error of \<^verbatim>\<open>try_send\<close>. The lemmas say what
  sends do to queues, capacities and open flags; the queues never exceed their capacity.
\<close>

record 'a chan =
  ch_queue :: "'a list"
  ch_cap :: nat
  ch_open :: bool

type_synonym 'a chans = "nat \<Rightarrow> 'a chan"

definition no_chans :: "'a chans" where
  "no_chans = (\<lambda>_. \<lparr>ch_queue = [], ch_cap = 0, ch_open = False\<rparr>)"

definition chan_new :: "'a chans \<Rightarrow> nat \<Rightarrow> nat \<Rightarrow> 'a chans" where
  "chan_new cs c cap = cs(c := \<lparr>ch_queue = [], ch_cap = cap, ch_open = True\<rparr>)"

definition is_closed :: "'a chans \<Rightarrow> nat \<Rightarrow> bool" where
  "is_closed cs c \<longleftrightarrow> \<not> ch_open (cs c)"

definition try_send :: "'a chans \<Rightarrow> nat \<Rightarrow> 'a \<Rightarrow> 'a chans" where
  "try_send cs c m =
     (if ch_open (cs c) \<and> length (ch_queue (cs c)) < ch_cap (cs c)
      then cs(c := (cs c)\<lparr>ch_queue := ch_queue (cs c) @ [m]\<rparr>) else cs)"

text \<open>The receiving side: take the next message, or drop the receiver with what is queued.\<close>

definition chan_recv :: "'a chans \<Rightarrow> nat \<Rightarrow> 'a option \<times> 'a chans" where
  "chan_recv cs c =
     (case ch_queue (cs c) of
        [] \<Rightarrow> (None, cs)
      | m # ms \<Rightarrow> (Some m, cs(c := (cs c)\<lparr>ch_queue := ms\<rparr>)))"

definition chan_close :: "'a chans \<Rightarrow> nat \<Rightarrow> 'a chans" where
  "chan_close cs c = cs(c := (cs c)\<lparr>ch_queue := [], ch_open := False\<rparr>)"

text \<open>A loop that ignores the result of each send.\<close>

definition send_each :: "'a chans \<Rightarrow> (nat \<times> 'a) list \<Rightarrow> 'a chans" where
  "send_each cs ms = foldl (\<lambda>cs (c, m). try_send cs c m) cs ms"

definition chans_bounded :: "'a chans \<Rightarrow> bool" where
  "chans_bounded cs \<longleftrightarrow> (\<forall>c. length (ch_queue (cs c)) \<le> ch_cap (cs c))"

lemma send_each_simps [simp]:
  "send_each cs [] = cs"
  "send_each cs ((c, m) # ms) = send_each (try_send cs c m) ms"
  "send_each cs (ms @ ms') = send_each (send_each cs ms) ms'"
  by (simp_all add: send_each_def)

lemma try_send_cap [simp]: "ch_cap (try_send cs c m d) = ch_cap (cs d)"
  by (simp add: try_send_def)

lemma try_send_open [simp]: "ch_open (try_send cs c m d) = ch_open (cs d)"
  by (simp add: try_send_def)

lemma try_send_closed [simp]: "is_closed (try_send cs c m) = is_closed cs"
  by (simp add: is_closed_def fun_eq_iff)

lemma send_each_frame [simp]:
  "ch_cap (send_each cs ms d) = ch_cap (cs d)"
  "ch_open (send_each cs ms d) = ch_open (cs d)"
  "is_closed (send_each cs ms) = is_closed cs"
proof (induction ms arbitrary: cs)
  case (Cons m ms)
  { case 1 show ?case by (cases m) (simp add: Cons) }
  { case 2 show ?case by (cases m) (simp add: Cons) }
  { case 3 show ?case by (cases m) (simp add: Cons) }
qed simp_all

lemma chans_bounded_no_chans [simp]: "chans_bounded no_chans"
  by (simp add: chans_bounded_def no_chans_def)

lemma chans_bounded_new [simp]: "chans_bounded cs \<Longrightarrow> chans_bounded (chan_new cs c cap)"
  by (simp add: chans_bounded_def chan_new_def)

lemma chans_bounded_try_send [simp]: "chans_bounded cs \<Longrightarrow> chans_bounded (try_send cs c m)"
  by (auto simp: chans_bounded_def try_send_def)

lemma chans_bounded_send_each [simp]: "chans_bounded cs \<Longrightarrow> chans_bounded (send_each cs ms)"
proof (induction ms arbitrary: cs)
  case (Cons m ms)
  then show ?case by (cases m) simp
qed simp

lemma chans_bounded_close [simp]: "chans_bounded cs \<Longrightarrow> chans_bounded (chan_close cs c)"
  by (auto simp: chans_bounded_def chan_close_def)

lemma chans_bounded_recv [simp]: "chans_bounded cs \<Longrightarrow> chans_bounded (snd (chan_recv cs c))"
  by (auto simp: chans_bounded_def chan_recv_def split: list.splits)
     (metis Suc_leD length_Cons)

lemma send_each_full:
  "\<not> (ch_open (cs c) \<and> length (ch_queue (cs c)) < ch_cap (cs c)) \<Longrightarrow> send_each cs ms c = cs c"
proof (induction ms arbitrary: cs)
  case (Cons x ms)
  obtain d m where x: "x = (d, m)" by force
  from Cons.prems have "try_send cs d m c = cs c" by (auto simp: try_send_def)
  with Cons show ?case by (simp add: x)
qed simp

text \<open>What a loop of sends puts on one channel: a prefix of the messages addressed to it.\<close>

lemma send_each_queue:
  "\<exists>n. ch_queue (send_each cs ms c) =
     ch_queue (cs c) @ take n (map snd (filter (\<lambda>(d, _). d = c) ms))"
proof (induction ms arbitrary: cs)
  case Nil
  then show ?case by simp
next
  case (Cons x ms)
  obtain d m where x: "x = (d, m)" by force
  obtain n where n: "ch_queue (send_each (try_send cs d m) ms c) =
      ch_queue (try_send cs d m c) @ take n (map snd (filter (\<lambda>(d, _). d = c) ms))"
    using Cons by blast
  show ?case
  proof (cases "d = c \<and> ch_open (cs c) \<and> length (ch_queue (cs c)) < ch_cap (cs c)")
    case True
    then have "ch_queue (try_send cs d m c) = ch_queue (cs c) @ [m]" by (simp add: try_send_def)
    with n True show ?thesis by (intro exI [of _ "Suc n"]) (simp add: x)
  next
    case False
    then have "ch_queue (try_send cs d m c) = ch_queue (cs c)" by (auto simp: try_send_def)
    show ?thesis
    proof (cases "d = c")
      case True
      then have "send_each cs (x # ms) c = cs c" using False by (intro send_each_full) simp
      then show ?thesis by (intro exI [of _ 0]) (simp add: x)
    next
      case neq: False
      with n \<open>ch_queue (try_send cs d m c) = ch_queue (cs c)\<close> show ?thesis by (auto simp: x)
    qed
  qed
qed

end
