(* ===== verification/Server.thy ===== *)
theory Server
  imports Abuse_Limits Registry Dial Dht_View Pex Channel
begin

text \<open>
  \<^verbatim>\<open>src/server.rs\<close>: the relay server. The shared state is a record; outbound channels, PEX channels
  and activity cells are stores indexed by a connection identifier, because other connections and
  the sweeps reach them. A handler is a function on the state; where the source awaits a lock
  between two critical sections, the handler is the composition of the sections, so that the
  system model can interleave them. Every clock reading is an argument of its own, so two readings
  of one handler may differ. The JSON codec, the PEX codec and engine and the address-family order
  come in an environment record.
\<close>

record ('e, 'm) env =
  e_engine :: "('e, 'm) engine_ops"
  e_peek :: "u8 list \<Rightarrow> string option"
  e_decode :: "u8 list \<Rightarrow> relay_message option"
  e_pex_decode :: "u8 list \<Rightarrow> 'm option"
  e_is_handshake :: "'m \<Rightarrow> bool"
  e_family_of :: "socket_addr \<Rightarrow> nat"

section \<open>Constants and state\<close>

definition PEX_TICK_INTERVAL :: duration where "PEX_TICK_INTERVAL = from_secs 1"
definition DHT_SWEEP_INTERVAL :: duration where "DHT_SWEEP_INTERVAL = from_secs 60"
definition PROXY_HEADER_TIMEOUT :: duration where "PROXY_HEADER_TIMEOUT = from_secs 5"
definition DHT_ANSWER_WINDOW :: duration where "DHT_ANSWER_WINDOW = from_secs 5"
definition DHT_MAX_KEYS_PER_PEER :: nat where "DHT_MAX_KEYS_PER_PEER = 500"

definition NOT_REGISTERED :: u32 where "NOT_REGISTERED = 1"
definition BAD_MESSAGE :: u32 where "BAD_MESSAGE = 2"
definition PEER_NOT_FOUND :: u32 where "PEER_NOT_FOUND = 3"
definition CAPACITY :: u32 where "CAPACITY = 4"
definition ID_IN_USE :: u32 where "ID_IN_USE = 5"
definition IDENTITY_MISMATCH :: u32 where "IDENTITY_MISMATCH = 6"
definition RATE_LIMITED :: u32 where "RATE_LIMITED = 7"

lemmas errcode_defs = NOT_REGISTERED_def BAD_MESSAGE_def PEER_NOT_FOUND_def CAPACITY_def
  ID_IN_USE_def IDENTITY_MISMATCH_def RATE_LIMITED_def

record ('e, 'm) relay_state =
  st_registry :: registry
  st_pex :: "'e pex_relay"
  connected :: u64
  open_connections :: u64
  stun_requests :: u64
  hole_punch_requests :: u64
  hole_punch_successes :: u64
  hole_punch_failures :: u64
  bytes_relayed :: u64
  st_config :: relay_server_config
  st_policy :: abuse_policy
  st_abuse :: abuse_state
  st_dht_view :: dht_view
  st_dht_answers :: "peer_answer list"
  outs :: "relay_message chans"
  pexs :: "'m chans"
  cells :: "cell_id \<Rightarrow> u64"

definition relay_state_new :: "relay_server_config \<Rightarrow> ('e, 'm) relay_state" where
  "relay_state_new config =
     \<lparr>st_registry = registry_new, st_pex = pex_relay_new, connected = 0, open_connections = 0,
      stun_requests = 0, hole_punch_requests = 0, hole_punch_successes = 0, hole_punch_failures = 0,
      bytes_relayed = 0, st_config = config, st_policy = fst (abuse_policy_new config),
      st_abuse = snd (abuse_policy_new config), st_dht_view = build_dht_view [] 0,
      st_dht_answers = [], outs = no_chans, pexs = no_chans, cells = (\<lambda>_. 0)\<rparr>"

fun record_relayed :: "('e, 'm) relay_state \<Rightarrow> relay_message \<Rightarrow> ('e, 'm) relay_state" where
  "record_relayed st (RelayGossipMessage _ _ payload _) =
     st\<lparr>bytes_relayed := bytes_relayed st + of_nat (length payload)\<rparr>"
| "record_relayed st (Broadcast _ payload _) =
     st\<lparr>bytes_relayed := bytes_relayed st + of_nat (length payload)\<rparr>"
| "record_relayed st (HolePunchRequest _ _ _) =
     st\<lparr>hole_punch_requests := hole_punch_requests st + 1\<rparr>"
| "record_relayed st (HolePunchResult _ success) =
     (if success then st\<lparr>hole_punch_successes := hole_punch_successes st + 1\<rparr>
      else st\<lparr>hole_punch_failures := hole_punch_failures st + 1\<rparr>)"
| "record_relayed st _ = st"

definition open_guard_acquire :: "('e, 'm) relay_state \<Rightarrow> ('e, 'm) relay_state" where
  "open_guard_acquire st = st\<lparr>open_connections := open_connections st + 1\<rparr>"

definition open_guard_drop :: "('e, 'm) relay_state \<Rightarrow> ('e, 'm) relay_state" where
  "open_guard_drop st = st\<lparr>open_connections := open_connections st - 1\<rparr>"

section \<open>Dispatch\<close>

record session =
  s_peer_id :: "string option"
  s_network_id :: "string option"
  pex_active :: bool

definition session_default :: session where
  "session_default = \<lparr>s_peer_id = None, s_network_id = None, pex_active = False\<rparr>"

datatype action =
    ActReplyToSelf "relay_message list"
  | ActRegister string string u32 "socket_addr list"
  | ActForwardTo string relay_message
  | ActBroadcast string "string list" relay_message
  | ActClose
  | ActNothing
  | ActError u32 string

definition unwrap_or_default :: "string option \<Rightarrow> string" where
  "unwrap_or_default x = (case x of None \<Rightarrow> [] | Some s \<Rightarrow> s)"

definition dispatch_registered :: "string \<Rightarrow> relay_message \<Rightarrow> action" where
  "dispatch_registered from msg =
     (case msg of
        Register peer_id network_id protocol_version listen_addrs \<Rightarrow>
          ActRegister peer_id network_id protocol_version listen_addrs
      | Unregister _ \<Rightarrow> ActClose
      | RelayGossipMessage _ to payload seq \<Rightarrow> ActForwardTo to (RelayGossipMessage from to payload seq)
      | Broadcast _ payload exclude \<Rightarrow> ActBroadcast from exclude (Broadcast from payload [])
      | GetPeers _ \<Rightarrow> ActReplyToSelf [Peers []]
      | DhtRecords _ _ _ \<Rightarrow> ActNothing
      | GetDhtRecords _ \<Rightarrow> ActError BAD_MESSAGE ''get_dht_records is relay-to-node only (RLY-009)''
      | Ping timestamp \<Rightarrow> ActReplyToSelf [Pong timestamp]
      | Pong _ \<Rightarrow> ActNothing
      | HolePunchRequest _ target external_addr \<Rightarrow>
          ActForwardTo target (HolePunchCoordinate from external_addr)
      | HolePunchResult peer_id success \<Rightarrow> ActForwardTo peer_id (HolePunchResult peer_id success)
      | RegisterAck _ _ _ \<Rightarrow> ActNothing
      | Peers _ \<Rightarrow> ActNothing
      | PeerConnected _ \<Rightarrow> ActNothing
      | PeerDisconnected _ \<Rightarrow> ActNothing
      | HolePunchCoordinate _ _ \<Rightarrow> ActNothing
      | ErrorMsg _ _ \<Rightarrow> ActNothing)"

definition dispatch :: "session \<Rightarrow> relay_message \<Rightarrow> action" where
  "dispatch s msg =
     (case msg of
        Register peer_id network_id protocol_version listen_addrs \<Rightarrow>
          ActRegister peer_id network_id protocol_version listen_addrs
      | _ \<Rightarrow>
        if s_peer_id s = None
        then ActError NOT_REGISTERED ''register before sending other messages (RLY-001)''
        else dispatch_registered (unwrap_or_default (s_peer_id s)) msg)"

datatype 'm pex_action =
    PaNotRegistered | PaHandshake 'm | PaData 'm | PaBadFrame | PaIgnorePreHandshake

definition pex_dispatch :: "('m \<Rightarrow> bool) \<Rightarrow> session \<Rightarrow> 'm option \<Rightarrow> 'm pex_action" where
  "pex_dispatch is_handshake s decoded =
     (if s_peer_id s = None then PaNotRegistered
      else (case decoded of
              Some msg \<Rightarrow>
                if is_handshake msg \<and> \<not> pex_active s then PaHandshake msg
                else if pex_active s then PaData msg
                else PaIgnorePreHandshake
            | None \<Rightarrow> if pex_active s then PaBadFrame else PaIgnorePreHandshake))"

section \<open>Source address\<close>

text \<open>\<open>timed_out\<close> tells whether the header read ran into \<^verbatim>\<open>PROXY_HEADER_TIMEOUT\<close>.\<close>

definition resolve_source ::
  "relay_server_config \<Rightarrow> transport \<Rightarrow> socket_addr \<Rightarrow> bool \<Rightarrow> (prefixed_stream \<times> socket_addr) option" where
  "resolve_source config stream peer_addr timed_out =
     (if \<not> trusts (cfg_trusted_proxies config) (sa_ip peer_addr)
      then Some (prefixed_new [] stream, peer_addr)
      else if timed_out then None
      else (case read_source_addr stream of
              Some (declared, s) \<Rightarrow>
                Some (s, case declared of Some a \<Rightarrow> a | None \<Rightarrow> peer_addr)
            | None \<Rightarrow> None))"

section \<open>Sending\<close>

text \<open>A connection's identifier names its outbound channel, its PEX channel and its activity cell.\<close>

type_synonym conn_id = nat

definition reply :: "('e, 'm) relay_state \<Rightarrow> conn_id \<Rightarrow> relay_message \<Rightarrow> ('e, 'm) relay_state" where
  "reply st c m = st\<lparr>outs := try_send (outs st) c m\<rparr>"

definition notify ::
  "('e, 'm) relay_state \<Rightarrow> (string \<times> chan_id) list \<Rightarrow> relay_message \<Rightarrow> ('e, 'm) relay_state" where
  "notify st targets m = st\<lparr>outs := send_each (outs st) (map (\<lambda>(_, tx). (tx, m)) targets)\<rparr>"

definition refuse_register ::
  "('e, 'm) relay_state \<Rightarrow> conn_id \<Rightarrow> u32 \<Rightarrow> string \<Rightarrow> nat \<Rightarrow> ('e, 'm) relay_state" where
  "refuse_register st c code message connected_peers =
     reply (reply st c (RegisterAck False message connected_peers)) c (ErrorMsg code message)"

section \<open>Registration\<close>

text \<open>
  \<^verbatim>\<open>register_peer\<close> in its three sections: the abuse checks, the critical section on the registry with
  the messages sent right after it, and the mirror into PEX with the session update. \<open>None\<close> in
  the first and \<open>False\<close> in the second mean a refusal, after which the connection closes.
\<close>

definition register_admit ::
  "('e, 'm) relay_state \<Rightarrow> conn_id \<Rightarrow> ip_addr \<Rightarrow> u64 \<Rightarrow> u64 \<Rightarrow> reg_slot option \<times> ('e, 'm) relay_state" where
  "register_admit st c ip now_rate now_strike =
     (let connected_now = unat (connected st);
          (allowed, a1) = allow_registration (st_policy st) (st_abuse st) ip now_rate
      in if \<not> allowed then
           (None, refuse_register (st\<lparr>st_abuse := record_strike (st_policy st) a1 ip now_strike\<rparr>)
              c RATE_LIMITED ''registration rate limit exceeded for your address'' connected_now)
         else
           (case try_acquire_registration (st_policy st) a1 ip of
              (None, a2) \<Rightarrow>
                (None, refuse_register (st\<lparr>st_abuse := record_strike (st_policy st) a2 ip now_strike\<rparr>)
                   c RATE_LIMITED ''too many concurrent registrations from your address'' connected_now)
            | (Some slot, a2) \<Rightarrow> (Some slot, st\<lparr>st_abuse := a2\<rparr>)))"

definition register_commit ::
  "('e, 'm) env \<Rightarrow> ('e, 'm) relay_state \<Rightarrow> conn_id \<Rightarrow> string \<Rightarrow> string \<Rightarrow> u32 \<Rightarrow> socket_addr list
     \<Rightarrow> ip_addr \<Rightarrow> string option \<Rightarrow> u64 \<Rightarrow> bool \<times> ('e, 'm) relay_state" where
  "register_commit env st c peer_id network_id protocol_version listen_addrs ip verified now_unix =
     (let reg = st_registry st in
      if (case verified of Some v \<Rightarrow> v \<noteq> peer_id | None \<Rightarrow> False) then
        (False, refuse_register st c IDENTITY_MISMATCH
           ''peer_id does not match the mTLS client certificate presented'' (registry_len reg))
      else if registry_len reg \<ge> max_connections (st_config st) then
        (False, refuse_register st c CAPACITY ''relay at capacity'' (registry_len reg))
      else
        let info = (relay_peer_info_new peer_id network_id protocol_version now_unix)
                     \<lparr>pi_addresses := resolve_dialable (e_family_of env) listen_addrs ip\<rparr>
        in case register (is_closed (outs st)) reg peer_id network_id info c c of
             (Occupied, _) \<Rightarrow>
               (False, refuse_register st c ID_IN_USE
                  ''peer_id already registered by a live connection'' (registry_len reg))
           | (outcome, reg') \<Rightarrow>
               let st1 = st\<lparr>st_registry := reg',
                            connected := (if outcome = Registered then connected st + 1 else connected st)\<rparr>;
                   targets = broadcast_targets reg' peer_id network_id []
               in (True, notify (reply st1 c (RegisterAck True ''registered'' (registry_len reg')))
                           targets (PeerConnected info)))"

definition register_mirror ::
  "('e, 'm) env \<Rightarrow> ('e, 'm) relay_state \<Rightarrow> session \<Rightarrow> conn_id \<Rightarrow> string \<Rightarrow> string \<Rightarrow> socket_addr
     \<Rightarrow> reg_slot option \<Rightarrow> reg_slot \<Rightarrow> u64 \<Rightarrow> ('e, 'm) relay_state \<times> session \<times> reg_slot option" where
  "register_mirror env st s c peer_id network_id peer_addr held acquired now =
     (let st1 = st\<lparr>st_pex := on_register (e_engine env) (st_pex st) peer_id network_id peer_addr c now\<rparr>;
          st2 = (case held of
                   Some old \<Rightarrow> st1\<lparr>st_abuse := drop_reg_slot old (st_abuse st1)\<rparr>
                 | None \<Rightarrow> st1)
      in (st2, s\<lparr>s_peer_id := Some peer_id, s_network_id := Some network_id\<rparr>, Some acquired))"

record reg_request =
  rq_peer_id :: string
  rq_network_id :: string
  rq_protocol_version :: u32
  rq_listen_addrs :: "socket_addr list"

record reg_clocks =
  rc_rate :: u64
  rc_strike :: u64
  rc_unix :: u64
  rc_pex :: u64

definition register_peer ::
  "('e, 'm) env \<Rightarrow> ('e, 'm) relay_state \<Rightarrow> session \<Rightarrow> conn_id \<Rightarrow> reg_request \<Rightarrow> socket_addr
     \<Rightarrow> string option \<Rightarrow> reg_slot option \<Rightarrow> reg_clocks
     \<Rightarrow> bool \<times> ('e, 'm) relay_state \<times> session \<times> reg_slot option" where
  "register_peer env st s c rq peer_addr verified held clk =
     (case register_admit st c (sa_ip peer_addr) (rc_rate clk) (rc_strike clk) of
        (None, st1) \<Rightarrow> (False, st1, s, held)
      | (Some slot, st1) \<Rightarrow>
          (case register_commit env st1 c (rq_peer_id rq) (rq_network_id rq) (rq_protocol_version rq)
                  (rq_listen_addrs rq) (sa_ip peer_addr) verified (rc_unix clk) of
             (False, st2) \<Rightarrow> (False, st2\<lparr>st_abuse := drop_reg_slot slot (st_abuse st2)\<rparr>, s, held)
           | (True, st2) \<Rightarrow>
               (True, register_mirror env st2 s c (rq_peer_id rq) (rq_network_id rq) peer_addr held slot
                  (rc_pex clk))))"

section \<open>Forwarding and removal\<close>

definition forward_to ::
  "('e, 'm) relay_state \<Rightarrow> session \<Rightarrow> conn_id \<Rightarrow> string \<Rightarrow> relay_message \<Rightarrow> ('e, 'm) relay_state" where
  "forward_to st s c to msg =
     (case s_network_id s of
        None \<Rightarrow> st
      | Some network_id \<Rightarrow>
          (case sender_in_network (st_registry st) to network_id of
             Some tx \<Rightarrow> reply st tx msg
           | None \<Rightarrow> reply st c (ErrorMsg PEER_NOT_FOUND (''peer '' @ to @ '' not connected to this relay''))))"

definition broadcast ::
  "('e, 'm) relay_state \<Rightarrow> session \<Rightarrow> string \<Rightarrow> string list \<Rightarrow> relay_message \<Rightarrow> ('e, 'm) relay_state" where
  "broadcast st s from exclude msg =
     (case s_network_id s of
        None \<Rightarrow> st
      | Some network_id \<Rightarrow> notify st (broadcast_targets (st_registry st) from network_id exclude) msg)"

definition remove_locked ::
  "('e, 'm) relay_state \<Rightarrow> string \<Rightarrow> string \<Rightarrow> (string \<times> chan_id) list option \<times> ('e, 'm) relay_state" where
  "remove_locked st peer_id network_id =
     (case unregister (st_registry st) peer_id of
        (Some _, reg) \<Rightarrow>
          (Some (broadcast_targets reg peer_id network_id []),
           st\<lparr>st_registry := reg, connected := connected st - 1\<rparr>)
      | (None, reg) \<Rightarrow> (None, st\<lparr>st_registry := reg\<rparr>))"

text \<open>The messages and the PEX mirror that follow a removal, outside the registry lock.\<close>

definition mirror_departure ::
  "('e, 'm) env \<Rightarrow> ('e, 'm) relay_state \<Rightarrow> string \<times> string \<times> (string \<times> chan_id) list \<Rightarrow> ('e, 'm) relay_state" where
  "mirror_departure env st = (\<lambda>(peer_id, network_id, targets).
     (let st1 = notify st targets (PeerDisconnected peer_id)
      in st1\<lparr>st_pex := on_unregister (e_engine env) (st_pex st1) peer_id network_id\<rparr>))"

definition deregister :: "('e, 'm) env \<Rightarrow> ('e, 'm) relay_state \<Rightarrow> session \<Rightarrow> ('e, 'm) relay_state" where
  "deregister env st s =
     (case (s_peer_id s, s_network_id s) of
        (Some peer_id, Some network_id) \<Rightarrow>
          (case remove_locked st peer_id network_id of
             (None, st1) \<Rightarrow> st1
           | (Some targets, st1) \<Rightarrow> mirror_departure env st1 (peer_id, network_id, targets))
      | _ \<Rightarrow> st)"

fun prune ::
  "('e, 'm) relay_state \<Rightarrow> (string \<times> string) list
     \<Rightarrow> (string \<times> string \<times> (string \<times> chan_id) list) list \<times> ('e, 'm) relay_state" where
  "prune st [] = ([], st)"
| "prune st ((peer_id, network_id) # victims) =
     (case remove_locked st peer_id network_id of
        (None, st1) \<Rightarrow> prune st1 victims
      | (Some targets, st1) \<Rightarrow>
          (case prune st1 victims of
             (rest, st2) \<Rightarrow> ((peer_id, network_id, targets) # rest, st2)))"

text \<open>The critical section of the sweep, and the whole sweep.\<close>

definition sweep_registry ::
  "('e, 'm) relay_state \<Rightarrow> u64
     \<Rightarrow> (string \<times> string \<times> (string \<times> chan_id) list) list \<times> ('e, 'm) relay_state" where
  "sweep_registry st now =
     prune st (dead_or_stale (is_closed (outs st)) (cells st) (st_registry st) now
                 (of_nat (as_secs (liveness_deadline (st_config st)))))"

definition sweep_once :: "('e, 'm) env \<Rightarrow> ('e, 'm) relay_state \<Rightarrow> u64 \<Rightarrow> ('e, 'm) relay_state" where
  "sweep_once env st now =
     (let (pruned, st1) = sweep_registry st now in foldl (mirror_departure env) st1 pruned)"

section \<open>PEX frames\<close>

definition pex_replies :: "('e, 'm) relay_state \<Rightarrow> conn_id \<Rightarrow> 'm list \<Rightarrow> ('e, 'm) relay_state" where
  "pex_replies st c ms = st\<lparr>pexs := send_each (pexs st) (map (\<lambda>m. (c, m)) ms)\<rparr>"

definition handle_pex_frame ::
  "('e, 'm) env \<Rightarrow> ('e, 'm) relay_state \<Rightarrow> session \<Rightarrow> conn_id \<Rightarrow> socket_addr \<Rightarrow> u8 list \<Rightarrow> u64
     \<Rightarrow> ('e, 'm) relay_state \<times> session" where
  "handle_pex_frame env st s c peer_addr frame now =
     (let peer_id = unwrap_or_default (s_peer_id s); network_id = unwrap_or_default (s_network_id s)
      in case pex_dispatch (e_is_handshake env) s (e_pex_decode env frame) of
           PaNotRegistered \<Rightarrow>
             (reply st c (ErrorMsg NOT_REGISTERED ''register before sending PEX (RLY-001)''), s)
         | PaHandshake msg \<Rightarrow>
             (let p1 = on_register (e_engine env) (st_pex st) peer_id network_id peer_addr c now;
                  (replies, p2) = on_node_handshake (e_engine env) p1 peer_id network_id msg now
              in (pex_replies (st\<lparr>st_pex := p2\<rparr>) c replies, s\<lparr>pex_active := True\<rparr>))
         | PaData msg \<Rightarrow>
             (let (replies, p) = on_node_message (e_engine env) (st_pex st) peer_id network_id msg now
              in (pex_replies (st\<lparr>st_pex := p\<rparr>) c replies, s))
         | PaBadFrame \<Rightarrow>
             (let (replies, p) = on_node_bad_frame (e_engine env) (st_pex st) peer_id network_id now
              in (pex_replies (st\<lparr>st_pex := p\<rparr>) c replies, s))
         | PaIgnorePreHandshake \<Rightarrow> (st, s))"

section \<open>A connection's life\<close>

record conn =
  c_id :: conn_id
  c_addr :: socket_addr
  c_verified :: "string option"
  c_ip_slot :: conn_slot
  c_session :: session
  c_limiter :: per_conn_limiter
  c_reg_slot :: "reg_slot option"

text \<open>
  The beginning of \<^verbatim>\<open>handle_connection\<close>: the ban and the read of the open-connection counter, then
  the guard's increment and the per-source cap. Nothing holds a lock from one to the other.
  \<open>None\<close> refuses the connection, and whatever was taken is given back.
\<close>

definition accept_gate :: "('e, 'm) relay_state \<Rightarrow> ip_addr \<Rightarrow> u64 \<Rightarrow> bool \<times> ('e, 'm) relay_state" where
  "accept_gate st ip now_ban =
     (let (banned, a1) = is_banned (st_policy st) (st_abuse st) ip now_ban;
          st1 = st\<lparr>st_abuse := a1\<rparr>
      in if banned then (False, st1)
         else if unat (open_connections st1) \<ge> max_connections (st_config st1) then (False, st1)
         else (True, st1))"

definition accept_slot ::
  "('e, 'm) relay_state \<Rightarrow> ip_addr \<Rightarrow> u64 \<Rightarrow> conn_slot option \<times> ('e, 'm) relay_state" where
  "accept_slot st ip now_strike =
     (let st2 = open_guard_acquire st
      in case try_acquire_conn (st_policy st2) (st_abuse st2) ip of
           (Some slot, a2) \<Rightarrow> (Some slot, st2\<lparr>st_abuse := a2\<rparr>)
         | (None, a2) \<Rightarrow>
             (None, open_guard_drop
                      (st2\<lparr>st_abuse := record_strike (st_policy st2) a2 ip now_strike\<rparr>)))"

definition accept_checks ::
  "('e, 'm) relay_state \<Rightarrow> ip_addr \<Rightarrow> u64 \<Rightarrow> u64 \<Rightarrow> conn_slot option \<times> ('e, 'm) relay_state" where
  "accept_checks st ip now_ban now_strike =
     (case accept_gate st ip now_ban of
        (False, st1) \<Rightarrow> (None, st1)
      | (True, st1) \<Rightarrow> accept_slot st1 ip now_strike)"

text \<open>What a connection drops when it ends before the WebSocket stage, and at its very end.\<close>

definition release_conn :: "('e, 'm) relay_state \<Rightarrow> conn_slot \<Rightarrow> ('e, 'm) relay_state" where
  "release_conn st slot = open_guard_drop (st\<lparr>st_abuse := drop_conn_slot slot (st_abuse st)\<rparr>)"

text \<open>After the WebSocket handshake: the channels, the activity cell, the session, the limiter.\<close>

definition ws_start ::
  "('e, 'm) relay_state \<Rightarrow> conn_id \<Rightarrow> socket_addr \<Rightarrow> string option \<Rightarrow> conn_slot \<Rightarrow> u64 \<Rightarrow> u64
     \<Rightarrow> ('e, 'm) relay_state \<times> conn" where
  "ws_start st c peer_addr verified ip_slot now_live now =
     (let queue_cap = outbound_queue_capacity (st_config st)
      in (st\<lparr>outs := chan_new (outs st) c queue_cap, pexs := chan_new (pexs st) c queue_cap,
             cells := (cells st)(c := now_live)\<rparr>,
          \<lparr>c_id = c, c_addr = peer_addr, c_verified = verified, c_ip_slot = ip_slot,
           c_session = session_default, c_limiter = per_conn_limiter_new (st_config st) now,
           c_reg_slot = None\<rparr>))"

record frame_clocks =
  fc_live :: u64
  fc_admit :: u64
  fc_strike :: u64
  fc_pex :: u64
  fc_reg :: reg_clocks

text \<open>What happens to a frame after it passed the limiter; \<open>False\<close> leaves the loop.\<close>

definition perform ::
  "('e, 'm) env \<Rightarrow> ('e, 'm) relay_state \<Rightarrow> conn \<Rightarrow> action \<Rightarrow> reg_clocks
     \<Rightarrow> bool \<times> ('e, 'm) relay_state \<times> conn" where
  "perform env st k act clk =
     (case act of
        ActRegister peer_id network_id protocol_version listen_addrs \<Rightarrow>
          (case register_peer env st (c_session k) (c_id k)
                  \<lparr>rq_peer_id = peer_id, rq_network_id = network_id,
                   rq_protocol_version = protocol_version, rq_listen_addrs = listen_addrs\<rparr>
                  (c_addr k) (c_verified k) (c_reg_slot k) clk of
             (ok, st1, s, slot) \<Rightarrow> (ok, st1, k\<lparr>c_session := s, c_reg_slot := slot\<rparr>))
      | ActForwardTo to msg \<Rightarrow> (True, forward_to st (c_session k) (c_id k) to msg, k)
      | ActBroadcast from exclude msg \<Rightarrow> (True, broadcast st (c_session k) from exclude msg, k)
      | ActReplyToSelf replies \<Rightarrow>
          (True, st\<lparr>outs := send_each (outs st) (map (\<lambda>m. (c_id k, m)) replies)\<rparr>, k)
      | ActError code message \<Rightarrow> (True, reply st (c_id k) (ErrorMsg code message), k)
      | ActClose \<Rightarrow> (False, st, k)
      | ActNothing \<Rightarrow> (True, st, k))"

definition record_dht_answer :: "('e, 'm) relay_state \<Rightarrow> session \<Rightarrow> relay_message \<Rightarrow> ('e, 'm) relay_state" where
  "record_dht_answer st s msg =
     (case msg of
        DhtRecords records _ truncated \<Rightarrow>
          if s_peer_id s \<noteq> None
          then st\<lparr>st_dht_answers := st_dht_answers st @ [\<lparr>pa_records = records, pa_truncated = truncated\<rparr>]\<rparr>
          else st
      | _ \<Rightarrow> st)"

definition handle_message ::
  "('e, 'm) env \<Rightarrow> ('e, 'm) relay_state \<Rightarrow> conn \<Rightarrow> relay_message \<Rightarrow> reg_clocks
     \<Rightarrow> bool \<times> ('e, 'm) relay_state \<times> conn" where
  "handle_message env st k msg clk =
     (let st1 = record_dht_answer (record_relayed st msg) (c_session k) msg
      in case msg of
           GetPeers network_id \<Rightarrow>
             (let filt = (case network_id of Some n \<Rightarrow> Some n | None \<Rightarrow> s_network_id (c_session k))
              in (True, reply st1 (c_id k) (Peers (peers (st_registry st1) filt)), k))
         | _ \<Rightarrow> perform env st1 k (dispatch (c_session k) msg) clk)"

text \<open>The body of the read loop on a text or binary frame.\<close>

definition handle_frame ::
  "('e, 'm) env \<Rightarrow> ('e, 'm) relay_state \<Rightarrow> conn \<Rightarrow> u8 list \<Rightarrow> frame_clocks
     \<Rightarrow> bool \<times> ('e, 'm) relay_state \<times> conn" where
  "handle_frame env st k frame clk =
     (let st1 = st\<lparr>cells := (cells st)(c_id k := fc_live clk)\<rparr>;
          (verdict, l) = admit (c_limiter k) (length frame) (fc_admit clk);
          k1 = k\<lparr>c_limiter := l\<rparr>
      in if verdict = Disconnect then
           (False, st1\<lparr>st_abuse := record_strike (st_policy st1) (st_abuse st1) (sa_ip (c_addr k1))
                        (fc_strike clk)\<rparr>, k1)
         else if is_pex_frame (e_peek env) frame then
           (let (st2, s) = handle_pex_frame env st1 (c_session k1) (c_id k1) (c_addr k1) frame (fc_pex clk)
            in (True, st2, k1\<lparr>c_session := s\<rparr>))
         else (case e_decode env frame of
                 None \<Rightarrow> (True, reply st1 (c_id k1) (ErrorMsg BAD_MESSAGE ''invalid relay JSON''), k1)
               | Some msg \<Rightarrow> handle_message env st1 k1 msg (fc_reg clk)))"

text \<open>The deadline that holds a connection before and after registration.\<close>

definition read_deadline :: "relay_server_config \<Rightarrow> session \<Rightarrow> duration" where
  "read_deadline config s = (if s_peer_id s \<noteq> None then idle_timeout config else register_timeout config)"

text \<open>
  The end of a connection: \<^verbatim>\<open>deregister\<close>, then the writer drains and ends (the receivers go
  away), then the slots held by the task are dropped.
\<close>

definition finish_conn :: "('e, 'm) relay_state \<Rightarrow> conn \<Rightarrow> ('e, 'm) relay_state" where
  "finish_conn st k =
     (let st1 = st\<lparr>outs := chan_close (outs st) (c_id k), pexs := chan_close (pexs st) (c_id k)\<rparr>;
          st2 = (case c_reg_slot k of
                   Some slot \<Rightarrow> st1\<lparr>st_abuse := drop_reg_slot slot (st_abuse st1)\<rparr>
                 | None \<Rightarrow> st1)
      in release_conn st2 (c_ip_slot k))"

section \<open>Background loops\<close>

definition pex_housekeeping_tick :: "('e, 'm) env \<Rightarrow> ('e, 'm) relay_state \<Rightarrow> u64 \<Rightarrow> ('e, 'm) relay_state" where
  "pex_housekeeping_tick env st now =
     (let (sends, p) = tick (e_engine env) (st_pex st) now
      in st\<lparr>st_pex := p, pexs := send_each (pexs st) sends\<rparr>)"

definition dht_sweep_ask :: "('e, 'm) relay_state \<Rightarrow> ('e, 'm) relay_state" where
  "dht_sweep_ask st = notify st (all_senders (st_registry st)) (GetDhtRecords DHT_MAX_KEYS_PER_PEER)"

definition dht_sweep_build :: "('e, 'm) relay_state \<Rightarrow> u64 \<Rightarrow> ('e, 'm) relay_state" where
  "dht_sweep_build st now =
     st\<lparr>st_dht_view := build_dht_view (st_dht_answers st) now, st_dht_answers := []\<rparr>"

definition health_sweep_tick :: "('e, 'm) env \<Rightarrow> ('e, 'm) relay_state \<Rightarrow> u64 \<Rightarrow> ('e, 'm) relay_state" where
  "health_sweep_tick env st now_live = sweep_once env st now_live"

section \<open>What a step leaves alone\<close>

lemma reply_frame [simp]:
  "st_registry (reply st c m) = st_registry st" "st_pex (reply st c m) = st_pex st"
  "connected (reply st c m) = connected st" "open_connections (reply st c m) = open_connections st"
  "st_config (reply st c m) = st_config st" "st_policy (reply st c m) = st_policy st"
  "st_abuse (reply st c m) = st_abuse st" "pexs (reply st c m) = pexs st"
  "cells (reply st c m) = cells st" "st_dht_answers (reply st c m) = st_dht_answers st"
  "st_dht_view (reply st c m) = st_dht_view st"
  "outs (reply st c m) = try_send (outs st) c m"
  by (simp_all add: reply_def)

lemma notify_frame [simp]:
  "st_registry (notify st ts m) = st_registry st" "st_pex (notify st ts m) = st_pex st"
  "connected (notify st ts m) = connected st" "open_connections (notify st ts m) = open_connections st"
  "st_config (notify st ts m) = st_config st" "st_policy (notify st ts m) = st_policy st"
  "st_abuse (notify st ts m) = st_abuse st" "pexs (notify st ts m) = pexs st"
  "cells (notify st ts m) = cells st" "st_dht_answers (notify st ts m) = st_dht_answers st"
  "st_dht_view (notify st ts m) = st_dht_view st"
  "outs (notify st ts m) = send_each (outs st) (map (\<lambda>(_, tx). (tx, m)) ts)"
  by (simp_all add: notify_def)

lemma refuse_frame [simp]:
  "st_registry (refuse_register st c code t n) = st_registry st"
  "st_pex (refuse_register st c code t n) = st_pex st"
  "connected (refuse_register st c code t n) = connected st"
  "open_connections (refuse_register st c code t n) = open_connections st"
  "st_config (refuse_register st c code t n) = st_config st"
  "st_policy (refuse_register st c code t n) = st_policy st"
  "st_abuse (refuse_register st c code t n) = st_abuse st"
  "pexs (refuse_register st c code t n) = pexs st" "cells (refuse_register st c code t n) = cells st"
  "outs (refuse_register st c code t n) =
     send_each (outs st) [(c, RegisterAck False t n), (c, ErrorMsg code t)]"
  by (simp_all add: refuse_register_def)

end
