(* ===== verification/Stun.thy ===== *)
theory Stun
  imports Server
begin

text \<open>
  \<^verbatim>\<open>src/stun.rs\<close>: the response budget of the STUN listener and one turn of its serve loop. The
  Binding codec belongs to the \<^verbatim>\<open>dig_stun\<close> crate, so the loop takes it as two functions. Shown: over
  any sequence of datagrams in clock order, a Binding Request is answered exactly when both the
  budget of its (canonical) source and the global budget of the second have room, and the answer
  goes to the sender and is counted.
\<close>

record stun_rate_limiter =
  per_ip_capacity :: u32
  global_capacity :: u32
  per_ip :: "(ip_addr, token_bucket) hash_map"
  global_bucket :: token_bucket

definition stun_limiter_new :: "u32 \<Rightarrow> u32 \<Rightarrow> u64 \<Rightarrow> stun_rate_limiter" where
  "stun_limiter_new per_ip_cap global_cap now_ms =
     \<lparr>per_ip_capacity = per_ip_cap, global_capacity = global_cap, per_ip = [],
      global_bucket = token_bucket_new (max global_cap 1) now_ms\<rparr>"

text \<open>\<^verbatim>\<open>bucket_for\<close> returns a mutable reference; here the bucket, with the map that holds it.\<close>

definition bucket_for ::
  "stun_rate_limiter \<Rightarrow> ip_addr \<Rightarrow> u64 \<Rightarrow> token_bucket \<times> stun_rate_limiter" where
  "bucket_for l key now_ms =
     (let m = evict_min_by MAX_TRACKED_IPS tb_last_seen_ms (per_ip l) key;
          m' = hm_upsert key (token_bucket_new (max (per_ip_capacity l) 1) now_ms) id m
      in (the (map_of m' key), l\<lparr>per_ip := m'\<rparr>))"

definition put_bucket :: "stun_rate_limiter \<Rightarrow> ip_addr \<Rightarrow> token_bucket \<Rightarrow> stun_rate_limiter" where
  "put_bucket l key b = l\<lparr>per_ip := AList.update key b (per_ip l)\<rparr>"

text \<open>The peek at a bucket: what it will hold at the given time.\<close>

definition peek_tokens :: "u32 \<Rightarrow> token_bucket \<Rightarrow> u64 \<Rightarrow> u32" where
  "peek_tokens capacity b now_ms = (if tb_window b \<noteq> now_ms div 1000 then capacity else tokens b)"

definition stun_commit :: "stun_rate_limiter \<Rightarrow> ip_addr \<Rightarrow> u64 \<Rightarrow> stun_rate_limiter" where
  "stun_commit l key now_ms =
     (let l1 = (if per_ip_capacity l > 0 then
                  (let (b, l') = bucket_for l key now_ms
                   in put_bucket l' key (snd (token_try_spend b (per_ip_capacity l) now_ms)))
                else l)
      in if global_capacity l1 > 0
         then l1\<lparr>global_bucket := snd (token_try_spend (global_bucket l1) (global_capacity l1) now_ms)\<rparr>
         else l1)"

definition stun_global_gate :: "stun_rate_limiter \<Rightarrow> ip_addr \<Rightarrow> u64 \<Rightarrow> bool \<times> stun_rate_limiter" where
  "stun_global_gate l key now_ms =
     (if global_capacity l > 0 \<and> peek_tokens (global_capacity l) (global_bucket l) now_ms = 0
      then (False, l) else (True, stun_commit l key now_ms))"

definition stun_allow :: "stun_rate_limiter \<Rightarrow> ip_addr \<Rightarrow> u64 \<Rightarrow> bool \<times> stun_rate_limiter" where
  "stun_allow l src now_ms =
     (let key = to_canonical src
      in if per_ip_capacity l > 0 then
           (let (b, l1) = bucket_for l key now_ms
            in if peek_tokens (per_ip_capacity l) b now_ms = 0
               then (False, put_bucket l1 key (b\<lparr>tb_last_seen_ms := now_ms\<rparr>))
               else stun_global_gate l1 key now_ms)
         else stun_global_gate l key now_ms)"

text \<open>One turn of \<^verbatim>\<open>run\<close> on a received datagram: the datagram sent back, if any, with its target.\<close>

definition stun_turn ::
  "(u8 list \<Rightarrow> 't option) \<Rightarrow> ('t \<Rightarrow> socket_addr \<Rightarrow> u8 list) \<Rightarrow> stun_rate_limiter \<Rightarrow> ('e, 'm) relay_state
     \<Rightarrow> u8 list \<Rightarrow> socket_addr \<Rightarrow> u64
     \<Rightarrow> (u8 list \<times> socket_addr) option \<times> stun_rate_limiter \<times> ('e, 'm) relay_state" where
  "stun_turn parse encode l st buf src now_ms =
     (case parse buf of
        None \<Rightarrow> (None, l, st)
      | Some transaction_id \<Rightarrow>
          (case stun_allow l (sa_ip src) now_ms of
             (False, l1) \<Rightarrow> (None, l1, st)
           | (True, l1) \<Rightarrow>
               (Some (encode transaction_id src, src), l1, st\<lparr>stun_requests := stun_requests st + 1\<rparr>)))"

section \<open>What a bucket still holds\<close>

text \<open>A bucket fits a record of grants per second when the grants of its own second and its
  tokens add up to the capacity, and no later second has a grant.\<close>

definition bucket_fits :: "u32 \<Rightarrow> token_bucket \<Rightarrow> u64 \<Rightarrow> (u64 \<Rightarrow> nat) \<Rightarrow> bool" where
  "bucket_fits capacity b latest grants \<longleftrightarrow> tb_window b \<le> latest
     \<and> unat (tokens b) + grants (tb_window b) = unat capacity
     \<and> (\<forall>w. tb_window b < w \<longrightarrow> grants w = 0)"

lemma bucket_fits_new:
  "capacity > 0 \<Longrightarrow> now div 1000 \<le> latest \<Longrightarrow> (\<And>w. grants w = 0)
     \<Longrightarrow> bucket_fits capacity (token_bucket_new (max capacity 1) now) latest grants"
proof -
  assume "capacity > 0"
  then have "max capacity 1 = capacity"
    by (intro max_absorb1) (simp add: word_le_nat_alt word_less_nat_alt Suc_le_eq)
  then show "now div 1000 \<le> latest \<Longrightarrow> (\<And>w. grants w = 0) \<Longrightarrow> ?thesis"
    by (simp add: bucket_fits_def token_bucket_new_def)
qed

lemma bucket_fits_mono:
  "bucket_fits capacity b latest grants \<Longrightarrow> latest \<le> latest' \<Longrightarrow> bucket_fits capacity b latest' grants"
  by (auto simp: bucket_fits_def)

lemma bucket_fits_touch [simp]:
  "bucket_fits capacity (b\<lparr>tb_last_seen_ms := t\<rparr>) = bucket_fits capacity b"
  by (simp add: bucket_fits_def fun_eq_iff)

lemma peek_fits:
  assumes "bucket_fits capacity b latest grants" "latest \<le> now div 1000"
  shows "peek_tokens capacity b now = 0 \<longleftrightarrow> \<not> grants (now div 1000) < unat capacity"
proof (cases "tb_window b = now div 1000")
  case True
  then show ?thesis using assms
    by (auto simp: bucket_fits_def peek_tokens_def simp flip: unat_eq_zero)
next
  case False
  then have "tb_window b < now div 1000" using assms by (auto simp: bucket_fits_def)
  then have "grants (now div 1000) = 0" using assms by (simp add: bucket_fits_def)
  with False show ?thesis
    by (auto simp: peek_tokens_def unat_gt_0)
qed

lemma spend_fits:
  assumes fits: "bucket_fits capacity b latest grants" and le: "latest \<le> now div 1000"
    and some: "peek_tokens capacity b now \<noteq> 0"
  shows "bucket_fits capacity (snd (token_try_spend b capacity now)) (now div 1000)
    (grants(now div 1000 := grants (now div 1000) + 1))"
proof -
  let ?w = "now div 1000"
  have lt: "grants ?w < unat capacity" using peek_fits [OF fits le] some by simp
  have ok: "fst (token_try_spend b capacity now)"
    using some by (auto simp: tb.spend_ok peek_tokens_def Suc_le_eq unat_gt_0 split: if_splits)
  have av: "(if tb_window b = ?w then unat (tokens b) else unat capacity) + grants ?w = unat capacity"
    using fits le by (auto simp: bucket_fits_def dest!: order.not_eq_order_implies_strict [rotated])
  have later: "grants w = 0" if "?w < w" for w
    using that fits le by (auto simp: bucket_fits_def dest: order.strict_trans1 order.trans)
  show ?thesis
    using ok av lt later by (auto simp: bucket_fits_def tb.spend_win tb.spend_avail)
qed

section \<open>Runs\<close>

text \<open>The requests of a run that are answered, and the limiter after it.\<close>

fun stun_run :: "stun_rate_limiter \<Rightarrow> (ip_addr \<times> u64) list \<Rightarrow> (ip_addr \<times> u64) list \<times> stun_rate_limiter" where
  "stun_run l [] = ([], l)"
| "stun_run l ((ip, t) # evs) =
     (let (ok, l1) = stun_allow l ip t; (ans, l2) = stun_run l1 evs
      in (if ok then (ip, t) # ans else ans, l2))"

definition answers_to :: "ip_addr \<Rightarrow> (ip_addr \<times> u64) list \<Rightarrow> u64 \<Rightarrow> nat" where
  "answers_to k ans w = length (filter (\<lambda>(ip, t). to_canonical ip = k \<and> t div 1000 = w) ans)"

definition answers_in :: "(ip_addr \<times> u64) list \<Rightarrow> u64 \<Rightarrow> nat" where
  "answers_in ans w = length (filter (\<lambda>(_, t). t div 1000 = w) ans)"

lemma stun_run_snoc:
  "stun_run l (evs @ [(ip, t)]) =
     (let (ans, l1) = stun_run l evs; (ok, l2) = stun_allow l1 ip t
      in (if ok then ans @ [(ip, t)] else ans, l2))"
  by (induction l evs rule: stun_run.induct) (simp_all add: Let_def split: prod.splits)

lemma answers_snoc:
  "answers_to k (ans @ [(ip, t)]) =
     (if to_canonical ip = k then (answers_to k ans)(t div 1000 := answers_to k ans (t div 1000) + 1)
      else answers_to k ans)"
  "answers_in (ans @ [(ip, t)]) = (answers_in ans)(t div 1000 := answers_in ans (t div 1000) + 1)"
  by (auto simp: answers_to_def answers_in_def fun_eq_iff)

definition per_ip_fits ::
  "u32 \<Rightarrow> (ip_addr, token_bucket) hash_map \<Rightarrow> ip_addr set \<Rightarrow> u64 \<Rightarrow> (ip_addr \<times> u64) list \<Rightarrow> bool" where
  "per_ip_fits pc m seen latest ans \<longleftrightarrow> hm_wf m \<and> hm_keys m \<subseteq> seen
     \<and> (\<forall>k. case map_of m k of
              None \<Rightarrow> answers_to k ans = (\<lambda>_. 0)
            | Some b \<Rightarrow> bucket_fits pc b latest (answers_to k ans))"

lemma per_ip_fits_None:
  assumes "per_ip_fits pc m S w ans" "map_of m k = None"
  shows "answers_to k ans = (\<lambda>_. 0)"
proof -
  from assms(1) have "case map_of m k of None \<Rightarrow> answers_to k ans = (\<lambda>_. 0)
      | Some b \<Rightarrow> bucket_fits pc b w (answers_to k ans)" by (simp add: per_ip_fits_def)
  with assms(2) show ?thesis by simp
qed

lemma per_ip_fits_Some:
  assumes "per_ip_fits pc m S w ans" "map_of m k = Some b"
  shows "bucket_fits pc b w (answers_to k ans)"
proof -
  from assms(1) have "case map_of m k of None \<Rightarrow> answers_to k ans = (\<lambda>_. 0)
      | Some b \<Rightarrow> bucket_fits pc b w (answers_to k ans)" by (simp add: per_ip_fits_def)
  with assms(2) show ?thesis by simp
qed

definition stun_inv ::
  "u32 \<Rightarrow> u32 \<Rightarrow> stun_rate_limiter \<Rightarrow> ip_addr set \<Rightarrow> u64 \<Rightarrow> (ip_addr \<times> u64) list \<Rightarrow> bool" where
  "stun_inv pc gc l seen latest ans \<longleftrightarrow> per_ip_capacity l = pc \<and> global_capacity l = gc
     \<and> (0 < pc \<longrightarrow> per_ip_fits pc (per_ip l) seen latest ans)
     \<and> (0 < gc \<longrightarrow> bucket_fits gc (global_bucket l) latest (answers_in ans))"

lemma bucket_for_fits:
  assumes fits: "per_ip_fits pc (per_ip l) seen latest ans" and pc: "per_ip_capacity l = pc" "0 < pc"
    and le: "latest \<le> now div 1000"
    and few: "finite seen" "card (insert key seen) \<le> MAX_TRACKED_IPS"
    and bf: "bucket_for l key now = (b, l1)"
  shows "bucket_fits pc b (now div 1000) (answers_to key ans)"
    and "per_ip_fits pc (per_ip l1) (insert key seen) (now div 1000) ans"
    and "map_of (per_ip l1) key = Some b"
    and "l1 = l\<lparr>per_ip := per_ip l1\<rparr>"
proof -
  let ?m = "per_ip l"
  have "length ?m < MAX_TRACKED_IPS" if "key \<notin> hm_keys ?m"
  proof -
    have "insert key (hm_keys ?m) \<subseteq> insert key seen" using fits by (auto simp: per_ip_fits_def)
    then have "card (insert key (hm_keys ?m)) \<le> card (insert key seen)"
      using few by (intro card_mono) auto
    with that few fits show ?thesis by (simp add: per_ip_fits_def hm_wf_card)
  qed
  then have noev: "evict_min_by MAX_TRACKED_IPS tb_last_seen_ms ?m key = ?m"
    by (auto simp: evict_min_by_def)
  define d where "d = token_bucket_new (max pc 1) now"
  have b: "b = (case map_of ?m key of None \<Rightarrow> d | Some b \<Rightarrow> b)"
    and l1: "l1 = l\<lparr>per_ip := hm_upsert key d id ?m\<rparr>"
    using bf noev unfolding d_def pc(1) [symmetric] by (auto simp: bucket_for_def Let_def hm_simps)
  show fb: "bucket_fits pc b (now div 1000) (answers_to key ans)"
  proof (cases "map_of ?m key")
    case None
    with fits have z: "answers_to key ans = (\<lambda>_. 0)" by (rule per_ip_fits_None)
    show ?thesis unfolding b d_def None option.case by (rule bucket_fits_new [OF pc(2)]) (simp_all add: z)
  next
    case (Some b0)
    with fits have "bucket_fits pc b0 latest (answers_to key ans)" by (rule per_ip_fits_Some)
    with Some le b show ?thesis by (auto intro: bucket_fits_mono)
  qed
  show "map_of (per_ip l1) key = Some b" by (simp add: l1 b hm_simps)
  show "l1 = l\<lparr>per_ip := per_ip l1\<rparr>" by (simp add: l1)
  have keys: "hm_keys (per_ip l1) \<subseteq> insert key seen"
    using fits by (auto simp: l1 hm_upsert_def dom_update per_ip_fits_def)
  have "case map_of (per_ip l1) k of None \<Rightarrow> answers_to k ans = (\<lambda>_. 0)
        | Some b \<Rightarrow> bucket_fits pc b (now div 1000) (answers_to k ans)" for k
  proof (cases "k = key")
    case True
    with fb show ?thesis by (simp add: l1 hm_simps b)
  next
    case False
    have "case map_of ?m k of None \<Rightarrow> answers_to k ans = (\<lambda>_. 0)
        | Some b \<Rightarrow> bucket_fits pc b latest (answers_to k ans)"
      using fits by (simp add: per_ip_fits_def)
    with False le show ?thesis
      by (auto simp: l1 hm_simps split: option.splits intro: bucket_fits_mono)
  qed
  with keys fits show "per_ip_fits pc (per_ip l1) (insert key seen) (now div 1000) ans"
    by (simp add: per_ip_fits_def l1)
qed

lemma put_bucket_fits:
  assumes "per_ip_fits pc (per_ip l) S w ans" "key \<in> S" "bucket_fits pc b w (answers_to key ans')"
    and "\<And>k. k \<noteq> key \<Longrightarrow> answers_to k ans' = answers_to k ans"
  shows "per_ip_fits pc (per_ip (put_bucket l key b)) S w ans'"
proof -
  have "case map_of (per_ip l) k of None \<Rightarrow> answers_to k ans' = (\<lambda>_. 0)
      | Some b \<Rightarrow> bucket_fits pc b w (answers_to k ans')" if "k \<noteq> key" for k
    unfolding assms(4) [OF that] using assms(1) by (simp add: per_ip_fits_def)
  with assms(1,2,3) show ?thesis
    by (auto simp: per_ip_fits_def put_bucket_def hm_simps dom_update)
qed

lemma stun_inv_mono:
  "stun_inv pc gc l S latest ans \<Longrightarrow> \<not> 0 < pc \<Longrightarrow> latest \<le> w \<Longrightarrow> stun_inv pc gc l S' w ans"
  by (auto simp: stun_inv_def intro: bucket_fits_mono)

lemma stun_commit_inv:
  assumes inv: "stun_inv pc gc l S (now div 1000) ans" and S: "key \<in> S" "finite S" "card S \<le> MAX_TRACKED_IPS"
    and key: "to_canonical ip = key"
    and room: "0 < pc \<Longrightarrow> answers_to key ans (now div 1000) < unat pc"
      "0 < gc \<Longrightarrow> answers_in ans (now div 1000) < unat gc"
  shows "stun_inv pc gc (stun_commit l key now) S (now div 1000) (ans @ [(ip, now)])"
proof -
  let ?w = "now div 1000" and ?ans = "ans @ [(ip, now)]"
  define l1 where "l1 = (if per_ip_capacity l > 0 then
      (let (b, l') = bucket_for l key now
       in put_bucket l' key (snd (token_try_spend b (per_ip_capacity l) now))) else l)"
  have caps: "per_ip_capacity l = pc" "global_capacity l = gc" using inv by (simp_all add: stun_inv_def)
  have l1: "global_bucket l1 = global_bucket l \<and> per_ip_capacity l1 = pc \<and> global_capacity l1 = gc
    \<and> (0 < pc \<longrightarrow> per_ip_fits pc (per_ip l1) S ?w ?ans)"
  proof (cases "0 < pc")
    case True
    obtain b l' where bl: "bucket_for l key now = (b, l')" by force
    have "insert key S = S" using S by auto
    with bucket_for_fits [OF _ caps(1) True order_refl S(2) _ bl, of ans] inv True S
    have b: "bucket_fits pc b ?w (answers_to key ans)" and f: "per_ip_fits pc (per_ip l') S ?w ans"
      and l': "l' = l\<lparr>per_ip := per_ip l'\<rparr>"
      by (simp_all add: stun_inv_def)
    have "peek_tokens pc b now \<noteq> 0" using peek_fits [OF b order_refl] room(1) True by simp
    note spent = spend_fits [OF b order_refl this]
    have "per_ip_fits pc (per_ip (put_bucket l' key (snd (token_try_spend b pc now)))) S ?w ?ans"
      by (rule put_bucket_fits [OF f S(1)]) (use spent key in \<open>auto simp: answers_snoc\<close>)
    moreover have "global_bucket l' = global_bucket l" "per_ip_capacity l' = pc" "global_capacity l' = gc"
      by (subst l', simp add: caps)+
    ultimately show ?thesis using True by (simp add: l1_def caps bl put_bucket_def)
  qed (simp add: l1_def caps)
  have "bucket_fits gc (snd (token_try_spend (global_bucket l) gc now)) ?w (answers_in ?ans)" if "0 < gc"
  proof -
    have b: "bucket_fits gc (global_bucket l) ?w (answers_in ans)" using inv that by (simp add: stun_inv_def)
    have "peek_tokens gc (global_bucket l) now \<noteq> 0"
      using peek_fits [OF b order_refl] room(2) that by simp
    from spend_fits [OF b order_refl this] show ?thesis by (simp add: answers_snoc)
  qed
  moreover have "stun_commit l key now = (if gc > 0
      then l1\<lparr>global_bucket := snd (token_try_spend (global_bucket l) gc now)\<rparr> else l1)"
    using l1 by (simp add: stun_commit_def l1_def [symmetric])
  ultimately show ?thesis using l1 by (simp add: stun_inv_def)
qed

text \<open>The room the two budgets leave.\<close>

definition stun_room :: "u32 \<Rightarrow> u32 \<Rightarrow> ip_addr \<Rightarrow> u64 \<Rightarrow> (ip_addr \<times> u64) list \<Rightarrow> bool" where
  "stun_room pc gc src now ans \<longleftrightarrow>
     (pc = 0 \<or> answers_to (to_canonical src) ans (now div 1000) < unat pc)
     \<and> (gc = 0 \<or> answers_in ans (now div 1000) < unat gc)"

lemma stun_gate_inv:
  assumes inv: "stun_inv pc gc l S (now div 1000) ans"
    and S: "to_canonical ip \<in> S" "finite S" "card S \<le> MAX_TRACKED_IPS"
    and room: "0 < pc \<Longrightarrow> answers_to (to_canonical ip) ans (now div 1000) < unat pc"
    and gate: "stun_global_gate l (to_canonical ip) now = (ok, l')"
  shows "(ok \<longleftrightarrow> stun_room pc gc ip now ans)
    \<and> stun_inv pc gc l' S (now div 1000) (if ok then ans @ [(ip, now)] else ans)"
proof -
  have gc: "global_capacity l = gc" using inv by (simp add: stun_inv_def)
  have "0 < gc \<and> peek_tokens gc (global_bucket l) now = 0 \<longleftrightarrow>
      0 < gc \<and> \<not> answers_in ans (now div 1000) < unat gc"
    using inv peek_fits [of gc "global_bucket l" "now div 1000" "answers_in ans" now]
    by (auto simp: stun_inv_def)
  with gate room stun_commit_inv [OF inv S refl room] inv show ?thesis
    by (auto simp: stun_global_gate_def gc stun_room_def word_gt_0 split: if_splits)
qed

lemma stun_allow_inv:
  assumes inv: "stun_inv pc gc l S latest ans" and le: "latest \<le> now div 1000"
    and few: "finite S" "card (insert (to_canonical ip) S) \<le> MAX_TRACKED_IPS"
    and al: "stun_allow l ip now = (ok, l')"
  shows "(ok \<longleftrightarrow> stun_room pc gc ip now ans)
    \<and> stun_inv pc gc l' (insert (to_canonical ip) S) (now div 1000) (if ok then ans @ [(ip, now)] else ans)"
proof (cases "0 < pc")
  case False
  have pc: "per_ip_capacity l = pc" using inv by (simp add: stun_inv_def)
  from stun_inv_mono [OF inv False le] stun_gate_inv [where S = "insert (to_canonical ip) S" and l = l]
    False few al show ?thesis by (simp add: stun_allow_def pc)
next
  case True
  let ?k = "to_canonical ip" and ?w = "now div 1000"
  have caps: "per_ip_capacity l = pc" "global_capacity l = gc" using inv by (simp_all add: stun_inv_def)
  obtain b l1 where bl: "bucket_for l ?k now = (b, l1)" by force
  have "per_ip_fits pc (per_ip l) S latest ans" using inv True by (simp add: stun_inv_def)
  note bf = bucket_for_fits [OF this caps(1) True le few bl]
  have l1: "global_bucket l1 = global_bucket l" "per_ip_capacity l1 = pc" "global_capacity l1 = gc"
    by (subst bf(4), simp add: caps)+
  have inv1: "stun_inv pc gc l1 (insert ?k S) ?w ans"
    using inv bf(2) le by (auto simp: stun_inv_def l1 intro: bucket_fits_mono)
  note peek = peek_fits [OF bf(1) order_refl]
  show ?thesis
  proof (cases "peek_tokens pc b now = 0")
    case z: True
    then have "ok = False" "l' = put_bucket l1 ?k (b\<lparr>tb_last_seen_ms := now\<rparr>)"
      using al True by (simp_all add: stun_allow_def caps bl)
    moreover have "per_ip_fits pc (per_ip (put_bucket l1 ?k (b\<lparr>tb_last_seen_ms := now\<rparr>))) (insert ?k S) ?w ans"
      by (rule put_bucket_fits [OF bf(2)]) (simp_all add: bf(1))
    moreover have "\<not> stun_room pc gc ip now ans" using z peek True by (simp add: stun_room_def word_gt_0)
    ultimately show ?thesis using inv1 by (simp add: stun_inv_def put_bucket_def)
  next
    case False
    then have "stun_global_gate l1 ?k now = (ok, l')"
      using al True by (simp add: stun_allow_def caps bl)
    with stun_gate_inv [OF inv1] False peek few show ?thesis by simp
  qed
qed

lemma stun_run_inv:
  assumes "sorted (t0 # map snd evs)"
    and "card ((\<lambda>(ip, _). to_canonical ip) ` set evs) \<le> MAX_TRACKED_IPS"
    and "stun_run (stun_limiter_new pc gc t0) evs = (ans, l)"
  shows "stun_inv pc gc l ((\<lambda>(ip, _). to_canonical ip) ` set evs)
    (last (t0 # map snd evs) div 1000) ans"
  using assms
proof (induction evs arbitrary: ans l rule: rev_induct)
  case Nil
  then show ?case
    by (auto simp: stun_inv_def stun_limiter_new_def per_ip_fits_def answers_to_def fun_eq_iff
        answers_in_def intro!: bucket_fits_new)
next
  case (snoc ev evs)
  obtain ip t where ev: "ev = (ip, t)" by force
  let ?S = "(\<lambda>(ip, _). to_canonical ip) ` set evs"
  obtain ans0 l0 where r: "stun_run (stun_limiter_new pc gc t0) evs = (ans0, l0)" by force
  obtain ok l1 where al: "stun_allow l0 ip t = (ok, l1)" by force
  have S: "(\<lambda>(ip, _). to_canonical ip) ` set (evs @ [ev]) = insert (to_canonical ip) ?S" by (simp add: ev)
  have fin: "finite ?S" by simp
  have "card ?S \<le> card (insert (to_canonical ip) ?S)" by (rule card_insert_le)
  then have inv: "stun_inv pc gc l0 ?S (last (t0 # map snd evs) div 1000) ans0"
    using snoc.IH [OF _ _ r] snoc.prems(1,2) unfolding S by (simp add: sorted_append)
  have "last (t0 # map snd evs) \<le> t"
    using snoc.prems(1) by (auto simp: sorted_append ev last_map dest: last_in_set)
  then have le: "last (t0 # map snd evs) div 1000 \<le> t div 1000"
    by (simp add: word_le_nat_alt unat_div div_le_mono)
  have "card (insert (to_canonical ip) ?S) \<le> MAX_TRACKED_IPS" using snoc.prems(2) unfolding S .
  note step = stun_allow_inv [OF inv le fin this al]
  have "ans = (if ok then ans0 @ [(ip, t)] else ans0)" "l = l1"
    using snoc.prems(3) by (simp_all add: ev stun_run_snoc r al split: if_splits)
  then show ?case unfolding S using conjunct2 [OF step] by (simp add: ev split del: if_split)
qed

text \<open>C26. Over any sequence of Binding Requests in clock order from at most \<^verbatim>\<open>MAX_TRACKED_IPS\<close>
  sources, the next datagram is answered exactly when it is a Binding Request and both budgets
  have room: fewer than \<^verbatim>\<open>per_ip\<close> answers to the same canonical source, and fewer than \<^verbatim>\<open>global\<close>
  answers in total, in the same second (a zero budget is no limit). The answer is the encoded
  response, goes to the sender only, and moves the counter by one; otherwise nothing is sent and
  the counter stays.\<close>

theorem stun_turn_exact:
  assumes clock: "sorted (t0 # map snd evs @ [now])"
    and few: "card ((\<lambda>(ip, _). to_canonical ip) ` set (evs @ [(sa_ip src, now)])) \<le> MAX_TRACKED_IPS"
    and run: "stun_run (stun_limiter_new pc gc t0) evs = (ans, l)"
    and turn: "stun_turn parse encode l st buf src now = (out, l', st')"
  shows "(case parse buf of
      Some tid \<Rightarrow>
        if stun_room pc gc (sa_ip src) now ans
        then out = Some (encode tid src, src) \<and> st' = st\<lparr>stun_requests := stun_requests st + 1\<rparr>
        else out = None \<and> st' = st
    | None \<Rightarrow> out = None \<and> l' = l \<and> st' = st)"
proof -
  let ?S = "(\<lambda>(ip, _). to_canonical ip) ` set evs"
  have S: "(\<lambda>(ip, _). to_canonical ip) ` set (evs @ [(sa_ip src, now)]) = insert (to_canonical (sa_ip src)) ?S"
    by simp
  have fin: "finite ?S" by simp
  have few': "card (insert (to_canonical (sa_ip src)) ?S) \<le> MAX_TRACKED_IPS" using few unfolding S .
  have "card ?S \<le> card (insert (to_canonical (sa_ip src)) ?S)" by (rule card_insert_le)
  then have inv: "stun_inv pc gc l ?S (last (t0 # map snd evs) div 1000) ans"
    using stun_run_inv [OF _ _ run] clock few' by (auto simp: sorted_append)
  have "last (t0 # map snd evs) \<le> now"
    using clock by (auto simp: sorted_append last_map dest: last_in_set)
  then have le: "last (t0 # map snd evs) div 1000 \<le> now div 1000"
    by (simp add: word_le_nat_alt unat_div div_le_mono)
  obtain ok l1 where al: "stun_allow l (sa_ip src) now = (ok, l1)" by force
  from stun_allow_inv [OF inv le fin few' al] turn al show ?thesis
    by (cases ok) (auto simp: stun_turn_def split: option.splits)
qed

text \<open>One answer per second and source: the second request of a source, from its mapped address,
  gets none.\<close>

theorem stun_turn_exact_witness:
  "fst (stun_turn (\<lambda>b. if b = [0, 1] then Some () else None) (\<lambda>_ a. ip_octets (sa_ip a))
     (snd (stun_run (stun_limiter_new 1 1000 5000) [(V4 7, 5100)]))
     (relay_state_new default_config :: (nat, nat) relay_state) [0, 1] (mk_sa (V6 (v4_mapped 7)) 9) 5200) = None"
proof -
  let ?l = "stun_limiter_new 1 1000 5000"
  obtain ans l where r: "stun_run ?l [(V4 7, 5100)] = (ans, l)" by force
  have room: "stun_room 1 1000 (V4 7) 5100 []" by (simp add: stun_room_def answers_to_def answers_in_def)
  have inv: "stun_inv 1 1000 ?l {} (5000 div 1000) []"
    using stun_run_inv [of 5000 "[]" 1 1000 "[]" ?l] by simp
  obtain ok l1 where al: "stun_allow ?l (V4 7) 5100 = (ok, l1)" by force
  have "ok" using stun_allow_inv [OF inv _ _ _ al] room by (simp add: MAX_TRACKED_IPS_def)
  then have ans: "ans = [(V4 7, 5100)]" using r al by simp
  obtain out l' st' where t: "stun_turn (\<lambda>b. if b = [0, 1] then Some () else None) (\<lambda>_ a. ip_octets (sa_ip a))
     l (relay_state_new default_config :: (nat, nat) relay_state) [0, 1] (mk_sa (V6 (v4_mapped 7)) 9) 5200
       = (out, l', st')"
    using prod_cases3 by blast
  have "\<not> stun_room 1 1000 (V6 (v4_mapped 7)) 5200 ans"
    by (simp add: stun_room_def answers_to_def ans)
  with stun_turn_exact [OF _ _ r t] have "out = None"
    by (simp add: MAX_TRACKED_IPS_def word_le_nat_alt)
  with t r show ?thesis by simp
qed

end
