(* ===== verification/F64.thy ===== *)
theory F64
  imports Complex_Main "HOL-Library.Log_Nat"
begin

text \<open>
  What the globe of \<^verbatim>\<open>src/map.rs\<close> uses of Rust's \<^verbatim>\<open>f64\<close>: IEEE 754 binary64 numbers as rationals with
  infinities and NaN, every operation rounding its exact result to the nearest representable number,
  ties to even, with gradual underflow and overflow to infinity. (The two zeros are one: the
  only code that could tell them apart would divide by one.) Shown: a rational with a short enough
  numerator is not changed by rounding, and how far rounding moves any other.
\<close>

datatype f64 = Fin rat | PosInf | NegInf | NaN

section \<open>Rounding\<close>

text \<open>The exponent of the power of two at or below a positive rational.\<close>

definition binade :: "rat \<Rightarrow> int" where
  "binade x = (let (p, q) = quotient_of x; a = bitlen p - bitlen q
               in if 2 powi a \<le> x then a else a - 1)"

definition round_even :: "rat \<Rightarrow> int" where
  "round_even x =
     (let f = \<lfloor>x\<rfloor>; d = x - of_int f
      in if d < 1/2 then f else if 1/2 < d then f + 1 else if even f then f else f + 1)"

text \<open>The spacing of the numbers around a nonzero rational.\<close>

definition ulp :: "rat \<Rightarrow> rat" where
  "ulp x = 2 powi (max (binade \<bar>x\<bar>) (- 1022) - 52)"

definition rnd :: "rat \<Rightarrow> f64" where
  "rnd x =
     (if x = 0 then Fin 0
      else (let y = of_int (round_even (x / ulp x)) * ulp x
            in if 2 ^ 1024 \<le> y then PosInf else if y \<le> - (2 ^ 1024) then NegInf else Fin y))"

section \<open>Operations\<close>

definition f_inf :: "bool \<Rightarrow> f64" where "f_inf negative = (if negative then NegInf else PosInf)"

fun f_add :: "f64 \<Rightarrow> f64 \<Rightarrow> f64" where
  "f_add (Fin x) (Fin y) = rnd (x + y)"
| "f_add NaN _ = NaN"
| "f_add _ NaN = NaN"
| "f_add PosInf NegInf = NaN"
| "f_add NegInf PosInf = NaN"
| "f_add PosInf _ = PosInf"
| "f_add _ PosInf = PosInf"
| "f_add NegInf _ = NegInf"
| "f_add _ NegInf = NegInf"

fun f_negative :: "f64 \<Rightarrow> bool" where
  "f_negative (Fin x) = (x < 0)"
| "f_negative NegInf = True"
| "f_negative _ = False"

fun f_mul :: "f64 \<Rightarrow> f64 \<Rightarrow> f64" where
  "f_mul (Fin x) (Fin y) = rnd (x * y)"
| "f_mul x y =
     (if x = NaN \<or> y = NaN \<or> x = Fin 0 \<or> y = Fin 0 then NaN else f_inf (f_negative x \<noteq> f_negative y))"

fun f_div :: "f64 \<Rightarrow> f64 \<Rightarrow> f64" where
  "f_div (Fin x) (Fin y) =
     (if y \<noteq> 0 then rnd (x / y) else if x = 0 then NaN else f_inf (x < 0))"
| "f_div (Fin x) NaN = NaN"
| "f_div (Fin x) _ = Fin 0"
| "f_div NaN _ = NaN"
| "f_div x (Fin y) = f_inf (f_negative x \<noteq> (y < 0))"
| "f_div _ _ = NaN"

fun f_floor :: "f64 \<Rightarrow> f64" where
  "f_floor (Fin x) = Fin (of_int \<lfloor>x\<rfloor>)"
| "f_floor x = x"

text \<open>\<^verbatim>\<open>f64::round\<close>: half away from zero.\<close>

fun f_round :: "f64 \<Rightarrow> f64" where
  "f_round (Fin x) = Fin (of_int (if 0 \<le> x then \<lfloor>x + 1/2\<rfloor> else \<lceil>x - 1/2\<rceil>))"
| "f_round x = x"

text \<open>\<^verbatim>\<open>as i64\<close>: toward zero, saturating, NaN to zero.\<close>

fun f_to_i64 :: "f64 \<Rightarrow> int" where
  "f_to_i64 (Fin x) =
     (let t = (if 0 \<le> x then \<lfloor>x\<rfloor> else \<lceil>x\<rceil>) in max (- (2 ^ 63)) (min (2 ^ 63 - 1) t))"
| "f_to_i64 PosInf = 2 ^ 63 - 1"
| "f_to_i64 NegInf = - (2 ^ 63)"
| "f_to_i64 NaN = 0"

definition f_of_i64 :: "int \<Rightarrow> f64" where "f_of_i64 q = rnd (of_int q)"

section \<open>Exactness\<close>

lemma bitlen_powi:
  assumes "0 < n"
  shows "2 powi (bitlen n - 1) \<le> (of_int n :: rat)" and "(of_int n :: rat) < 2 powi bitlen n"
proof -
  have b: "1 \<le> bitlen n" using assms bitlen_eq_zero_iff [of n] bitlen_nonneg [of n] by linarith
  from bitlen_bounds [OF assms] have "(of_int (2 ^ nat (bitlen n - 1)) :: rat) \<le> of_int n"
    and "(of_int n :: rat) < of_int (2 ^ nat (bitlen n))"
    by (simp_all only: of_int_le_iff of_int_less_iff)
  with b show "2 powi (bitlen n - 1) \<le> (of_int n :: rat)" and "(of_int n :: rat) < 2 powi bitlen n"
    by (simp_all add: power_int_def)
qed

lemma powi_mono: "a \<le> b \<Longrightarrow> (2 :: rat) powi a \<le> 2 powi b"
  by (rule power_int_increasing) simp_all

lemma powi_less_iff: "(2 :: rat) powi a < 2 powi b \<longleftrightarrow> a < b"
  using powi_mono [of b a] power_int_strict_increasing [of a b "2 :: rat"] by force

lemma binade_bounds:
  assumes "0 < x"
  shows "2 powi (binade x) \<le> x" and "x < 2 powi (binade x + 1)"
proof -
  obtain p q where pq: "quotient_of x = (p, q)" by force
  have q: "0 < q" using quotient_of_denom_pos [OF pq] .
  have x: "x = of_int p / of_int q" using quotient_of_div [OF pq] .
  with assms q have p: "0 < p" by (simp add: zero_less_divide_iff)
  define a where "a = bitlen p - bitlen q"
  have "2 powi (bitlen p - 1) / 2 powi bitlen q < (of_int p / of_int q :: rat)"
    using bitlen_powi [OF p] bitlen_powi [OF q] q by (intro frac_less2) simp_all
  then have lo: "2 powi (a - 1) < x"
    by (simp add: x a_def power_int_diff)
  have "(of_int p / of_int q :: rat) < 2 powi bitlen p / 2 powi (bitlen q - 1)"
    using bitlen_powi [OF p] bitlen_powi [OF q] p by (intro frac_less) simp_all
  then have hi: "x < 2 powi (a + 1)"
    by (simp add: x a_def power_int_diff power_int_add)
  have "binade x = (if 2 powi a \<le> x then a else a - 1)"
    by (simp add: binade_def pq a_def)
  with lo hi show "2 powi (binade x) \<le> x" and "x < 2 powi (binade x + 1)"
    by (auto split: if_splits)
qed

lemma round_even_of_int [simp]: "round_even (of_int n) = n"
  by (simp add: round_even_def)

lemma round_even_near: "\<bar>of_int (round_even x) - x\<bar> \<le> 1/2"
proof -
  have "of_int \<lfloor>x\<rfloor> \<le> x" "x < of_int \<lfloor>x\<rfloor> + 1" by linarith+
  then show ?thesis by (auto simp: round_even_def Let_def)
qed

lemma ulp_pos [simp]: "0 < ulp x"
  by (simp add: ulp_def)

text \<open>A rational with at most 53 binary digits, in range, is a number.\<close>

lemma rnd_exact:
  assumes "x = of_int m * 2 powi k" "\<bar>m\<bar> < 2 ^ 53" "- 1074 \<le> k" "\<bar>x\<bar> < 2 ^ 1024"
  shows "rnd x = Fin x"
proof (cases "x = 0")
  case False
  define e where "e = max (binade \<bar>x\<bar>) (- 1022) - 52"
  have "2 powi (binade \<bar>x\<bar>) \<le> \<bar>x\<bar>" using False by (intro binade_bounds) simp
  also have "\<bar>x\<bar> < 2 powi (53 + k)"
  proof -
    have "\<bar>x\<bar> = of_int \<bar>m\<bar> * 2 powi k" by (simp add: assms(1) abs_mult)
    also have "\<dots> < of_int (2 ^ 53) * 2 powi k"
      using assms(2) by (intro mult_strict_right_mono) (simp_all only: of_int_less_iff, simp)
    finally show ?thesis by (simp add: power_int_add)
  qed
  finally have "binade \<bar>x\<bar> < 53 + k" by (simp add: powi_less_iff)
  with assms(3) have "e \<le> k" by (simp add: e_def)
  have u: "ulp x = 2 powi e" by (simp add: ulp_def e_def)
  have "x / ulp x = of_int m * 2 powi (k - e)"
    unfolding u by (simp add: assms(1) power_int_diff)
  also have "(2 :: rat) powi (k - e) = of_int (2 ^ nat (k - e))"
    using \<open>e \<le> k\<close> by (simp add: power_int_def)
  finally have "x / ulp x = of_int (m * 2 ^ nat (k - e))" by simp
  then have "of_int (round_even (x / ulp x)) = x / ulp x" by (simp only: round_even_of_int)
  then have "of_int (round_even (x / ulp x)) * ulp x = x" using ulp_pos [of x] by (simp del: ulp_pos)
  with False assms(4) show ?thesis by (auto simp: rnd_def Let_def)
qed (simp add: rnd_def)

text \<open>Rounding moves a number below a power of two by less than the spacing below that power.\<close>

lemma rnd_near:
  assumes "\<bar>x\<bar> < 2 powi n" "- 1022 < n" "n \<le> 1023"
  shows "\<exists>y. rnd x = Fin y \<and> \<bar>y - x\<bar> \<le> 2 powi (n - 53) / 2"
proof (cases "x = 0")
  case False
  have "2 powi (binade \<bar>x\<bar>) < (2 :: rat) powi n"
    using False assms(1) binade_bounds(1) [of "\<bar>x\<bar>"] by simp
  then have u: "ulp x \<le> 2 powi (n - 53)"
    using assms(2) unfolding ulp_def by (intro powi_mono) (simp add: powi_less_iff)
  define y where "y = of_int (round_even (x / ulp x)) * ulp x"
  have "y - x = (of_int (round_even (x / ulp x)) - x / ulp x) * ulp x"
    by (simp add: y_def left_diff_distrib less_imp_neq [OF ulp_pos, symmetric])
  then have "\<bar>y - x\<bar> = \<bar>of_int (round_even (x / ulp x)) - x / ulp x\<bar> * ulp x"
    by (simp add: abs_mult less_imp_le [OF ulp_pos])
  also have "\<dots> \<le> 1/2 * ulp x"
    by (rule mult_right_mono [OF round_even_near less_imp_le [OF ulp_pos]])
  finally have "\<bar>y - x\<bar> \<le> 1/2 * ulp x" .
  with u have near: "\<bar>y - x\<bar> \<le> 2 powi (n - 53) / 2" by simp
  have "2 powi (n - 53) \<le> (2 :: rat) powi n" by (rule powi_mono) simp
  moreover have "2 powi n \<le> (2 :: rat) powi 1023" using assms(3) by (rule powi_mono)
  ultimately have "\<bar>y\<bar> < 2 powi 1023 + 2 powi 1023" using near assms(1) by linarith
  then have "\<bar>y\<bar> < 2 ^ 1024" by (simp add: power_int_def)
  with False near show ?thesis by (auto simp: rnd_def y_def [symmetric] Let_def)
qed (simp add: rnd_def)

end
