(* ===== verification/Json_Value.thy ===== *)
theory Json_Value
  imports F64 Relay_Prelude
begin

text \<open>
  JSON values, as \<^verbatim>\<open>serde_json\<close> has them: the dashboard's bodies and the outcome of a service command
  are built as values; printing them is that crate's. A derived \<^verbatim>\<open>Serialize\<close> lists the fields in the
  order of the struct; an object of the \<^verbatim>\<open>json!\<close> macro is a \<^verbatim>\<open>BTreeMap\<close>, in key order. A number that
  is not finite is null.
\<close>

datatype json =
    JNull | JBool bool | JNum rat | JStr string | JArr "json list" | JObj "(string \<times> json) list"

definition json_nat :: "nat \<Rightarrow> json" where "json_nat n = JNum (of_nat n)"

fun json_f64 :: "f64 \<Rightarrow> json" where
  "json_f64 (Fin x) = JNum x"
| "json_f64 _ = JNull"

definition json_map :: "(string \<times> json) list \<Rightarrow> json" where
  "json_map fs = JObj (sort_key fst fs)"

definition json_field :: "json \<Rightarrow> string \<Rightarrow> json" where
  "json_field j k = (case j of JObj fs \<Rightarrow> (case map_of fs k of Some v \<Rightarrow> v | None \<Rightarrow> JNull) | _ \<Rightarrow> JNull)"

lemma json_field_map:
  "distinct (map fst fs) \<Longrightarrow> json_field (json_map fs) k = (case map_of fs k of Some v \<Rightarrow> v | None \<Rightarrow> JNull)"
proof -
  assume d: "distinct (map fst fs)"
  then have "map_of (sort_key fst fs) = map_of fs"
    by (intro map_of_inject_set [THEN iffD2]) (simp_all add: distinct_map_sort_key)
  then show ?thesis by (simp add: json_field_def json_map_def)
qed

end
