(* ===== verification/Geo_Map.thy ===== *)
theory Geo_Map
  imports Json_Value Wire "HOL-Library.Multiset"
begin

text \<open>
  \<^verbatim>\<open>src/geoip.rs\<close> and \<^verbatim>\<open>src/map.rs\<close>: the coarse map of the registered peers. Reading the geo database
  is the \<^verbatim>\<open>maxminddb\<close> crate's, so looking an address up in an opened database is an argument. Shown:
  every peer is counted once, in a cell or as unknown; the cells are strictly ordered; the snapshot
  depends on a peer only through the grid cell of its first locatable address; and that cell's
  published centre is a multiple of five degrees plus two and a half, within rounding of half a
  cell of the true coordinate, whatever the floating-point arithmetic on the way.
\<close>

section \<open>Counting by key\<close>

text \<open>\<^verbatim>\<open>*m.entry(k).or_insert(0) += 1\<close> over a list of keys; a \<^verbatim>\<open>BTreeMap\<close> is iterated in key order.\<close>

definition tally :: "'k list \<Rightarrow> ('k, nat) hash_map" where
  "tally ks = foldl (\<lambda>m k. hm_upsert k 0 Suc m) [] ks"

lemma tally_wf: "hm_wf (tally ks)"
  unfolding tally_def by (induction ks rule: rev_induct) simp_all

lemma tally_get: "map_of (tally ks) k = (if k \<in> set ks then Some (count_list ks k) else None)"
  unfolding tally_def
  by (induction ks rule: rev_induct) (auto simp: hm_simps)

lemma tally_keys: "hm_keys (tally ks) = set ks"
proof (rule set_eqI)
  show "k \<in> hm_keys (tally ks) \<longleftrightarrow> k \<in> set ks" for k
    using map_of_None_key [of "tally ks" k] by (simp add: tally_get split: if_splits)
qed

lemma tally_sum: "sum_list (map snd (tally ks)) = length ks"
proof -
  have "sum_list (map snd (tally ks)) = (\<Sum>x \<in> set (tally ks). snd x)"
    using tally_wf [of ks] by (intro sum_list_distinct_conv_sum_set) (simp add: hm_wf_def distinct_map)
  also have "\<dots> = (\<Sum>k \<in> fst ` set (tally ks). count_list ks k)"
  proof (rule sum.reindex_cong [symmetric])
    show "inj_on fst (set (tally ks))" using tally_wf [of ks] by (simp add: hm_wf_def distinct_map)
    show "count_list ks (fst x) = snd x" if "x \<in> set (tally ks)" for x
      using that hm_wf_map_of [OF tally_wf, of "fst x" "snd x" ks]
      by (auto simp: tally_get split: if_splits)
  qed simp
  also have "\<dots> = length ks" by (simp add: tally_keys sum_count_set)
  finally show ?thesis .
qed

definition btree :: "('k::linorder, 'v) hash_map \<Rightarrow> ('k \<times> 'v) list" where
  "btree m = sort_key fst m"

lemma btree_strict: "hm_wf m \<Longrightarrow> sorted_wrt (<) (map fst (btree m))"
  by (simp add: btree_def hm_wf_def strict_sorted_iff distinct_map_sort_key)

lemma set_btree [simp]: "set (btree m) = set m"
  by (simp add: btree_def)

lemma btree_tally: "btree (tally ks) = map (\<lambda>k. (k, count_list ks k)) (sorted_list_of_set (set ks))"
proof (rule map_sorted_distinct_set_unique [where f = fst])
  have eq: "set (tally ks) = (\<lambda>k. (k, count_list ks k)) ` set ks"
    using hm_wf_map_of [OF tally_wf, of _ _ ks] by (auto simp: tally_get split: if_splits)
  then show "set (btree (tally ks)) = set (map (\<lambda>k. (k, count_list ks k)) (sorted_list_of_set (set ks)))"
    by simp
  show "inj_on fst (set (btree (tally ks)) \<union> set (map (\<lambda>k. (k, count_list ks k)) (sorted_list_of_set (set ks))))"
    using eq by (auto simp: inj_on_def)
qed (use tally_wf [of ks] in \<open>simp_all add: btree_def hm_wf_def distinct_map_sort_key o_def\<close>)

text \<open>The keys that are there, of a list of optional ones.\<close>

lemma present_keys:
  "count_list (List.map_filter id xs) k = count_list xs (Some k)"
  "set (List.map_filter id xs) = {k. Some k \<in> set xs}"
  "length (List.map_filter id xs) + length (filter (\<lambda>x. x = None) xs) = length xs"
  by (induction xs) (auto simp: map_filter_simps split: option.split)

section \<open>Locating an address\<close>

definition is_unique_local :: "128 word \<Rightarrow> bool" where
  "is_unique_local a \<longleftrightarrow> segments6 a ! 0 AND 0xfe00 = 0xfc00"

definition is_unicast_link_local :: "128 word \<Rightarrow> bool" where
  "is_unicast_link_local a \<longleftrightarrow> segments6 a ! 0 AND 0xffc0 = 0xfe80"

fun is_public :: "ip_addr \<Rightarrow> bool" where
  "is_public (V4 a) =
     (\<not> (v4_is_private a \<or> v4_is_loopback a \<or> v4_is_link_local a \<or> v4_is_unspecified a
          \<or> v4_is_broadcast a \<or> v4_is_documentation a))"
| "is_public (V6 a) =
     (\<not> (v6_is_loopback a \<or> v6_is_unspecified a \<or> is_unique_local a \<or> is_unicast_link_local a))"

text \<open>\<open>db\<close> is the opened database, if there is one: the latitude and longitude it holds for an address.\<close>

type_synonym geo_db = "(ip_addr \<Rightarrow> (f64 option \<times> f64 option) option) option"

definition lookup_ip :: "(ip_addr \<Rightarrow> (f64 option \<times> f64 option) option) \<Rightarrow> ip_addr \<Rightarrow> (f64 \<times> f64) option" where
  "lookup_ip reader ip =
     (case reader ip of Some (Some lat, Some lon) \<Rightarrow> Some (lat, lon) | _ \<Rightarrow> None)"

definition locate :: "geo_db \<Rightarrow> ip_addr \<Rightarrow> (f64 \<times> f64) option" where
  "locate db ip =
     (let c = to_canonical ip
      in if \<not> is_public c then None
         else (case db of None \<Rightarrow> None | Some reader \<Rightarrow> lookup_ip reader c))"

section \<open>The snapshot\<close>

definition MAP_SCHEMA_VERSION :: u32 where "MAP_SCHEMA_VERSION = 1"
definition MAP_CELL_DEG :: f64 where "MAP_CELL_DEG = Fin 5"
definition QUANTIZE_SCALE :: f64 where "QUANTIZE_SCALE = Fin 1000000"

record map_cell =
  mc_lat :: f64
  mc_lon :: f64
  mc_count :: nat

record map_snapshot =
  ms_schema_version :: u32
  ms_generated_at :: u64
  ms_cell_deg :: f64
  ms_total_peers :: nat
  ms_located_peers :: nat
  ms_unknown_peers :: nat
  ms_cells :: "map_cell list"

definition snap :: "f64 \<Rightarrow> f64 \<Rightarrow> f64" where
  "snap coord cell_deg = f_mul (f_add (f_floor (f_div coord cell_deg)) (Fin (1/2))) cell_deg"

definition quantize :: "f64 \<Rightarrow> int" where
  "quantize coord = f_to_i64 (f_round (f_mul coord QUANTIZE_SCALE))"

definition dequantize :: "int \<Rightarrow> f64" where
  "dequantize q = f_div (f_of_i64 q) QUANTIZE_SCALE"

fun find_map :: "('a \<Rightarrow> 'b option) \<Rightarrow> 'a list \<Rightarrow> 'b option" where
  "find_map f [] = None"
| "find_map f (x # xs) = (case f x of Some y \<Rightarrow> Some y | None \<Rightarrow> find_map f xs)"

definition first_located :: "socket_addr list \<Rightarrow> (ip_addr \<Rightarrow> (f64 \<times> f64) option) \<Rightarrow> (f64 \<times> f64) option" where
  "first_located addresses resolver = find_map (\<lambda>a. resolver (sa_ip a)) addresses"

definition cell_key :: "f64 \<Rightarrow> f64 \<times> f64 \<Rightarrow> int \<times> int" where
  "cell_key cell_deg = (\<lambda>(lat, lon). (quantize (snap lat cell_deg), quantize (snap lon cell_deg)))"

definition build_map_snapshot ::
  "relay_peer_info list \<Rightarrow> (ip_addr \<Rightarrow> (f64 \<times> f64) option) \<Rightarrow> f64 \<Rightarrow> u64 \<Rightarrow> map_snapshot" where
  "build_map_snapshot ps resolver cell_deg generated_at =
     (let located = map (\<lambda>p. first_located (pi_addresses p) resolver) ps;
          cells = tally (map (cell_key cell_deg) (List.map_filter id located));
          unknown_peers = length (filter (\<lambda>l. l = None) located)
      in \<lparr>ms_schema_version = MAP_SCHEMA_VERSION, ms_generated_at = generated_at, ms_cell_deg = cell_deg,
          ms_total_peers = length ps, ms_located_peers = sum_list (map snd cells),
          ms_unknown_peers = unknown_peers,
          ms_cells = map (\<lambda>((lat_q, lon_q), count).
            \<lparr>mc_lat = dequantize lat_q, mc_lon = dequantize lon_q, mc_count = count\<rparr>) (btree cells)\<rparr>)"

section \<open>What the snapshot says\<close>

definition peer_cell :: "(ip_addr \<Rightarrow> (f64 \<times> f64) option) \<Rightarrow> f64 \<Rightarrow> relay_peer_info \<Rightarrow> (int \<times> int) option" where
  "peer_cell resolver cell_deg p = map_option (cell_key cell_deg) (first_located (pi_addresses p) resolver)"

lemma build_map_snapshot_cells:
  "build_map_snapshot ps resolver deg t =
     (let cells = tally (List.map_filter id (map (peer_cell resolver deg) ps))
      in \<lparr>ms_schema_version = MAP_SCHEMA_VERSION, ms_generated_at = t, ms_cell_deg = deg,
          ms_total_peers = length ps, ms_located_peers = sum_list (map snd cells),
          ms_unknown_peers = length (filter (\<lambda>c. c = None) (map (peer_cell resolver deg) ps)),
          ms_cells = map (\<lambda>((lat_q, lon_q), count).
            \<lparr>mc_lat = dequantize lat_q, mc_lon = dequantize lon_q, mc_count = count\<rparr>) (btree cells)\<rparr>)"
proof -
  have "map (cell_key deg) (List.map_filter id (map (\<lambda>p. first_located (pi_addresses p) resolver) ps))
      = List.map_filter id (map (peer_cell resolver deg) ps)"
    by (induction ps) (simp_all add: peer_cell_def map_filter_simps split: option.split)
  moreover have "length (filter (\<lambda>l. l = None) (map (\<lambda>p. first_located (pi_addresses p) resolver) ps))
      = length (filter (\<lambda>c. c = None) (map (peer_cell resolver deg) ps))"
    by (induction ps) (simp_all add: peer_cell_def)
  ultimately show ?thesis by (simp add: build_map_snapshot_def Let_def)
qed


definition demo_resolver :: "ip_addr \<Rightarrow> (f64 \<times> f64) option" where
  "demo_resolver ip = (if ip = V4 0x08080808 then Some (Fin 37, Fin (- 122)) else None)"

definition demo_info :: "ip_addr \<Rightarrow> relay_peer_info" where
  "demo_info ip = (relay_peer_info_new ''peer'' ''net'' 1 0)\<lparr>pi_addresses := [mk_sa ip 9450]\<rparr>"


section \<open>The grid\<close>

lemma rnd_small: "x = of_int m / 2 \<Longrightarrow> \<bar>m\<bar> < 2 ^ 53 \<Longrightarrow> rnd x = Fin x"
proof -
  assume x: "x = of_int m / 2" and m: "\<bar>m\<bar> < 2 ^ 53"
  have "\<bar>of_int m :: rat\<bar> < of_int (2 ^ 53)" using m by (simp only: of_int_abs [symmetric] of_int_less_iff)
  then have "\<bar>x\<bar> < 2 ^ 1024" by (simp add: x)
  with x m show ?thesis by (intro rnd_exact [where m = m and k = "- 1"]) (simp_all add: power_int_minus)
qed

text \<open>C35. Wherever a coordinate of up to 180 degrees lies, the published one is the centre of a cell of
  the five-degree grid, exactly, after all the floating-point steps in between; and the cell is
  the one the coordinate lies in, up to rounding at its border.\<close>

theorem map_cell_centre:
  assumes "\<bar>c\<bar> \<le> 180"
  shows "\<exists>k. snap (Fin c) MAP_CELL_DEG = Fin (5 * of_int k + 5/2)
    \<and> quantize (snap (Fin c) MAP_CELL_DEG) = 5000000 * k + 2500000
    \<and> dequantize (quantize (snap (Fin c) MAP_CELL_DEG)) = Fin (5 * of_int k + 5/2)
    \<and> \<bar>5 * of_int k + 5/2 - c\<bar> \<le> 5/2 + 1 / 2 ^ 44"
proof -
  have "\<bar>c / 5\<bar> < 2 powi 6" using assms by simp
  from rnd_near [OF this] obtain y where y: "rnd (c / 5) = Fin y" and near: "\<bar>y - c / 5\<bar> \<le> 1 / 2 ^ 48"
    by (auto simp: power_int_def power_divide)
  define k where "k = \<lfloor>y\<rfloor>"
  have k: "of_int k \<le> y" "y < of_int k + 1" unfolding k_def by linarith+
  have small: "(1 :: rat) / 2 ^ 48 \<le> 1" by simp
  have "of_int k < (38 :: rat)" "- (38 :: rat) < of_int k" using near small assms k by linarith+
  then have "(of_int k :: rat) < of_int 38" "(of_int (- 38) :: rat) < of_int k" by simp_all
  then have kb: "\<bar>k\<bar> < 2 ^ 6" unfolding of_int_less_iff by simp
  have add: "rnd (of_int k + 1/2) = Fin (of_int k + 1/2)"
    by (rule rnd_small [of _ "2 * k + 1"]) (use kb in \<open>simp_all add: add_divide_distrib\<close>)
  have mul: "rnd ((of_int k + 1/2) * 5) = Fin (5 * of_int k + 5/2)"
  proof -
    have e: "(of_int k + 1/2) * 5 = (5 * of_int k + 5/2 :: rat)" by simp
    show ?thesis unfolding e
      by (rule rnd_small [of _ "10 * k + 5"]) (use kb in \<open>simp_all add: add_divide_distrib\<close>)
  qed
  have snap: "snap (Fin c) MAP_CELL_DEG = Fin (5 * of_int k + 5/2)"
    using mul by (simp add: snap_def MAP_CELL_DEG_def y k_def [symmetric] add)
  define n where "n = 5000000 * k + 2500000"
  have n: "5 * of_int k + 5/2 = (of_int n / 1000000 :: rat)" by (simp add: n_def add_divide_distrib)
  have whole: "rnd (of_int n) = Fin (of_int n)"
    by (rule rnd_small [of _ "2 * n"]) (use kb in \<open>simp_all add: n_def\<close>)
  have quant: "quantize (Fin (5 * of_int k + 5/2)) = n"
  proof -
    have "f_round (Fin (of_int n)) = Fin (of_int n)" by (simp add: floor_unique ceiling_unique)
    moreover have "- (2 ^ 62) \<le> n" "n \<le> 2 ^ 62" using kb by (simp_all add: n_def)
    then have "f_to_i64 (Fin (of_int n)) = n" by simp
    ultimately show ?thesis unfolding n by (simp add: quantize_def QUANTIZE_SCALE_def whole)
  qed
  have "rnd (of_int n / 1000000) = Fin (of_int n / 1000000)"
    by (rule rnd_small [of _ "10 * k + 5"]) (use kb in \<open>simp_all add: n_def add_divide_distrib\<close>)
  then have "dequantize n = Fin (5 * of_int k + 5/2)"
    unfolding n by (simp add: dequantize_def f_of_i64_def QUANTIZE_SCALE_def whole)
  moreover have "\<bar>5 * of_int k + 5/2 - c\<bar> \<le> 5/2 + 1 / 2 ^ 44"
  proof -
    have "5 * (1 / 2 ^ 48) \<le> (1 / 2 ^ 44 :: rat)" by simp
    with near k show ?thesis by linarith
  qed
  ultimately show ?thesis using snap quant n_def by auto
qed

theorem map_cell_centre_witness:
  "\<exists>k. snap (Fin (- 180)) MAP_CELL_DEG = Fin (5 * of_int k + 5/2)
     \<and> dequantize (quantize (snap (Fin (- 180)) MAP_CELL_DEG)) = Fin (5 * of_int k + 5/2)
     \<and> \<bar>5 * of_int k + 5/2 - (- 180 :: rat)\<bar> \<le> 5/2 + 1 / 2 ^ 44"
  using map_cell_centre [of "- 180"] by (simp only: abs_minus_cancel abs_numeral) blast

text \<open>The published latitude of a point at the pole is past the pole.\<close>

lemma pole_cell: "snap (Fin 90) MAP_CELL_DEG = Fin (185/2)"
  by (simp add: snap_def MAP_CELL_DEG_def rnd_small [of 18 36] rnd_small [of "37/2" 37] rnd_small [of "185/2" 185])

end
