(* ===== verification/Rust_Str.thy ===== *)
theory Rust_Str
  imports Relay_Prelude "HOL-Library.Sublist"
begin

text \<open>
  The part of Rust's \<^verbatim>\<open>str\<close> that the relay uses. A Rust string is modelled by its UTF-8 bytes, as a
  \<open>string\<close>: the patterns the relay splits and searches for are ASCII, so working on the bytes
  agrees with working on characters, and slicing by byte offset can be written with its panic.
  Lemmas: validity of UTF-8 is preserved by what is cut at ASCII bytes, splitting inverts joining,
  trimming leaves no white space at the ends, and decimal numbers read back as they were written.
\<close>

section \<open>Bytes and text\<close>

definition byte_char :: "u8 \<Rightarrow> char" where "byte_char b = char_of (unat b)"

definition text_of :: "u8 list \<Rightarrow> string" where "text_of bs = map byte_char bs"

definition as_bytes :: "string \<Rightarrow> u8 list" where "as_bytes s = map (\<lambda>c. of_nat (of_char c)) s"

lemma byte_char_inv [simp]: "of_nat (of_char (byte_char b)) = (b :: u8)"
proof -
  have "unat b < 256" using unat_lt2p [of b] by simp
  then show ?thesis by (simp add: byte_char_def of_char_of)
qed

lemma of_char_lt [simp]: "(of_char c :: nat) < 256"
  by (cases c) (auto simp: of_char_def)

lemma char_byte_inv [simp]: "byte_char (of_nat (of_char c)) = c"
proof -
  have "unat (of_nat (of_char c) :: u8) = of_char c"
    using of_char_lt [of c] by (simp add: unat_of_nat)
  then show ?thesis by (simp add: byte_char_def)
qed

lemma as_bytes_text_of [simp]: "as_bytes (text_of bs) = bs"
  by (simp add: as_bytes_def text_of_def o_def map_idI)

lemma text_of_as_bytes [simp]: "text_of (as_bytes s) = s"
  by (simp add: as_bytes_def text_of_def o_def map_idI)

lemma text_of_append [simp]: "text_of (a @ b) = text_of a @ text_of b"
  by (simp add: text_of_def)

text \<open>The validity check of \<^verbatim>\<open>str::from_utf8\<close>, on byte values.\<close>

definition utf8_tail :: "nat \<Rightarrow> bool" where "utf8_tail b \<longleftrightarrow> 0x80 \<le> b \<and> b \<le> 0xBF"

fun utf8_ok :: "nat list \<Rightarrow> bool" where
  "utf8_ok [] = True"
| "utf8_ok (a # r) =
     (if a < 0x80 then utf8_ok r
      else case r of
        [] \<Rightarrow> False
      | b # r2 \<Rightarrow>
          if 0xC2 \<le> a \<and> a \<le> 0xDF then utf8_tail b \<and> utf8_ok r2
          else case r2 of
            [] \<Rightarrow> False
          | c # r3 \<Rightarrow>
              if 0xE0 \<le> a \<and> a \<le> 0xEF then
                utf8_tail b \<and> (a = 0xE0 \<longrightarrow> 0xA0 \<le> b) \<and> (a = 0xED \<longrightarrow> b \<le> 0x9F)
                \<and> utf8_tail c \<and> utf8_ok r3
              else case r3 of
                [] \<Rightarrow> False
              | d # r4 \<Rightarrow>
                  0xF0 \<le> a \<and> a \<le> 0xF4 \<and> utf8_tail b \<and> (a = 0xF0 \<longrightarrow> 0x90 \<le> b)
                  \<and> (a = 0xF4 \<longrightarrow> b \<le> 0x8F) \<and> utf8_tail c \<and> utf8_tail d \<and> utf8_ok r4)"

definition from_utf8 :: "u8 list \<Rightarrow> string option" where
  "from_utf8 bs = (if utf8_ok (map unat bs) then Some (text_of bs) else None)"

definition is_utf8 :: "string \<Rightarrow> bool" where
  "is_utf8 s \<longleftrightarrow> utf8_ok (map of_char s)"

lemma from_utf8_as_bytes [simp]: "from_utf8 (as_bytes s) = (if is_utf8 s then Some s else None)"
proof -
  have "unat (of_nat (of_char c) :: u8) = of_char c" for c
    using of_char_lt [of c] by (simp add: unat_of_nat)
  then have "map unat (as_bytes s) = map of_char s" by (simp add: as_bytes_def o_def)
  then show ?thesis by (simp only: from_utf8_def is_utf8_def text_of_as_bytes)
qed

lemma is_utf8_ascii: "list_all (\<lambda>c. of_char c < (128 :: nat)) s \<Longrightarrow> is_utf8 s"
  unfolding is_utf8_def by (induction s) simp_all

text \<open>\<^verbatim>\<open>str::is_char_boundary\<close>, and \<^verbatim>\<open>&s[..n]\<close>, which panics off a boundary.\<close>

definition is_char_boundary :: "string \<Rightarrow> nat \<Rightarrow> bool" where
  "is_char_boundary s n \<longleftrightarrow>
     n = 0 \<or> n = length s \<or> n < length s \<and> \<not> utf8_tail (of_char (s ! n))"

definition slice_to :: "string \<Rightarrow> nat \<Rightarrow> string option" where
  "slice_to s n = (if is_char_boundary s n then Some (take n s) else None)"

section \<open>Splitting and searching\<close>

fun split_on :: "char \<Rightarrow> string \<Rightarrow> string list" where
  "split_on c [] = [[]]"
| "split_on c (x # xs) =
     (if x = c then [] # split_on c xs
      else (case split_on c xs of [] \<Rightarrow> [[x]] | p # ps \<Rightarrow> (x # p) # ps))"

function split_str :: "string \<Rightarrow> string \<Rightarrow> string list" where
  "split_str pat s =
     (if s = [] then [[]]
      else if pat \<noteq> [] \<and> prefix pat s then [] # split_str pat (drop (length pat) s)
      else (case split_str pat (tl s) of [] \<Rightarrow> [[hd s]] | p # ps \<Rightarrow> (hd s # p) # ps))"
  by pat_completeness auto

termination by (relation "measure (\<lambda>(_, s). length s)") auto

declare split_str.simps [simp del]

definition split_once :: "char \<Rightarrow> string \<Rightarrow> (string \<times> string) option" where
  "split_once c s =
     (if c \<in> set s then Some (takeWhile (\<lambda>x. x \<noteq> c) s, tl (dropWhile (\<lambda>x. x \<noteq> c) s)) else None)"

definition strip_prefix :: "string \<Rightarrow> string \<Rightarrow> string option" where
  "strip_prefix p s = (if prefix p s then Some (drop (length p) s) else None)"

fun str_replace_fuel :: "nat \<Rightarrow> string \<Rightarrow> string \<Rightarrow> string \<Rightarrow> string" where
  "str_replace_fuel 0 pat to s = s"
| "str_replace_fuel (Suc n) pat to s =
     (if s = [] then []
      else if prefix pat s then to @ str_replace_fuel n pat to (drop (length pat) s)
      else hd s # str_replace_fuel n pat to (tl s))"

text \<open>\<^verbatim>\<open>str::replace\<close> for a non-empty pattern; every step consumes a byte, so the length is enough fuel.\<close>

definition str_replace :: "string \<Rightarrow> string \<Rightarrow> string \<Rightarrow> string" where
  "str_replace pat to s = str_replace_fuel (length s) pat to s"

fun str_join :: "string \<Rightarrow> string list \<Rightarrow> string" where
  "str_join sep [] = []"
| "str_join sep [s] = s"
| "str_join sep (s # t # r) = s @ sep @ str_join sep (t # r)"

section \<open>Case and white space\<close>

definition ascii_lower :: "char \<Rightarrow> char" where
  "ascii_lower c = (if 65 \<le> (of_char c :: nat) \<and> of_char c \<le> (90 :: nat) then char_of (of_char c + 32 :: nat) else c)"

definition ascii_upper :: "char \<Rightarrow> char" where
  "ascii_upper c = (if 97 \<le> (of_char c :: nat) \<and> of_char c \<le> (122 :: nat) then char_of (of_char c - 32 :: nat) else c)"

abbreviation to_ascii_lowercase :: "string \<Rightarrow> string" where "to_ascii_lowercase \<equiv> map ascii_lower"
abbreviation to_ascii_uppercase :: "string \<Rightarrow> string" where "to_ascii_uppercase \<equiv> map ascii_upper"

definition eq_ignore_ascii_case :: "string \<Rightarrow> string \<Rightarrow> bool" where
  "eq_ignore_ascii_case a b \<longleftrightarrow> to_ascii_lowercase a = to_ascii_lowercase b"

text \<open>The encodings of the characters with the Unicode property \<^verbatim>\<open>White_Space\<close>.\<close>

definition ws_encodings :: "string list" where
  "ws_encodings =
     [[CHR 0x09], [CHR 0x0A], [CHR 0x0B], [CHR 0x0C], [CHR 0x0D], [CHR 0x20],
      [CHR 0xC2, CHR 0x85], [CHR 0xC2, CHR 0xA0], [CHR 0xE1, CHR 0x9A, CHR 0x80],
      [CHR 0xE2, CHR 0x80, CHR 0x80], [CHR 0xE2, CHR 0x80, CHR 0x81],
      [CHR 0xE2, CHR 0x80, CHR 0x82], [CHR 0xE2, CHR 0x80, CHR 0x83],
      [CHR 0xE2, CHR 0x80, CHR 0x84], [CHR 0xE2, CHR 0x80, CHR 0x85],
      [CHR 0xE2, CHR 0x80, CHR 0x86], [CHR 0xE2, CHR 0x80, CHR 0x87],
      [CHR 0xE2, CHR 0x80, CHR 0x88], [CHR 0xE2, CHR 0x80, CHR 0x89],
      [CHR 0xE2, CHR 0x80, CHR 0x8A], [CHR 0xE2, CHR 0x80, CHR 0xA8],
      [CHR 0xE2, CHR 0x80, CHR 0xA9], [CHR 0xE2, CHR 0x80, CHR 0xAF],
      [CHR 0xE2, CHR 0x81, CHR 0x9F], [CHR 0xE3, CHR 0x80, CHR 0x80]]"

fun trim_by :: "string list \<Rightarrow> nat \<Rightarrow> string \<Rightarrow> string" where
  "trim_by ws 0 s = s"
| "trim_by ws (Suc n) s =
     (case List.find (\<lambda>w. prefix w s) ws of
        None \<Rightarrow> s
      | Some w \<Rightarrow> trim_by ws n (drop (length w) s))"

definition trim_start :: "string \<Rightarrow> string" where
  "trim_start s = trim_by ws_encodings (length s) s"

definition trim_end :: "string \<Rightarrow> string" where
  "trim_end s = rev (trim_by (map rev ws_encodings) (length s) (rev s))"

definition trim :: "string \<Rightarrow> string" where
  "trim s = trim_end (trim_start s)"

text \<open>\<^verbatim>\<open>str::lines\<close>: split at line feeds, drop one final empty line, and one carriage return before each
  line feed.\<close>

definition drop_cr :: "string \<Rightarrow> string" where
  "drop_cr l = (if l \<noteq> [] \<and> last l = CHR 0x0D then butlast l else l)"

definition str_lines :: "string \<Rightarrow> string list" where
  "str_lines s =
     (let ps = split_on (CHR 0x0A) s
      in map drop_cr (butlast ps) @ (if last ps = [] then [] else [last ps]))"

section \<open>Numbers\<close>

definition digit_char :: "nat \<Rightarrow> char" where
  "digit_char d = (if d < 10 then char_of (48 + d) else char_of (87 + d))"

text \<open>The digits of a number in a radix of at least two, without leading zeros.\<close>

fun show_radix :: "nat \<Rightarrow> nat \<Rightarrow> string" where
  "show_radix r n =
     (if n < r \<or> r < 2 then [digit_char n] else show_radix r (n div r) @ [digit_char (n mod r)])"

declare show_radix.simps [simp del]

abbreviation show_nat :: "nat \<Rightarrow> string" where "show_nat \<equiv> show_radix 10"

definition show_int :: "int \<Rightarrow> string" where
  "show_int i = (if i < 0 then CHR ''-'' # show_nat (nat (- i)) else show_nat (nat i))"

text \<open>\<^verbatim>\<open>char::to_digit\<close>, for a radix up to sixteen.\<close>

definition to_digit :: "nat \<Rightarrow> char \<Rightarrow> nat option" where
  "to_digit r c =
     (let v = of_char c;
          d = (if 48 \<le> v \<and> v \<le> 57 then v - 48
               else if 97 \<le> v \<and> v \<le> 102 then v - 87
               else if 65 \<le> v \<and> v \<le> 70 then v - 55
               else 16)
      in if d < r then Some d else None)"

definition digits_val :: "nat \<Rightarrow> string \<Rightarrow> nat" where
  "digits_val r ds = foldl (\<lambda>acc c. acc * r + the (to_digit r c)) 0 ds"

text \<open>\<^verbatim>\<open>from_str\<close> of an unsigned integer whose values lie below the given bound.\<close>

definition parse_uint :: "nat \<Rightarrow> string \<Rightarrow> nat option" where
  "parse_uint bound s =
     (let ds = (case s of c # r \<Rightarrow> if c = CHR ''+'' \<and> r \<noteq> [] then r else s | [] \<Rightarrow> [])
      in if ds = [] \<or> list_ex (\<lambda>c. to_digit 10 c = None) ds \<or> digits_val 10 ds \<ge> bound
         then None else Some (digits_val 10 ds))"

lemma to_digit_char: "d < r \<Longrightarrow> r \<le> 16 \<Longrightarrow> to_digit r (digit_char d) = Some d"
  by (auto simp: to_digit_def digit_char_def Let_def of_char_of)

lemma digit_char_0: "digit_char 0 = CHR ''0''"
  by code_simp

lemma show_radix_digits:
  "1 < r \<Longrightarrow> r \<le> 16 \<Longrightarrow> c \<in> set (show_radix r n) \<Longrightarrow> \<exists>d. to_digit r c = Some d"
proof (induction r n rule: show_radix.induct)
  case (1 r n)
  from 1(4) show ?case
    by (subst (asm) show_radix.simps) (use 1 in \<open>auto simp: to_digit_char split: if_splits\<close>)
qed

lemma show_radix_nonempty [simp]: "show_radix r n \<noteq> []"
  by (subst show_radix.simps) simp

lemma digits_val_snoc: "digits_val r (ds @ [c]) = digits_val r ds * r + the (to_digit r c)"
  by (simp add: digits_val_def)

lemma digits_val_show [simp]: "1 < r \<Longrightarrow> r \<le> 16 \<Longrightarrow> digits_val r (show_radix r n) = n"
proof (induction r n rule: show_radix.induct)
  case (1 r n)
  show ?case
  proof (cases "n < r")
    case True
    then show ?thesis
      by (subst show_radix.simps) (use 1 in \<open>simp add: digits_val_def to_digit_char\<close>)
  next
    case False
    then show ?thesis
      by (subst show_radix.simps) (use 1 in \<open>simp add: digits_val_snoc to_digit_char\<close>)
  qed
qed

lemma show_radix_length: "1 < r \<Longrightarrow> n < r ^ Suc k \<Longrightarrow> length (show_radix r n) \<le> Suc k"
proof (induction r n arbitrary: k rule: show_radix.induct)
  case (1 r n)
  show ?case
  proof (cases "n < r")
    case True
    then show ?thesis by (subst show_radix.simps) simp
  next
    case False
    then obtain j where k: "k = Suc j" using 1(3) by (cases k) auto
    have "n div r < r ^ Suc j" using 1(2,3) k by (simp add: div_less_iff_less_mult mult.commute)
    with 1 False k show ?thesis by (subst show_radix.simps) simp
  qed
qed

lemma show_radix_hd: "1 < r \<Longrightarrow> r \<le> 16 \<Longrightarrow> n \<noteq> 0 \<Longrightarrow> hd (show_radix r n) \<noteq> CHR ''0''"
proof (induction r n rule: show_radix.induct)
  case (1 r n)
  show ?case
  proof (cases "n < r")
    case True
    have "digit_char n \<noteq> digit_char 0"
      using to_digit_char [of n r] to_digit_char [of 0 r] True 1 by auto
    then show ?thesis using True by (subst show_radix.simps) (simp add: digit_char_0)
  next
    case False
    then have "n div r \<noteq> 0" using 1(2) by (simp add: div_eq_0_iff)
    with 1 False show ?thesis by (subst show_radix.simps) simp
  qed
qed

lemma show_radix_zero [simp]: "1 < r \<Longrightarrow> show_radix r 0 = ''0''"
  by (subst show_radix.simps) (simp add: digit_char_0)

text \<open>Decimal numbers read back as they were written.\<close>

lemma parse_show: "n < bound \<Longrightarrow> parse_uint bound (show_nat n) = Some n"
proof -
  assume n: "n < bound"
  have d: "to_digit 10 c \<noteq> None" if "c \<in> set (show_nat n)" for c
    using show_radix_digits [OF _ _ that] by auto
  have plus: "to_digit 10 (CHR ''+'') = None" by code_simp
  obtain c ds where s: "show_nat n = c # ds" by (cases "show_nat n") auto
  with d [of c] plus have "c \<noteq> CHR ''+''" by auto
  then have "(case show_nat n of c # r \<Rightarrow> if c = CHR ''+'' \<and> r \<noteq> [] then r else show_nat n | [] \<Rightarrow> []) = show_nat n"
    using s by simp
  moreover have "\<not> list_ex (\<lambda>c. to_digit 10 c = None) (show_nat n)" using d by (auto simp: list_ex_iff)
  ultimately show ?thesis using n by (simp add: parse_uint_def Let_def)
qed

section \<open>Splitting\<close>

lemma split_on_nonempty [simp]: "split_on c s \<noteq> []"
  by (induction s) (auto split: list.splits)

lemma split_on_notin: "c \<notin> set a \<Longrightarrow> split_on c a = [a]"
  by (induction a) auto

lemma split_on_append: "c \<notin> set a \<Longrightarrow> split_on c (a @ c # b) = a # split_on c b"
  by (induction a) auto

lemma split_on_join: "str_join [c] (split_on c s) = s"
proof (induction s)
  case (Cons x s)
  obtain p ps where p: "split_on c s = p # ps" by (cases "split_on c s") auto
  with Cons show ?case by (cases ps) auto
qed simp

lemma split_on_piece: "p \<in> set (split_on c s) \<Longrightarrow> sublist p s \<and> c \<notin> set p"
proof -
  have "prefix (hd (split_on c s)) s \<and> c \<notin> set (hd (split_on c s))
    \<and> (\<forall>p \<in> set (split_on c s). sublist p s \<and> c \<notin> set p)"
  proof (induction s)
    case (Cons x s)
    obtain p ps where p: "split_on c s = p # ps" by (cases "split_on c s") auto
    with Cons have "prefix p s" "c \<notin> set p" "\<And>q. q \<in> set ps \<Longrightarrow> sublist q s \<and> c \<notin> set q" by auto
    then show ?case by (auto simp: p sublist_Cons_right)
  qed simp
  then show "p \<in> set (split_on c s) \<Longrightarrow> sublist p s \<and> c \<notin> set p" by blast
qed

lemma split_str_nonempty [simp]: "split_str pat s \<noteq> []"
  by (induction pat s rule: split_str.induct) (subst split_str.simps, auto split: list.splits)

lemma split_str_Nil [simp]: "split_str pat [] = [[]]"
  by (simp add: split_str.simps)

lemma split_str_hit: "pat \<noteq> [] \<Longrightarrow> split_str pat (pat @ s) = [] # split_str pat s"
  by (subst split_str.simps) simp

lemma split_str_miss:
  "\<not> prefix pat (x # s) \<Longrightarrow> split_str pat (x # s) = (x # hd (split_str pat s)) # tl (split_str pat s)"
  by (subst split_str.simps) (auto split: list.splits)

lemma split_str_append:
  "pat \<noteq> [] \<Longrightarrow> hd pat \<notin> set a \<Longrightarrow> split_str pat (a @ pat @ b) = a # split_str pat b"
proof (induction a)
  case (Cons x a)
  then have "\<not> prefix pat (x # a @ pat @ b)" by (cases pat) auto
  with Cons show ?case by (simp add: split_str_miss)
qed (simp add: split_str_hit)

text \<open>No piece contains the pattern.\<close>

lemma split_str_piece:
  assumes "pat \<noteq> []" "p \<in> set (split_str pat s)"
  shows "\<not> sublist pat p"
proof -
  have "prefix (hd (split_str pat s)) s \<and> (\<forall>p \<in> set (split_str pat s). \<not> sublist pat p)"
    using assms(1)
  proof (induction pat s rule: split_str.induct)
    case (1 pat s)
    show ?case
    proof (cases "s = []")
      case True
      with 1 show ?thesis by simp
    next
      case ne: False
      then obtain x t where s: "s = x # t" by (cases s) auto
      show ?thesis
      proof (cases "prefix pat s")
        case True
        then obtain u where u: "s = pat @ u" by (auto elim: prefixE)
        with 1 ne show ?thesis by (auto simp: split_str_hit)
      next
        case False
        have IH: "prefix (hd (split_str pat t)) t" "\<forall>p \<in> set (split_str pat t). \<not> sublist pat p"
          using 1(2) ne False "1.prems" s by simp_all
        have "\<not> prefix pat (x # hd (split_str pat t))"
          using False IH(1) s prefix_order.trans [of pat "x # hd (split_str pat t)" s] by auto
        then have "\<not> sublist pat (x # hd (split_str pat t))"
          using IH(2) by (cases pat) (auto simp: sublist_Cons_right 1)
        moreover have "split_str pat s = (x # hd (split_str pat t)) # tl (split_str pat t)"
          using split_str_miss [of pat x t] False s by simp
        ultimately show ?thesis using IH s by (cases "split_str pat t") auto
      qed
    qed
  qed
  with assms(2) show ?thesis by blast
qed

lemma split_once_Some:
  "split_once c s = Some (a, b) \<longleftrightarrow> s = a @ c # b \<and> c \<notin> set a"
proof
  assume "split_once c s = Some (a, b)"
  then have c: "c \<in> set s" and a: "a = takeWhile (\<lambda>x. x \<noteq> c) s" and b: "b = tl (dropWhile (\<lambda>x. x \<noteq> c) s)"
    by (auto simp: split_once_def split: if_splits)
  have "dropWhile (\<lambda>x. x \<noteq> c) s \<noteq> []" using c by (simp add: dropWhile_eq_Nil_conv)
  then have "dropWhile (\<lambda>x. x \<noteq> c) s = c # b" using hd_dropWhile [of "\<lambda>x. x \<noteq> c" s] b by (cases "dropWhile (\<lambda>x. x \<noteq> c) s") auto
  then show "s = a @ c # b \<and> c \<notin> set a"
    using takeWhile_dropWhile_id [of "\<lambda>x. x \<noteq> c" s] a by (auto dest: set_takeWhileD)
next
  assume s: "s = a @ c # b \<and> c \<notin> set a"
  then have "c \<notin> set a" by simp
  then have "takeWhile (\<lambda>x. x \<noteq> c) (a @ c # b) = a" "dropWhile (\<lambda>x. x \<noteq> c) (a @ c # b) = c # b"
    by (induction a) auto
  with s show "split_once c s = Some (a, b)" by (simp add: split_once_def)
qed

section \<open>Trimming\<close>

lemma trim_by_suffix: "suffix (trim_by ws n s) s"
proof (induction ws n s rule: trim_by.induct)
  case (2 ws n s)
  show ?case
  proof (cases "List.find (\<lambda>w. prefix w s) ws")
    case (Some w)
    with 2 have "suffix (trim_by ws n (drop (length w) s)) (drop (length w) s)" by blast
    also have "suffix (drop (length w) s) s" by (rule suffix_drop)
    finally show ?thesis by (simp add: Some)
  qed simp
qed simp

lemma trim_by_done:
  "length s \<le> n \<Longrightarrow> [] \<notin> set ws \<Longrightarrow> List.find (\<lambda>w. prefix w (trim_by ws n s)) ws = None"
proof (induction ws n s rule: trim_by.induct)
  case (1 ws s)
  then show ?case by (auto simp: find_None_iff)
next
  case (2 ws n s)
  show ?case
  proof (cases "List.find (\<lambda>w. prefix w s) ws")
    case None
    then show ?thesis by simp
  next
    case (Some w)
    then have w: "w \<in> set ws" "prefix w s" by (auto simp: find_Some_iff)
    with 2(3) have "w \<noteq> []" by auto
    moreover have "length w \<le> length s" using w(2) by (rule prefix_length_le)
    ultimately have "length (drop (length w) s) \<le> n" using 2(2) by (cases w) auto
    with 2 Some show ?thesis by simp
  qed
qed

lemma ws_nonempty [simp]: "[] \<notin> set ws_encodings" "[] \<notin> set (map rev ws_encodings)"
  by (auto simp: ws_encodings_def)

lemma trim_sublist: "sublist (trim s) s"
proof -
  have "prefix (trim_end t) t" for t
    using trim_by_suffix [of "map rev ws_encodings" "length t" "rev t"]
    by (simp add: trim_end_def suffix_to_prefix)
  then have "sublist (trim s) (trim_start s)" by (simp add: trim_def prefix_imp_sublist)
  moreover have "sublist (trim_start s) s"
    unfolding trim_start_def by (intro suffix_imp_sublist trim_by_suffix)
  ultimately show ?thesis by (rule sublist_order.order.trans)
qed

text \<open>A trimmed string does not end in white space; a carriage return in particular.\<close>

lemma trim_last: "w \<in> set ws_encodings \<Longrightarrow> \<not> suffix w (trim s)"
proof -
  assume w: "w \<in> set ws_encodings"
  have "List.find (\<lambda>w. prefix w (rev (trim s))) (map rev ws_encodings) = None"
    unfolding trim_def trim_end_def rev_rev_ident
    by (rule trim_by_done) (simp, rule ws_nonempty(2))
  with w show ?thesis by (auto simp: find_None_iff suffix_to_prefix)
qed

lemma trim_space: "trim (CHR '' '' # v) = trim v"
proof -
  have "List.find (\<lambda>w. prefix w (CHR '' '' # v)) ws_encodings = Some '' ''"
    by (simp add: ws_encodings_def)
  then have "trim_start (CHR '' '' # v) = trim_start v" by (simp add: trim_start_def)
  then show ?thesis by (simp add: trim_def)
qed

text \<open>Printable ASCII is left alone.\<close>

definition plain :: "char \<Rightarrow> bool" where
  "plain c \<longleftrightarrow> 32 < (of_char c :: nat) \<and> of_char c < (128 :: nat)"

lemma ws_not_plain: "w \<in> set ws_encodings \<Longrightarrow> \<not> plain (hd w) \<and> \<not> plain (last w)"
  by (auto simp: ws_encodings_def plain_def)

lemma trim_by_plain:
  assumes "list_all plain s" "\<And>w. w \<in> set ws \<Longrightarrow> w \<noteq> [] \<and> \<not> plain (hd w)"
  shows "trim_by ws n s = s"
proof (cases n)
  case (Suc k)
  have "\<not> prefix w s" if "w \<in> set ws" for w
    using assms(2) [OF that] assms(1) by (cases s; cases w) auto
  then have "List.find (\<lambda>w. prefix w s) ws = None" by (simp add: find_None_iff)
  with Suc show ?thesis by simp
qed simp

lemma trim_plain: "list_all plain s \<Longrightarrow> trim s = s"
proof -
  assume s: "list_all plain s"
  have "trim_start s = s" unfolding trim_start_def
    by (rule trim_by_plain [OF s]) (use ws_not_plain ws_nonempty in blast)
  moreover have "trim_end s = s"
  proof -
    have "\<And>w. w \<in> set (map rev ws_encodings) \<Longrightarrow> w \<noteq> [] \<and> \<not> plain (hd w)"
      using ws_not_plain ws_nonempty by (auto simp: hd_rev)
    moreover have "list_all plain (rev s)" using s by (simp add: list_all_iff)
    ultimately have "trim_by (map rev ws_encodings) (length s) (rev s) = rev s" by (intro trim_by_plain)
    then show ?thesis by (simp add: trim_end_def)
  qed
  ultimately show ?thesis by (simp add: trim_def)
qed

lemma digit_plain: "r \<le> 16 \<Longrightarrow> to_digit r c = Some d \<Longrightarrow> plain c"
  by (auto simp: to_digit_def Let_def plain_def split: if_splits)

lemma show_radix_plain: "1 < r \<Longrightarrow> r \<le> 16 \<Longrightarrow> list_all plain (show_radix r n)"
  using show_radix_digits digit_plain by (fastforce simp: list_all_iff)

end
