(* ===== verification/Http_Serve.thy ===== *)
theory Http_Serve
  imports Rust_Str Proxy_Protocol
begin

text \<open>
  \<^verbatim>\<open>src/http_serve.rs\<close>: the request head the relay peeks at to tell a browser from a relay client,
  the stream that replays it, and the response writer. The reader is generic in the transport, as
  in the source; its lemmas are proved once for every reader that meets \<open>replay_reader\<close>. Shown:
  the head read is exactly the bytes up to the first blank line, within the size cap; a WebSocket
  client loses no byte to the peek; parsing a head gives what its headers say; no response header
  is split by what a request carries.
\<close>

section \<open>I/O errors\<close>

datatype error_kind =
    UnexpectedEof | InvalidData | InvalidInput | PermissionDenied | NotFound | Unsupported | OtherKind

type_synonym io_error = "error_kind \<times> string"
type_synonym 'a io_result = "io_error + 'a"

section \<open>Reading the request head\<close>

definition MAX_HEAD_BYTES :: nat where "MAX_HEAD_BYTES = 16 * 1024"

definition CRLF :: string where "CRLF = [CHR 0x0D, CHR 0x0A]"

definition blank_line :: "u8 list" where "blank_line = [13, 10, 13, 10]"

record request_head =
  rh_method :: string
  rh_target :: string
  rh_host :: "string option"
  is_websocket_upgrade :: bool

definition request_path :: "request_head \<Rightarrow> string" where
  "request_path head = hd (split_on (CHR ''?'') (rh_target head))"

text \<open>The loop of \<^verbatim>\<open>read_request_head\<close>, one byte per read; every turn lengthens the buffer, which is
  capped, so it ends.\<close>

function read_head_loop ::
  "('s \<Rightarrow> nat \<Rightarrow> u8 list \<times> 's) \<Rightarrow> 's \<Rightarrow> u8 list \<Rightarrow> (u8 list \<times> 's) io_result" where
  "read_head_loop poll s buf =
     (case poll s 1 of
        ([], _) \<Rightarrow> Inl (UnexpectedEof, ''connection closed before a complete HTTP request head'')
      | (b # _, s') \<Rightarrow>
          if suffix blank_line (buf @ [b]) then Inr (buf @ [b], s')
          else if length (buf @ [b]) \<ge> MAX_HEAD_BYTES
            then Inl (InvalidData, ''HTTP request head exceeded the size cap'')
          else read_head_loop poll s' (buf @ [b]))"
  by pat_completeness auto

termination
  by (relation "measure (\<lambda>(_, _, buf). MAX_HEAD_BYTES - length buf)") auto

declare read_head_loop.simps [simp del]

record head_flags =
  hf_host :: "string option"
  hf_connection_upgrade :: bool
  hf_upgrade_websocket :: bool

definition parse_header :: "head_flags \<Rightarrow> string \<Rightarrow> head_flags" where
  "parse_header fl line =
     (case split_once (CHR '':'') line of
        None \<Rightarrow> fl
      | Some (n, v) \<Rightarrow>
          (let name = trim n; val = trim v
           in if eq_ignore_ascii_case name ''host'' then fl\<lparr>hf_host := Some val\<rparr>
              else if eq_ignore_ascii_case name ''connection'' then
                fl\<lparr>hf_connection_upgrade :=
                     list_ex (\<lambda>t. eq_ignore_ascii_case (trim t) ''upgrade'') (split_on (CHR '','') val)\<rparr>
              else if eq_ignore_ascii_case name ''upgrade'' then
                fl\<lparr>hf_upgrade_websocket := eq_ignore_ascii_case val ''websocket''\<rparr>
              else fl))"

fun parse_headers :: "head_flags \<Rightarrow> string list \<Rightarrow> head_flags" where
  "parse_headers fl [] = fl"
| "parse_headers fl (line # lines) = (if line = [] then fl else parse_headers (parse_header fl line) lines)"

definition no_flags :: head_flags where
  "no_flags = \<lparr>hf_host = None, hf_connection_upgrade = False, hf_upgrade_websocket = False\<rparr>"

definition parse_request_head :: "u8 list \<Rightarrow> request_head io_result" where
  "parse_request_head bytes =
     (case from_utf8 bytes of
        None \<Rightarrow> Inl (InvalidData, ''non-UTF-8 request head'')
      | Some txt \<Rightarrow>
          (let lines = split_str CRLF txt; parts = split_on (CHR '' '') (hd lines)
           in if hd parts = [] then Inl (InvalidData, ''missing method'')
              else if tl parts = [] \<or> parts ! 1 = [] then Inl (InvalidData, ''missing request target'')
              else
                let fl = parse_headers no_flags (tl lines)
                in Inr \<lparr>rh_method = to_ascii_uppercase (hd parts), rh_target = parts ! 1,
                        rh_host = hf_host fl,
                        is_websocket_upgrade = (hf_connection_upgrade fl \<and> hf_upgrade_websocket fl)\<rparr>))"

definition read_request_head ::
  "('s \<Rightarrow> nat \<Rightarrow> u8 list \<times> 's) \<Rightarrow> 's \<Rightarrow> (request_head \<times> u8 list \<times> 's) io_result" where
  "read_request_head poll s =
     (case read_head_loop poll s [] of
        Inl e \<Rightarrow> Inl e
      | Inr (buf, s') \<Rightarrow>
          (case parse_request_head buf of
             Inl e \<Rightarrow> Inl e
           | Inr head \<Rightarrow> Inr (head, buf, s')))"

section \<open>Responses\<close>

fun header_lines :: "(string \<times> string) list \<Rightarrow> string" where
  "header_lines [] = []"
| "header_lines ((name, val) # hs) = name @ '': '' @ val @ CRLF @ header_lines hs"

definition write_response :: "u16 \<Rightarrow> string \<Rightarrow> (string \<times> string) list \<Rightarrow> u8 list \<Rightarrow> u8 list" where
  "write_response status reason headers body =
     as_bytes (''HTTP/1.1 '' @ show_nat (unat status) @ '' '' @ reason @ CRLF
               @ header_lines headers
               @ ''Content-Length: '' @ show_nat (length body) @ CRLF
               @ ''Connection: close'' @ CRLF @ CRLF) @ body"

section \<open>The replaying stream\<close>

record 's head_stream =
  hs_prefix :: "u8 list"
  hs_pos :: nat
  hs_inner :: 's

definition head_stream_new :: "u8 list \<Rightarrow> 's \<Rightarrow> 's head_stream" where
  "head_stream_new p s = \<lparr>hs_prefix = p, hs_pos = 0, hs_inner = s\<rparr>"

definition head_stream_poll ::
  "('s \<Rightarrow> nat \<Rightarrow> u8 list \<times> 's) \<Rightarrow> 's head_stream \<Rightarrow> nat \<Rightarrow> u8 list \<times> 's head_stream" where
  "head_stream_poll poll s room =
     (if hs_pos s < length (hs_prefix s) then
        (let left = drop (hs_pos s) (hs_prefix s); n = min (length left) room
         in (take n left, s\<lparr>hs_pos := hs_pos s + n\<rparr>))
      else
        (let (bs, inner) = poll (hs_inner s) room in (bs, s\<lparr>hs_inner := inner\<rparr>)))"

section \<open>Where a head ends\<close>

text \<open>The length of the head at the front of a byte sequence: the first position just after a
  blank line.\<close>

definition head_len :: "u8 list \<Rightarrow> nat option" where
  "head_len bs = List.find (\<lambda>n. suffix blank_line (take n bs)) [0..<Suc (length bs)]"

lemma head_len_Some:
  "head_len bs = Some n \<longleftrightarrow> n \<le> length bs \<and> suffix blank_line (take n bs)
     \<and> (\<forall>m < n. \<not> suffix blank_line (take m bs))"
proof -
  have nth: "[0..<Suc (length bs)] ! i = i" if "i \<le> length bs" for i
    using that nth_upt [of 0 i "Suc (length bs)"] by simp
  have "head_len bs = Some n \<longleftrightarrow> (\<exists>i \<le> length bs. suffix blank_line (take ([0..<Suc (length bs)] ! i) bs)
      \<and> n = [0..<Suc (length bs)] ! i \<and> (\<forall>j < i. \<not> suffix blank_line (take ([0..<Suc (length bs)] ! j) bs)))"
    unfolding head_len_def find_Some_iff length_upt by (simp only: less_Suc_eq_le diff_zero)
  also have "\<dots> \<longleftrightarrow> (\<exists>i \<le> length bs. suffix blank_line (take i bs) \<and> n = i
      \<and> (\<forall>j < i. \<not> suffix blank_line (take j bs)))"
    by (rule ex_cong1, rule conj_cong [OF refl]) (simp add: nth del: upt_Suc)
  finally show ?thesis by auto
qed

lemma head_len_None:
  "head_len bs = None \<longleftrightarrow> (\<forall>m \<le> length bs. \<not> suffix blank_line (take m bs))"
  unfolding head_len_def find_None_iff by (simp add: less_Suc_eq_le del: upt_Suc)

context replay_reader
begin

lemma poll_one:
  assumes "ok s"
  obtains (eof) s' where "poll s 1 = ([], s')" "content s = []"
  | (byte) b s' where "poll s 1 = ([b], s')" "content s = b # content s'" "ok s'"
proof -
  obtain bs s' where p: "poll s 1 = (bs, s')" by force
  show ?thesis
  proof (cases bs)
    case Nil
    with p assms have "content s = []" by (auto intro: poll_progress)
    with p Nil show ?thesis using eof by blast
  next
    case (Cons b r)
    moreover have "length bs \<le> 1" by (rule poll_room [OF assms p])
    ultimately have "bs = [b]" by simp
    with p poll_content [OF assms p] poll_ok [OF assms p] show ?thesis using byte by simp
  qed
qed

lemma read_head_loop_spec:
  assumes "ok s" "\<forall>m \<le> length buf. \<not> suffix blank_line (take m buf)" "length buf < MAX_HEAD_BYTES"
  shows "case head_len (buf @ content s) of
      Some n \<Rightarrow>
        if n \<le> MAX_HEAD_BYTES
        then \<exists>s'. read_head_loop poll s buf = Inr (take n (buf @ content s), s')
               \<and> content s' = drop n (buf @ content s) \<and> ok s'
        else \<exists>e. read_head_loop poll s buf = Inl (InvalidData, e)
    | None \<Rightarrow>
        if length (buf @ content s) < MAX_HEAD_BYTES
        then \<exists>e. read_head_loop poll s buf = Inl (UnexpectedEof, e)
        else \<exists>e. read_head_loop poll s buf = Inl (InvalidData, e)"
  using assms
proof (induction "MAX_HEAD_BYTES - length buf" arbitrary: s buf rule: less_induct)
  case less
  from less.prems(1) show ?case
  proof (cases rule: poll_one)
    case (eof s')
    moreover have "head_len buf = None" using less.prems(2) by (simp add: head_len_None)
    ultimately show ?thesis using less.prems(3) by (simp add: read_head_loop.simps [of poll s])
  next
    case (byte b s')
    let ?buf = "buf @ [b]"
    have c: "buf @ content s = ?buf @ content s'" using byte by simp
    show ?thesis
    proof (cases "suffix blank_line ?buf")
      case True
      have "head_len (buf @ content s) = Some (length ?buf)"
        unfolding head_len_Some using True less.prems(2) by (auto simp: c)
      with True less.prems(3) byte show ?thesis
        by (simp add: read_head_loop.simps [of poll s] c)
    next
      case False
      then have none: "\<forall>m \<le> length ?buf. \<not> suffix blank_line (take m ?buf)"
        using less.prems(2) by (auto simp: le_Suc_eq)
      show ?thesis
      proof (cases "length ?buf \<ge> MAX_HEAD_BYTES")
        case True
        have r: "\<exists>e. read_head_loop poll s buf = Inl (InvalidData, e)"
          using False True byte by (simp add: read_head_loop.simps [of poll s])
        have "MAX_HEAD_BYTES < n" if h: "head_len (?buf @ content s') = Some n" for n
        proof -
          from h have s: "suffix blank_line (take n (?buf @ content s'))" by (simp add: head_len_Some)
          then have "length ?buf < n" using none by (metis linorder_not_le take_append append_Nil2 diff_is_0_eq' take0)
          with True show ?thesis by simp
        qed
        then show ?thesis using r True unfolding c by (fastforce split: option.splits)
      next
        case short: False
        have eq: "read_head_loop poll s buf = read_head_loop poll s' ?buf"
          using False short byte by (simp add: read_head_loop.simps [of poll s] del: suffix_snoc)
        show ?thesis unfolding c eq
          by (rule less.hyps) (use byte none short less.prems(3) in auto)
      qed
    qed
  qed
qed

text \<open>A stream with a prefix put back in front is again a reader, of the prefix and the rest.\<close>

lemma head_stream_reader:
  "replay_reader (head_stream_poll poll)
     (\<lambda>s. drop (hs_pos s) (hs_prefix s) @ content (hs_inner s)) (\<lambda>s. ok (hs_inner s))"
proof
  fix s :: "'s head_stream" and n bs s'
  assume ok: "ok (hs_inner s)"
  let ?left = "drop (hs_pos s) (hs_prefix s)"
  {
    assume p: "head_stream_poll poll s n = (bs, s')"
    show "?left @ content (hs_inner s) = bs @ drop (hs_pos s') (hs_prefix s') @ content (hs_inner s')"
    proof (cases "hs_pos s < length (hs_prefix s)")
      case True
      define k where "k = min (length ?left) n"
      have bs: "bs = take k ?left" and s': "s' = s\<lparr>hs_pos := hs_pos s + k\<rparr>"
        using p True by (auto simp: head_stream_poll_def Let_def k_def)
      have "drop (hs_pos s') (hs_prefix s') = drop k ?left" by (simp add: s' add.commute)
      then show ?thesis unfolding bs append_assoc [symmetric] by (simp add: s' del: drop_drop)
    next
      case False
      then show ?thesis using p poll_content [OF ok]
        by (auto simp: head_stream_poll_def split: prod.splits)
    qed
    show "length bs \<le> n"
      using p poll_room [OF ok] by (auto simp: head_stream_poll_def Let_def split: if_splits prod.splits)
    show "ok (hs_inner s')"
      using p ok poll_ok [OF ok] by (auto simp: head_stream_poll_def Let_def split: if_splits prod.splits)
  }
  assume "0 < n" and "head_stream_poll poll s n = ([], s')"
  then show "?left @ content (hs_inner s) = []"
    using poll_progress [OF ok] by (auto simp: head_stream_poll_def Let_def split: if_splits prod.splits)
qed

end

interpretation hs: replay_reader "head_stream_poll prefixed_poll_read"
  "\<lambda>s. drop (hs_pos s) (hs_prefix s) @ prefixed_content (hs_inner s)" "\<lambda>s. prefixed_ok (hs_inner s)"
  by (rule ps.head_stream_reader)

text \<open>C27. Reading a request head off a connection, however its bytes are chunked: the head is the
  bytes up to and including the first blank line when that is within \<^verbatim>\<open>MAX_HEAD_BYTES\<close>, too many
  bytes without one are an error, and so is a connection that ends first. When the head parses,
  the WebSocket handshake that reads the connection through the replaying stream, with whatever
  buffer sizes, reads every byte the client sent, in order, the peeked head included.\<close>

theorem read_request_head_exact:
  assumes ok: "prefixed_ok s"
  shows "case head_len (prefixed_content s) of
      Some n \<Rightarrow>
        if n \<le> MAX_HEAD_BYTES then
          (case parse_request_head (take n (prefixed_content s)) of
             Inr head \<Rightarrow>
               (\<exists>s'. read_request_head prefixed_poll_read s
                      = Inr (head, take n (prefixed_content s), s')
                  \<and> (\<forall>ns. 0 \<notin> set ns \<and> length (prefixed_content s) \<le> length ns \<longrightarrow>
                       fst (hs.polls (head_stream_new (take n (prefixed_content s)) s') ns)
                         = prefixed_content s))
           | Inl e \<Rightarrow> read_request_head prefixed_poll_read s = Inl e)
        else \<exists>e. read_request_head prefixed_poll_read s = Inl (InvalidData, e)
    | None \<Rightarrow>
        if length (prefixed_content s) < MAX_HEAD_BYTES
        then \<exists>e. read_request_head prefixed_poll_read s = Inl (UnexpectedEof, e)
        else \<exists>e. read_request_head prefixed_poll_read s = Inl (InvalidData, e)"
proof -
  let ?c = "prefixed_content s"
  have "\<forall>m \<le> length []. \<not> suffix blank_line (take m [])" "length [] < MAX_HEAD_BYTES"
    by (simp_all add: blank_line_def MAX_HEAD_BYTES_def)
  note loop = ps.read_head_loop_spec [OF ok this]
  show ?thesis
  proof (cases "head_len ?c")
    case None
    with loop show ?thesis by (auto simp: read_request_head_def)
  next
    case (Some n)
    show ?thesis
    proof (cases "n \<le> MAX_HEAD_BYTES")
      case False
      with Some loop show ?thesis by (auto simp: read_request_head_def)
    next
      case True
      with Some loop obtain s' where r: "read_head_loop prefixed_poll_read s [] = Inr (take n ?c, s')"
        "prefixed_content s' = drop n ?c" "prefixed_ok s'"
        by auto
      have "fst (hs.polls (head_stream_new (take n ?c) s') ns) = ?c"
        if "0 \<notin> set ns" "length ?c \<le> length ns" for ns
        using hs.polls_all [of "head_stream_new (take n ?c) s'" ns] that r(2,3)
        by (simp add: head_stream_new_def)
      with Some True r show ?thesis
        by (auto simp: read_request_head_def split: sum.splits)
    qed
  qed
qed

definition demo_request :: string where
  "demo_request = ''GET / HTTP/1.1'' @ CRLF @ ''Host: r'' @ CRLF @ CRLF"

text \<open>A request split in the middle of its head, with bytes after it.\<close>

theorem read_request_head_exact_witness:
  "\<exists>head s'. read_request_head prefixed_poll_read
       (prefixed_new [] [take 5 (as_bytes demo_request), drop 5 (as_bytes demo_request) @ [7, 8]])
       = Inr (head, as_bytes demo_request, s') \<and> rh_host head = Some ''r''"
proof -
  let ?s = "prefixed_new [] [take 5 (as_bytes demo_request), drop 5 (as_bytes demo_request) @ [7, 8]]"
  have c: "prefixed_content ?s = as_bytes demo_request @ [7, 8]"
    unfolding prefixed_content_new by simp
  have n: "head_len (as_bytes demo_request @ [7, 8]) = Some 27" by code_simp
  have t: "take 27 (as_bytes demo_request @ [7, 8]) = as_bytes demo_request" by code_simp
  have p: "parse_request_head (as_bytes demo_request) =
      Inr \<lparr>rh_method = ''GET'', rh_target = ''/'', rh_host = Some ''r'', is_websocket_upgrade = False\<rparr>"
    by code_simp
  have "prefixed_ok ?s" by (simp add: prefixed_ok_def prefixed_new_def transport_ok_def, code_simp)
  from read_request_head_exact [OF this] show ?thesis
    unfolding c n option.case t p by (auto simp: MAX_HEAD_BYTES_def)
qed


section \<open>What a head says\<close>

text \<open>A head as a client writes it, and the reference reading of its headers: of several headers
  of a name, in any case, the last one counts.\<close>

definition render_head :: "string \<Rightarrow> string \<Rightarrow> string \<Rightarrow> (string \<times> string) list \<Rightarrow> string" where
  "render_head v m target hs = m @ '' '' @ target @ '' '' @ v @ CRLF @ header_lines hs @ CRLF"

definition last_header :: "string \<Rightarrow> (string \<times> string) list \<Rightarrow> string option" where
  "last_header n hs =
     (case filter (\<lambda>(k, _). eq_ignore_ascii_case (trim k) n) hs of
        [] \<Rightarrow> None
      | l \<Rightarrow> Some (trim (snd (last l))))"

definition header_ok :: "string \<times> string \<Rightarrow> bool" where
  "header_ok = (\<lambda>(n, v). CHR '':'' \<notin> set n \<and> CHR 0x0D \<notin> set n \<and> CHR 0x0D \<notin> set v)"

lemma last_header_snoc:
  "last_header n (hs @ [(k, v)]) =
     (if eq_ignore_ascii_case (trim k) n then Some (trim v) else last_header n hs)"
  by (cases "filter (\<lambda>(k, _). eq_ignore_ascii_case (trim k) n) hs") (simp_all add: last_header_def)

lemma split_header_lines:
  assumes "\<forall>h \<in> set hs. header_ok h"
  shows "split_str CRLF (header_lines hs @ CRLF) = map (\<lambda>(n, v). n @ '': '' @ v) hs @ [[], []]"
  using assms
proof (induction hs)
  case Nil
  show ?case using split_str_hit [of CRLF "[]"] by (simp add: CRLF_def)
next
  case (Cons h hs)
  obtain n v where h: "h = (n, v)" by force
  let ?l = "n @ '': '' @ v"
  have "CHR 0x0D \<notin> set ?l" using Cons.prems h by (simp add: header_ok_def)
  then have "split_str CRLF (?l @ CRLF @ header_lines hs @ CRLF) = ?l # split_str CRLF (header_lines hs @ CRLF)"
    by (intro split_str_append) (simp_all add: CRLF_def)
  with Cons h show ?case by simp
qed

definition flags_of :: "(string \<times> string) list \<Rightarrow> head_flags" where
  "flags_of hs = \<lparr>hf_host = last_header ''host'' hs,
     hf_connection_upgrade = (case last_header ''connection'' hs of
         None \<Rightarrow> False
       | Some v \<Rightarrow> list_ex (\<lambda>t. eq_ignore_ascii_case (trim t) ''upgrade'') (split_on (CHR '','') v)),
     hf_upgrade_websocket = (case last_header ''upgrade'' hs of
         None \<Rightarrow> False
       | Some v \<Rightarrow> eq_ignore_ascii_case v ''websocket'')\<rparr>"

lemma parse_header_pair:
  assumes "header_ok (n, v)"
  shows "parse_header (flags_of hs) (n @ '': '' @ v) = flags_of (hs @ [(n, v)])"
proof -
  define line where "line = n @ '': '' @ v"
  have s: "split_once (CHR '':'') line = Some (n, CHR '' '' # v)"
    using assms by (simp add: split_once_Some header_ok_def line_def)
  have "eq_ignore_ascii_case x a \<Longrightarrow> length x = length a" for x a
    unfolding eq_ignore_ascii_case_def by (drule arg_cong [of _ _ length]) simp
  from this [of "trim n" "''host''"] this [of "trim n" "''connection''"] this [of "trim n" "''upgrade''"]
  have "\<not> (eq_ignore_ascii_case (trim n) ''host'' \<and> eq_ignore_ascii_case (trim n) ''connection'')"
    "\<not> (eq_ignore_ascii_case (trim n) ''host'' \<and> eq_ignore_ascii_case (trim n) ''upgrade'')"
    "\<not> (eq_ignore_ascii_case (trim n) ''connection'' \<and> eq_ignore_ascii_case (trim n) ''upgrade'')"
    by auto
  then show ?thesis unfolding line_def [symmetric]
    by (auto simp: parse_header_def s trim_space flags_of_def last_header_snoc Let_def)
qed

lemma parse_headers_pairs:
  assumes "\<forall>h \<in> set hs. header_ok h"
  shows "parse_headers (flags_of hs0) (map (\<lambda>(n, v). n @ '': '' @ v) hs @ [] # r) = flags_of (hs0 @ hs)"
  using assms
proof (induction hs arbitrary: hs0)
  case (Cons h hs)
  obtain n v where h: "h = (n, v)" by force
  have "parse_header (flags_of hs0) (n @ '': '' @ v) = flags_of (hs0 @ [(n, v)])"
    using Cons.prems h by (intro parse_header_pair) simp
  with Cons.IH [of "hs0 @ [(n, v)]"] Cons.prems h show ?case by simp
qed simp

lemma parse_rendered:
  assumes m: "m \<noteq> []" "CHR '' '' \<notin> set m" "CHR 0x0D \<notin> set m"
    and t: "target \<noteq> []" "CHR '' '' \<notin> set target" "CHR 0x0D \<notin> set target"
    and v: "CHR 0x0D \<notin> set v"
    and hs: "\<forall>h \<in> set hs. header_ok h"
    and utf8: "is_utf8 (render_head v m target hs)"
  shows "parse_request_head (as_bytes (render_head v m target hs)) =
    Inr \<lparr>rh_method = to_ascii_uppercase m, rh_target = target,
         rh_host = last_header ''host'' hs,
         is_websocket_upgrade =
           (hf_connection_upgrade (flags_of hs) \<and> hf_upgrade_websocket (flags_of hs))\<rparr>"
proof -
  define req where "req = m @ '' '' @ target @ '' '' @ v"
  define hl where "hl = map (\<lambda>(n, v). n @ '': '' @ v) hs"
  have "CHR 0x0D \<notin> set req" unfolding req_def using m(3) t(3) v by simp
  then have "split_str CRLF (req @ CRLF @ header_lines hs @ CRLF) = req # split_str CRLF (header_lines hs @ CRLF)"
    by (intro split_str_append) (simp_all add: CRLF_def)
  then have lines: "split_str CRLF (render_head v m target hs) = req # hl @ [[], []]"
    using split_header_lines [OF hs] by (simp add: render_head_def req_def hl_def)
  have parts: "split_on (CHR '' '') req = m # target # split_on (CHR '' '') v"
    using split_on_append [OF m(2), of "target @ CHR '' '' # v"]
      split_on_append [OF t(2), of v] by (simp add: req_def)
  have "no_flags = flags_of []" by (simp add: no_flags_def flags_of_def last_header_def)
  then have flags: "parse_headers no_flags (hl @ [[], []]) = flags_of hs"
    using parse_headers_pairs [OF hs, of "[]" "[[]]"] by (simp add: hl_def)
  show ?thesis
    using utf8 m(1) t(1) by (simp add: parse_request_head_def lines parts flags Let_def flags_of_def)
qed

text \<open>C28. Parsing a head gives what a client wrote: the method in upper case, the target as sent,
  the host of the last host header, and a WebSocket upgrade exactly when the last connection
  header lists \<^verbatim>\<open>upgrade\<close> and the last upgrade header is \<^verbatim>\<open>websocket\<close>, whatever the case of names and
  values and the white space around them.\<close>

theorem parse_rendered_head:
  assumes m: "m \<noteq> []" "CHR '' '' \<notin> set m" "CHR 0x0D \<notin> set m"
    and t: "target \<noteq> []" "CHR '' '' \<notin> set target" "CHR 0x0D \<notin> set target"
    and hs: "\<forall>h \<in> set hs. header_ok h"
    and utf8: "is_utf8 (render_head ''HTTP/1.1'' m target hs)"
  shows "parse_request_head (as_bytes (render_head ''HTTP/1.1'' m target hs)) =
    Inr \<lparr>rh_method = to_ascii_uppercase m, rh_target = target,
         rh_host = last_header ''host'' hs,
         is_websocket_upgrade =
           (hf_connection_upgrade (flags_of hs) \<and> hf_upgrade_websocket (flags_of hs))\<rparr>"
  by (rule parse_rendered) (use assms in simp_all)

theorem parse_rendered_head_witness:
  "parse_request_head (as_bytes (render_head ''HTTP/1.1'' ''get'' ''/ws'' [(''CONNECTION'', ''keep-alive, Upgrade''), (''upgrade'', ''WebSocket'')]))
    = Inr \<lparr>rh_method = ''GET'', rh_target = ''/ws'', rh_host = None, is_websocket_upgrade = True\<rparr>"
proof -
  let ?hs = "[(''CONNECTION'', ''keep-alive, Upgrade''), (''upgrade'', ''WebSocket'')]"
  have "is_utf8 (render_head ''HTTP/1.1'' ''get'' ''/ws'' ?hs)" by code_simp
  moreover have "\<forall>h \<in> set ?hs. header_ok h" by code_simp
  moreover have "hf_connection_upgrade (flags_of ?hs) \<and> hf_upgrade_websocket (flags_of ?hs)" by code_simp
  moreover have "last_header ''host'' ?hs = None" by code_simp
  moreover have "to_ascii_uppercase ''get'' = ''GET''" by code_simp
  moreover have "CHR 0x0D \<notin> set ''get''" "CHR 0x0D \<notin> set ''/ws''" by code_simp+
  ultimately show ?thesis using parse_rendered_head [of "''get''" "''/ws''" ?hs] by simp
qed

end
