(* ===== verification/Dashboard.thy ===== *)
theory Dashboard
  imports Geo_Map Http_Serve Server
begin

text \<open>
  \<^verbatim>\<open>src/dashboard.rs\<close> and \<^verbatim>\<open>src/health.rs\<close>: the read-only HTTP surface. The pages and images compiled into
  the binary, its version and the JSON printer are fields of a \<open>site\<close> record; JSON bodies are built as
  values. Slicing a string off a character boundary panics, so a snapshot is an option. Shown: when a
  snapshot can be taken and that it is complete and tells of a peer what the privacy contract
  allows; that one client-chosen peer id takes every page of the traffic port down, health check
  included; which requests each port answers how; and that no request head makes the redirect listener
  write anything but one well-framed response.
\<close>

definition STATS_SCHEMA_VERSION :: u32 where "STATS_SCHEMA_VERSION = 1"
definition PEER_ID_PREFIX_LEN :: nat where "PEER_ID_PREFIX_LEN = 12"
definition STUN_INFO_SCHEMA_VERSION :: u32 where "STUN_INFO_SCHEMA_VERSION = 1"

text \<open>What is compiled in, and \<^verbatim>\<open>serde_json::to_vec\<close>.\<close>

record site =
  site_version :: string
  DASHBOARD_HTML :: string
  MAP_HTML :: string
  DHT_HTML :: string
  STUN_USAGE_HTML :: string
  MASCOT_PNG :: "u8 list"
  GLOBE_GL_JS :: "u8 list"
  EARTH_JPG :: "u8 list"
  to_vec :: "json \<Rightarrow> u8 list"
  site_db :: geo_db

section \<open>The snapshot\<close>

record counters =
  ct_connected_peers :: u64
  ct_open_connections :: u64
  ct_stun_requests :: u64
  ct_hole_punch_requests :: u64
  ct_hole_punch_successes :: u64
  ct_hole_punch_failures :: u64
  ct_bytes_relayed :: u64

record peer_row =
  pr_peer_id :: string
  pr_network_id :: string
  pr_via :: string
  pr_address_family :: string
  pr_protocol_version :: u32
  pr_connected_at :: u64
  pr_connected_secs :: u64

record network_row =
  nr_network_id :: string
  nr_peers :: nat

record stats_snapshot =
  ss_schema_version :: u32
  ss_status :: string
  ss_version :: string
  ss_uptime_secs :: u64
  ss_active_reservations :: nat
  ss_counters :: counters
  ss_networks :: "network_row list"
  ss_peers :: "peer_row list"

definition wants_full :: "string \<Rightarrow> bool" where
  "wants_full target = list_ex (\<lambda>needle. sublist needle target) [''full=1'', ''full=true'', ''full=yes'']"

definition address_family :: "socket_addr option \<Rightarrow> string" where
  "address_family addr =
     (case map_option (\<lambda>a. to_canonical (sa_ip a)) addr of
        Some ip \<Rightarrow> if ip_is_ipv4 ip then ''v4'' else ''v6''
      | None \<Rightarrow> ''none'')"

text \<open>The ellipsis is U+2026.\<close>

definition truncate_peer_id :: "string \<Rightarrow> string option" where
  "truncate_peer_id peer_id =
     (if length peer_id \<le> PEER_ID_PREFIX_LEN then Some peer_id
      else map_option (\<lambda>p. p @ [CHR 0xE2, CHR 0x80, CHR 0xA6]) (slice_to peer_id PEER_ID_PREFIX_LEN))"

definition first_opt :: "'a list \<Rightarrow> 'a option" where
  "first_opt xs = (case xs of [] \<Rightarrow> None | x # _ \<Rightarrow> Some x)"

definition peer_row_of :: "relay_peer_info \<Rightarrow> u64 \<Rightarrow> bool \<Rightarrow> peer_row option" where
  "peer_row_of info now_secs full =
     (let dialable = first_opt (pi_addresses info)
      in map_option (\<lambda>peer_id.
           \<lparr>pr_peer_id = peer_id, pr_network_id = pi_network_id info,
            pr_via = (if dialable \<noteq> None then ''direct'' else ''relay''),
            pr_address_family = address_family dialable,
            pr_protocol_version = pi_protocol_version info, pr_connected_at = pi_connected_at info,
            pr_connected_secs = sat_sub now_secs (pi_connected_at info)\<rparr>)
         (if full then Some (pi_peer_id info) else truncate_peer_id (pi_peer_id info)))"

fun collect_options :: "'a option list \<Rightarrow> 'a list option" where
  "collect_options [] = Some []"
| "collect_options (x # xs) =
     (case x of None \<Rightarrow> None | Some y \<Rightarrow> map_option ((#) y) (collect_options xs))"

definition build_snapshot ::
  "site \<Rightarrow> relay_peer_info list \<Rightarrow> counters \<Rightarrow> u64 \<Rightarrow> u64 \<Rightarrow> bool \<Rightarrow> stats_snapshot option" where
  "build_snapshot site ps c uptime_secs now_secs full =
     (let networks = map (\<lambda>(n, k). \<lparr>nr_network_id = n, nr_peers = k\<rparr>) (btree (tally (map pi_network_id ps)))
      in map_option (\<lambda>rows.
           \<lparr>ss_schema_version = STATS_SCHEMA_VERSION, ss_status = ''ok'', ss_version = site_version site,
            ss_uptime_secs = uptime_secs, ss_active_reservations = length ps, ss_counters = c,
            ss_networks = networks, ss_peers = sort_key pr_peer_id rows\<rparr>)
         (collect_options (map (\<lambda>p. peer_row_of p now_secs full) ps)))"

definition counters_of :: "('e, 'm) relay_state \<Rightarrow> counters" where
  "counters_of st =
     \<lparr>ct_connected_peers = connected st, ct_open_connections = open_connections st,
      ct_stun_requests = stun_requests st, ct_hole_punch_requests = hole_punch_requests st,
      ct_hole_punch_successes = hole_punch_successes st, ct_hole_punch_failures = hole_punch_failures st,
      ct_bytes_relayed = bytes_relayed st\<rparr>"

definition empty_map_snapshot :: "site \<Rightarrow> map_snapshot" where
  "empty_map_snapshot site = build_map_snapshot [] (locate (site_db site)) MAP_CELL_DEG 0"

section \<open>Bodies\<close>

abbreviation json_word :: "'a::len word \<Rightarrow> json" where "json_word w \<equiv> json_nat (unat w)"

definition stats_json :: "stats_snapshot \<Rightarrow> json" where
  "stats_json s = (let c = ss_counters s in JObj
     [(''schema_version'', json_word (ss_schema_version s)), (''status'', JStr (ss_status s)),
      (''version'', JStr (ss_version s)), (''uptime_secs'', json_word (ss_uptime_secs s)),
      (''active_reservations'', json_nat (ss_active_reservations s)),
      (''connected_peers'', json_word (ct_connected_peers c)),
      (''open_connections'', json_word (ct_open_connections c)),
      (''stun_requests'', json_word (ct_stun_requests c)),
      (''hole_punch_requests'', json_word (ct_hole_punch_requests c)),
      (''hole_punch_successes'', json_word (ct_hole_punch_successes c)),
      (''hole_punch_failures'', json_word (ct_hole_punch_failures c)),
      (''bytes_relayed'', json_word (ct_bytes_relayed c)),
      (''networks'', JArr (map (\<lambda>n. JObj
         [(''network_id'', JStr (nr_network_id n)), (''peers'', json_nat (nr_peers n))]) (ss_networks s))),
      (''peers'', JArr (map (\<lambda>p. JObj
         [(''peer_id'', JStr (pr_peer_id p)), (''network_id'', JStr (pr_network_id p)),
          (''via'', JStr (pr_via p)), (''address_family'', JStr (pr_address_family p)),
          (''protocol_version'', json_word (pr_protocol_version p)),
          (''connected_at'', json_word (pr_connected_at p)),
          (''connected_secs'', json_word (pr_connected_secs p))]) (ss_peers s)))])"

definition map_json :: "map_snapshot \<Rightarrow> json" where
  "map_json m = JObj
     [(''schema_version'', json_word (ms_schema_version m)),
      (''generated_at'', json_word (ms_generated_at m)), (''cell_deg'', json_f64 (ms_cell_deg m)),
      (''total_peers'', json_nat (ms_total_peers m)), (''located_peers'', json_nat (ms_located_peers m)),
      (''unknown_peers'', json_nat (ms_unknown_peers m)),
      (''cells'', JArr (map (\<lambda>c. JObj
         [(''lat'', json_f64 (mc_lat c)), (''lon'', json_f64 (mc_lon c)), (''count'', json_nat (mc_count c))])
         (ms_cells m)))]"

definition dht_json :: "dht_view \<Rightarrow> json" where
  "dht_json v = JObj
     [(''schema_version'', json_word (dv_schema_version v)),
      (''generated_at'', json_word (dv_generated_at v)),
      (''reporting_peers'', json_nat (dv_reporting_peers v)), (''total_keys'', json_nat (dv_total_keys v)),
      (''truncated'', JBool (dv_truncated v)),
      (''keys'', JArr (map (\<lambda>e. JObj
         [(''content_key'', JStr (ve_content_key e)), (''providers'', json_nat (ve_providers e)),
          (''reported_by'', json_nat (ve_reported_by e))]) (dv_keys v)))]"

text \<open>\<^verbatim>\<open>health.rs\<close>: the body of the standalone health listener.\<close>

record health =
  he_status :: string
  he_connected_peers :: u64
  he_uptime_secs :: u64
  he_version :: string

definition health_snapshot :: "site \<Rightarrow> ('e, 'm) relay_state \<Rightarrow> u64 \<Rightarrow> health" where
  "health_snapshot site st uptime =
     \<lparr>he_status = ''ok'', he_connected_peers = connected st, he_uptime_secs = uptime,
      he_version = site_version site\<rparr>"

definition health_json :: "health \<Rightarrow> json" where
  "health_json h = JObj
     [(''status'', JStr (he_status h)), (''connected_peers'', json_word (he_connected_peers h)),
      (''uptime_secs'', json_word (he_uptime_secs h)), (''version'', JStr (he_version h))]"

section \<open>Routes\<close>

record dashboard_response =
  dr_status :: u16
  dr_reason :: string
  dr_content_type :: string
  dr_cache_control :: "string option"
  dr_body :: "u8 list"

definition ok_response :: "string \<Rightarrow> string option \<Rightarrow> u8 list \<Rightarrow> dashboard_response" where
  "ok_response ct cc body =
     \<lparr>dr_status = 200, dr_reason = ''OK'', dr_content_type = ct, dr_cache_control = cc, dr_body = body\<rparr>"

definition not_found :: dashboard_response where
  "not_found =
     \<lparr>dr_status = 404, dr_reason = ''Not Found'', dr_content_type = ''text/plain; charset=utf-8'',
      dr_cache_control = None, dr_body = as_bytes (''not found'' @ [CHR 0x0A])\<rparr>"

definition html_type :: string where "html_type = ''text/html; charset=utf-8''"
definition immutable :: string where "immutable = ''public, max-age=31536000, immutable''"

definition route ::
  "site \<Rightarrow> string \<Rightarrow> stats_snapshot \<Rightarrow> map_snapshot \<Rightarrow> dht_view \<Rightarrow> dashboard_response" where
  "route site path snapshot map_snapshot dht_view =
     (if path = ''/'' then ok_response html_type None (as_bytes (DASHBOARD_HTML site))
      else if path = ''/stats.json'' then
        ok_response ''application/json'' (Some ''no-store'') (to_vec site (stats_json snapshot))
      else if path = ''/health'' then
        ok_response ''application/json'' (Some ''no-store'')
          (to_vec site (json_map
             [(''status'', JStr ''ok''),
              (''connected_peers'', json_word (ct_connected_peers (ss_counters snapshot))),
              (''uptime_secs'', json_word (ss_uptime_secs snapshot)),
              (''version'', JStr (site_version site))]))
      else if path = ''/mascot.png'' then ok_response ''image/png'' (Some immutable) (MASCOT_PNG site)
      else if path = ''/map'' then ok_response html_type None (as_bytes (MAP_HTML site))
      else if path = ''/map.json'' then
        ok_response ''application/json'' (Some ''no-store'') (to_vec site (map_json map_snapshot))
      else if path = ''/dht.json'' then
        ok_response ''application/json'' (Some ''no-store'') (to_vec site (dht_json dht_view))
      else if path = ''/dht'' then ok_response html_type None (as_bytes (DHT_HTML site))
      else if path = ''/map/globe.gl.min.js'' then
        ok_response ''application/javascript; charset=utf-8'' (Some immutable) (GLOBE_GL_JS site)
      else if path = ''/map/earth.jpg'' then ok_response ''image/jpeg'' (Some immutable) (EARTH_JPG site)
      else not_found)"

record stun_info =
  si_schema_version :: u32
  si_host :: string
  si_port :: u16
  si_transport :: string
  si_families :: "string list"
  si_scope :: string

definition stun_info_of :: "string \<Rightarrow> u16 \<Rightarrow> stun_info" where
  "stun_info_of host stun_port =
     \<lparr>si_schema_version = STUN_INFO_SCHEMA_VERSION, si_host = host, si_port = stun_port,
      si_transport = ''udp'', si_families = [''A'', ''AAAA''],
      si_scope = ''RFC 5389 STUN Binding responder for the DIG Network ''
        @ [CHR 0xE2, CHR 0x80, CHR 0x94] @ '' not a general-purpose public ''
        @ ''STUN service, not a proxy, and not a destination for anything but a Binding request.''\<rparr>"

definition stun_json :: "stun_info \<Rightarrow> json" where
  "stun_json i = JObj
     [(''schema_version'', json_word (si_schema_version i)), (''host'', JStr (si_host i)),
      (''port'', json_word (si_port i)), (''transport'', JStr (si_transport i)),
      (''families'', JArr (map JStr (si_families i))), (''scope'', JStr (si_scope i))]"

definition stun_html :: "site \<Rightarrow> string \<Rightarrow> u8 list" where
  "stun_html site host =
     (let relay_domain = (case strip_prefix ''stun.'' host of Some d \<Rightarrow> d | None \<Rightarrow> host)
      in as_bytes (str_replace ''{{RELAY_DOMAIN}}'' relay_domain
           (str_replace ''{{HOST}}'' host (STUN_USAGE_HTML site))))"

definition is_stun_host :: "string option \<Rightarrow> bool" where
  "is_stun_host host =
     (case host of
        None \<Rightarrow> False
      | Some h \<Rightarrow> prefix ''stun.'' (to_ascii_lowercase (hd (split_on (CHR '':'') h))))"

definition route_stun :: "site \<Rightarrow> string \<Rightarrow> string \<Rightarrow> u16 \<Rightarrow> dashboard_response" where
  "route_stun site path host stun_port =
     (if path = ''/'' then ok_response html_type None (stun_html site host)
      else if path = ''/stun.json'' then
        ok_response ''application/json'' (Some ''no-store'') (to_vec site (stun_json (stun_info_of host stun_port)))
      else if path = ''/mascot.png'' then ok_response ''image/png'' (Some immutable) (MASCOT_PNG site)
      else not_found)"

section \<open>Serving a request\<close>

definition live_snapshot ::
  "site \<Rightarrow> ('e, 'm) relay_state \<Rightarrow> u64 \<Rightarrow> u64 \<Rightarrow> bool \<Rightarrow> stats_snapshot option" where
  "live_snapshot site st uptime now full =
     build_snapshot site (peers (st_registry st) None) (counters_of st) uptime now full"

definition live_map_snapshot :: "site \<Rightarrow> ('e, 'm) relay_state \<Rightarrow> u64 \<Rightarrow> map_snapshot" where
  "live_map_snapshot site st now =
     build_map_snapshot (peers (st_registry st) None) (locate (site_db site)) MAP_CELL_DEG now"

definition write_dashboard_response :: "dashboard_response \<Rightarrow> u8 list" where
  "write_dashboard_response resp =
     write_response (dr_status resp) (dr_reason resp)
       ([(''Content-Type'', dr_content_type resp)]
        @ (case dr_cache_control resp of Some cc \<Rightarrow> [(''Cache-Control'', cc)] | None \<Rightarrow> []))
       (dr_body resp)"

definition serve_page ::
  "site \<Rightarrow> ('e, 'm) relay_state \<Rightarrow> u64 \<Rightarrow> u64 \<Rightarrow> u64 \<Rightarrow> request_head \<Rightarrow> u8 list option" where
  "serve_page site st uptime now now_map head =
     (case live_snapshot site st uptime now (wants_full (rh_target head)) of
        None \<Rightarrow> None
      | Some snapshot \<Rightarrow>
          (let path = request_path head;
               map_snapshot = (if path = ''/map'' \<or> path = ''/map.json''
                               then live_map_snapshot site st now_map else empty_map_snapshot site)
           in Some (write_dashboard_response (route site path snapshot map_snapshot (st_dht_view st)))))"

text \<open>The bytes written, or nothing when the task panics. The clock is read for the stats and again for
  the map.\<close>

definition serve_http ::
  "site \<Rightarrow> ('e, 'm) relay_state \<Rightarrow> u64 \<Rightarrow> u64 \<Rightarrow> u64 \<Rightarrow> request_head \<Rightarrow> u8 list option" where
  "serve_http site st uptime now now_map head =
     (case rh_host head of
        Some host \<Rightarrow>
          if is_stun_host (Some host)
          then Some (write_dashboard_response
                 (route_stun site (request_path head) host (sa_port (stun_listen (st_config st)))))
          else serve_page site st uptime now now_map head
      | None \<Rightarrow> serve_page site st uptime now now_map head)"

definition https_location :: "request_head \<Rightarrow> string" where
  "https_location head =
     ''https://'' @ (case rh_host head of Some h \<Rightarrow> h | None \<Rightarrow> ''relay.dig.net'') @ rh_target head"

datatype redirect_action = ServeDirect dashboard_response | Redirect string

definition decide_redirect :: "site \<Rightarrow> request_head \<Rightarrow> u16 \<Rightarrow> redirect_action" where
  "decide_redirect site head stun_port =
     (case rh_host head of
        Some host \<Rightarrow>
          if is_stun_host (Some host)
          then ServeDirect (route_stun site (request_path head) host stun_port)
          else Redirect (https_location head)
      | None \<Rightarrow> Redirect (https_location head))"

text \<open>One connection of the redirect listener: what is written, nothing when the head is not readable.\<close>

definition redirect_conn :: "site \<Rightarrow> u16 \<Rightarrow> ('s \<Rightarrow> nat \<Rightarrow> u8 list \<times> 's) \<Rightarrow> 's \<Rightarrow> u8 list" where
  "redirect_conn site stun_port poll s =
     (case read_request_head poll s of
        Inl _ \<Rightarrow> []
      | Inr (head, _, _) \<Rightarrow>
          (case decide_redirect site head stun_port of
             ServeDirect resp \<Rightarrow> write_dashboard_response resp
           | Redirect location \<Rightarrow>
               write_response 301 ''Moved Permanently'' [(''Location'', location)] []))"

section \<open>What the snapshot tells\<close>

lemma collect_options_None: "collect_options xs = None \<longleftrightarrow> None \<in> set xs"
  by (induction xs) (auto split: option.splits)

lemma collect_options_Some: "collect_options xs = Some ys \<longleftrightarrow> xs = map Some ys"
proof (induction xs arbitrary: ys)
  case (Cons x xs)
  show ?case
  proof (cases x)
    case (Some y)
    have "collect_options (x # xs) = Some ys \<longleftrightarrow> (\<exists>zs. collect_options xs = Some zs \<and> ys = y # zs)"
      using Some by (auto simp: map_option_case split: option.splits)
    with Some Cons show ?thesis by (cases ys) auto
  qed auto
qed auto

text \<open>The peer ids a short view cannot be made of: those whose twelfth byte lies inside a character.\<close>

definition splits_char :: "string \<Rightarrow> bool" where
  "splits_char peer_id \<longleftrightarrow>
     PEER_ID_PREFIX_LEN < length peer_id \<and> utf8_tail (of_char (peer_id ! PEER_ID_PREFIX_LEN))"

lemma truncate_peer_id_None: "truncate_peer_id peer_id = None \<longleftrightarrow> splits_char peer_id"
  by (auto simp: truncate_peer_id_def splits_char_def slice_to_def is_char_boundary_def PEER_ID_PREFIX_LEN_def)

lemma peer_row_None: "peer_row_of p now full = None \<longleftrightarrow> \<not> full \<and> splits_char (pi_peer_id p)"
  by (simp add: peer_row_of_def Let_def truncate_peer_id_None)

lemma build_snapshot_None:
  "build_snapshot site ps c up now full = None \<longleftrightarrow> \<not> full \<and> (\<exists>p \<in> set ps. splits_char (pi_peer_id p))"
proof -
  have "build_snapshot site ps c up now full = None \<longleftrightarrow> None \<in> set (map (\<lambda>p. peer_row_of p now full) ps)"
    by (simp add: build_snapshot_def collect_options_None)
  also have "\<dots> \<longleftrightarrow> (\<exists>p \<in> set ps. peer_row_of p now full = None)" by (auto simp: image_iff eq_commute)
  finally show ?thesis by (auto simp: peer_row_None)
qed

text \<open>All that is told of a peer.\<close>

definition peer_facts :: "bool \<Rightarrow> relay_peer_info \<Rightarrow> string option \<times> string \<times> string \<times> u32 \<times> u64" where
  "peer_facts full p =
     (if full then Some (pi_peer_id p) else truncate_peer_id (pi_peer_id p), pi_network_id p,
      address_family (first_opt (pi_addresses p)), pi_protocol_version p, pi_connected_at p)"

lemma address_family_none: "address_family a = ''none'' \<longleftrightarrow> a = None"
  by (cases a) (simp_all add: address_family_def)

lemma peer_row_facts: "peer_facts full p = peer_facts full q \<Longrightarrow> peer_row_of p now full = peer_row_of q now full"
proof -
  assume f: "peer_facts full p = peer_facts full q"
  then have fam: "address_family (first_opt (pi_addresses p)) = address_family (first_opt (pi_addresses q))"
    by (simp add: peer_facts_def)
  have "first_opt (pi_addresses p) = None \<longleftrightarrow> first_opt (pi_addresses q) = None"
    unfolding address_family_none [symmetric] fam ..
  with f show ?thesis by (simp add: peer_row_of_def peer_facts_def Let_def del: not_None_eq)
qed

lemma facts_network: "peer_facts full p = peer_facts full q \<Longrightarrow> pi_network_id p = pi_network_id q"
  by (simp add: peer_facts_def)

lemma map_facts:
  assumes "map (peer_facts full) ps = map (peer_facts full) qs"
  shows "map (\<lambda>p. peer_row_of p now full) ps = map (\<lambda>p. peer_row_of p now full) qs"
    and "map pi_network_id ps = map pi_network_id qs" and "length ps = length qs"
proof -
  have len: "length ps = length qs" using assms by (rule map_eq_imp_length_eq)
  have at: "peer_facts full (ps ! i) = peer_facts full (qs ! i)" if "i < length ps" for i
    using arg_cong [OF assms, of "\<lambda>xs. xs ! i"] that len by simp
  show "map (\<lambda>p. peer_row_of p now full) ps = map (\<lambda>p. peer_row_of p now full) qs"
    using len at by (intro nth_equalityI) (auto intro: peer_row_facts)
  show "map pi_network_id ps = map pi_network_id qs"
  proof (rule nth_equalityI)
    show "map pi_network_id ps ! i = map pi_network_id qs ! i" if "i < length (map pi_network_id ps)" for i
      using that len facts_network [OF at [of i]] by simp
  qed (simp add: len)
  show "length ps = length qs" by (rule len)
qed


definition demo_counters :: counters where
  "demo_counters = \<lparr>ct_connected_peers = 1, ct_open_connections = 1, ct_stun_requests = 0, ct_hole_punch_requests = 0,
     ct_hole_punch_successes = 0, ct_hole_punch_failures = 0, ct_bytes_relayed = 0\<rparr>"

definition demo_site :: site where
  "demo_site = \<lparr>site_version = ''0'', DASHBOARD_HTML = [], MAP_HTML = [], DHT_HTML = [], STUN_USAGE_HTML = [],
     MASCOT_PNG = [], GLOBE_GL_JS = [], EARTH_JPG = [], to_vec = (\<lambda>_. []), site_db = None\<rparr>"

text \<open>An id of eleven letters and one two-byte one.\<close>

definition demo_id :: string where
  "demo_id = ''aaaaaaaaaaa'' @ [CHR 0xC3, CHR 0xA9]"


section \<open>What the traffic port answers\<close>

lemma set_all_peers: "set (peers r None) = p_info ` snd ` set r"
  by (simp add: peers_def image_image)

definition known_paths :: "string list" where
  "known_paths = [''/'', ''/stats.json'', ''/health'', ''/mascot.png'', ''/map'', ''/map.json'', ''/dht.json'',
     ''/dht'', ''/map/globe.gl.min.js'', ''/map/earth.jpg'']"

lemma route_status: "dr_status (route site path s m v) = (if path \<in> set known_paths then 200 else 404)"
  by (simp add: route_def known_paths_def ok_response_def not_found_def)

lemma health_same:
  assumes "ct_connected_peers (ss_counters s) = connected st" "ss_uptime_secs s = up"
  shows "\<exists>j. dr_body (route site ''/health'' s m v) = to_vec site j
    \<and> json_field j = json_field (health_json (health_snapshot site st up))"
proof -
  define fs where "fs = [(''status'', JStr ''ok''), (''connected_peers'', json_word (connected st)),
    (''uptime_secs'', json_word up), (''version'', JStr (site_version site))]"
  have "dr_body (route site ''/health'' s m v) = to_vec site (json_map fs)"
    by (simp add: route_def ok_response_def assms fs_def)
  moreover have "health_json (health_snapshot site st up) = JObj fs"
    by (simp add: health_json_def health_snapshot_def fs_def)
  moreover have "distinct (map fst fs)" by (simp add: fs_def)
  then have "json_field (json_map fs) = json_field (JObj fs)"
    by (intro ext) (simp add: json_field_map, simp add: json_field_def)
  ultimately show ?thesis by metis
qed

text \<open>C37. A request on the traffic port that names the STUN host is always answered. Any other one, the load
  balancer's health check included, panics instead of being answered exactly when it does not ask
  for full ids and some registered peer id, which its client chose, is cut inside a character by the
  short view; otherwise it is answered with the routed page, with status 200 exactly on the known
  paths. The health body has the same fields as that of the health listener, which never panics.\<close>

theorem serve_http_exact:
  fixes st :: "('e, 'm) relay_state" and head :: request_head
  defines "bad \<equiv> (\<exists>i p. (i, p) \<in> set (st_registry st) \<and> splits_char (pi_peer_id (p_info p)))"
  shows "(serve_http site st up now now' head = None
      \<longleftrightarrow> \<not> is_stun_host (rh_host head) \<and> \<not> wants_full (rh_target head) \<and> bad)
    \<and> (\<not> is_stun_host (rh_host head) \<and> (wants_full (rh_target head) \<or> \<not> bad) \<longrightarrow>
        (\<exists>s m. serve_http site st up now now' head =
             Some (write_dashboard_response (route site (request_path head) s m (st_dht_view st)))
           \<and> dr_status (route site (request_path head) s m (st_dht_view st))
             = (if request_path head \<in> set known_paths then 200 else 404)
           \<and> live_snapshot site st up now (wants_full (rh_target head)) = Some s
           \<and> (request_path head = ''/health'' \<longrightarrow>
                (\<exists>j. dr_body (route site (request_path head) s m (st_dht_view st)) = to_vec site j
                   \<and> json_field j = json_field (health_json (health_snapshot site st up))))))"
proof -
  let ?full = "wants_full (rh_target head)"
  have snap: "live_snapshot site st up now ?full = None \<longleftrightarrow> \<not> ?full \<and> bad"
    by (simp add: live_snapshot_def build_snapshot_None set_all_peers bad_def) force
  show ?thesis
  proof (cases "is_stun_host (rh_host head)")
    case True
    then obtain h where "rh_host head = Some h" by (auto simp: is_stun_host_def split: option.splits)
    with True show ?thesis by (simp add: serve_http_def)
  next
    case False
    then have eq: "serve_http site st up now now' head = serve_page site st up now now' head"
      by (cases "rh_host head") (simp_all add: serve_http_def)
    show ?thesis
    proof (cases "live_snapshot site st up now ?full")
      case None
      with False snap show ?thesis by (simp add: eq serve_page_def)
    next
      case (Some s)
      define m where "m = (if request_path head = ''/map'' \<or> request_path head = ''/map.json''
        then live_map_snapshot site st now' else empty_map_snapshot site)"
      have sh: "serve_http site st up now now' head =
          Some (write_dashboard_response (route site (request_path head) s m (st_dht_view st)))"
        unfolding eq serve_page_def Some m_def by simp
      have live: "ct_connected_peers (ss_counters s) = connected st" "ss_uptime_secs s = up"
        using Some by (auto simp: live_snapshot_def build_snapshot_def counters_of_def Let_def)
      have "\<exists>j. dr_body (route site ''/health'' s m (st_dht_view st)) = to_vec site j
          \<and> json_field j = json_field (health_json (health_snapshot site st up))"
        by (rule health_same [OF live])
      with False snap Some sh show ?thesis by (auto simp: route_status)
    qed
  qed
qed

text \<open>One registration is enough: the id comes from the client's register message.\<close>

definition demo_taken_down :: "(unit, unit) relay_state" where
  "demo_taken_down = (relay_state_new default_config)\<lparr>st_registry :=
     snd (register (\<lambda>_. False) registry_new demo_id ''net'' (relay_peer_info_new demo_id ''net'' 1 0) 0 0)\<rparr>"

theorem serve_http_exact_witness:
  "serve_http demo_site demo_taken_down 60 7 8
     \<lparr>rh_method = ''GET'', rh_target = ''/health'', rh_host = None, is_websocket_upgrade = False\<rparr> = None"
proof -
  have "splits_char demo_id" by (simp add: splits_char_def demo_id_def PEER_ID_PREFIX_LEN_def utf8_tail_def)
  moreover have "\<not> wants_full ''/health''" by code_simp
  ultimately show ?thesis
    using serve_http_exact [of demo_site demo_taken_down 60 7 8
        "\<lparr>rh_method = ''GET'', rh_target = ''/health'', rh_host = None, is_websocket_upgrade = False\<rparr>"]
    by (simp add: is_stun_host_def demo_taken_down_def register_def registry_new_def relay_peer_info_new_def)
qed

section \<open>The redirect listener\<close>

lemma split_crlf: "\<not> sublist CRLF a \<Longrightarrow> split_str CRLF (a @ CRLF @ b) = a # split_str CRLF b"
proof (induction a)
  case (Cons x a)
  then have "\<not> prefix CRLF (x # a @ CRLF @ b)"
    by (cases a) (auto simp: CRLF_def sublist_Cons_right)
  moreover have "\<not> sublist CRLF a" using Cons.prems by (auto simp: sublist_Cons_right)
  ultimately show ?case using Cons.IH by (simp add: split_str_miss)
qed (use split_str_hit [of CRLF b] in \<open>simp add: CRLF_def\<close>)

lemma crlf_append:
  assumes "\<not> sublist CRLF a" "\<not> sublist CRLF b" "a = [] \<or> last a \<noteq> CHR 0x0D"
  shows "\<not> sublist CRLF (a @ b)"
  using assms
proof (induction a)
  case (Cons x a)
  then have "\<not> sublist CRLF a" by (auto simp: sublist_Cons_right)
  with Cons have "\<not> sublist CRLF (a @ b)" by (cases a) auto
  moreover have "\<not> prefix CRLF (x # a @ b)"
    using Cons.prems by (cases a) (auto simp: CRLF_def sublist_Cons_right)
  ultimately show ?case by (auto simp: sublist_Cons_right)
qed simp

text \<open>The host and the target of a parsed head.\<close>

definition host_ok :: "string option \<Rightarrow> bool" where
  "host_ok h \<longleftrightarrow> (case h of None \<Rightarrow> True | Some v \<Rightarrow> \<not> sublist CRLF v \<and> (v = [] \<or> last v \<noteq> CHR 0x0D))"

lemma trim_no_cr: "trim s = [] \<or> last (trim s) \<noteq> CHR 0x0D"
proof -
  have "\<not> suffix [CHR 0x0D] (trim s)" by (rule trim_last) (simp add: ws_encodings_def)
  then show ?thesis by (metis append_butlast_last_id suffixI)
qed

lemma parse_header_host:
  assumes "host_ok (hf_host fl)" "\<not> sublist CRLF line"
  shows "host_ok (hf_host (parse_header fl line))"
proof (cases "split_once (CHR '':'') line")
  case (Some nv)
  obtain n v where nv: "nv = (n, v)" by (rule prod.exhaust)
  with Some have "line = (n @ '':'') @ v" by (simp add: split_once_Some)
  then have "sublist v line" by (simp only: sublist_append_leftI)
  then have "sublist (trim v) line" by (rule sublist_order.order.trans [OF trim_sublist])
  with assms(2) have "\<not> sublist CRLF (trim v)" using sublist_order.order.trans by blast
  with assms(1) Some nv trim_no_cr [of v] show ?thesis
    by (simp add: parse_header_def Let_def host_ok_def)
qed (simp add: parse_header_def assms(1))

lemma parse_headers_host:
  assumes "host_ok (hf_host fl)" "\<forall>l \<in> set ls. \<not> sublist CRLF l"
  shows "host_ok (hf_host (parse_headers fl ls))"
  using assms by (induction fl ls rule: parse_headers.induct) (simp_all add: parse_header_host)

lemma parsed_head_clean:
  assumes "parse_request_head bs = Inr head"
  shows "host_ok (rh_host head) \<and> \<not> sublist CRLF (rh_target head)"
proof -
  from assms obtain str where str: "from_utf8 bs = Some str"
    by (auto simp: parse_request_head_def split: option.splits)
  define ls where "ls = split_str CRLF str"
  have ne: "ls \<noteq> []" by (simp add: ls_def)
  have pieces: "\<forall>l \<in> set ls. \<not> sublist CRLF l"
    unfolding ls_def by (intro ballI split_str_piece) (simp_all add: CRLF_def)
  define parts where "parts = split_on (CHR '' '') (hd ls)"
  from assms str have head: "rh_target head = parts ! 1" "rh_host head = hf_host (parse_headers no_flags (tl ls))"
    "tl parts \<noteq> []"
    unfolding ls_def parts_def by (auto simp: parse_request_head_def Let_def split: if_splits)
  have "parts ! 1 \<in> set parts" using head(3) by (intro nth_mem) (cases parts; auto)
  then have "sublist (parts ! 1) (hd ls)" using split_on_piece by (auto simp: parts_def)
  moreover have "\<not> sublist CRLF (hd ls)" using pieces ne by simp
  ultimately have "\<not> sublist CRLF (parts ! 1)" using sublist_order.order.trans by blast
  moreover have "host_ok (hf_host (parse_headers no_flags (tl ls)))"
    using pieces ne by (intro parse_headers_host) (auto simp: no_flags_def host_ok_def dest: list.set_sel(2))
  ultimately show ?thesis by (simp add: head)
qed

lemma location_clean:
  assumes "host_ok (rh_host head)" "\<not> sublist CRLF (rh_target head)"
  shows "\<not> sublist CRLF (''Location: '' @ https_location head)"
proof -
  define h where "h = (case rh_host head of Some h \<Rightarrow> h | None \<Rightarrow> ''relay.dig.net'')"
  have h: "\<not> sublist CRLF h" "h = [] \<or> last h \<noteq> CHR 0x0D"
    using assms(1) by (auto simp: h_def host_ok_def CRLF_def sublist_Cons_right split: option.splits)
  then have "\<not> sublist CRLF (h @ rh_target head)" using assms(2) by (intro crlf_append)
  then have "\<not> sublist CRLF ((''Location: '' @ ''https://'') @ h @ rh_target head)"
    by (rule crlf_append [rotated]) (simp_all add: CRLF_def sublist_Cons_right)
  then show ?thesis by (simp add: https_location_def h_def)
qed

lemma redirect_lines:
  assumes "\<not> sublist CRLF (''Location: '' @ loc)"
  shows "split_str CRLF (text_of (write_response 301 ''Moved Permanently'' [(''Location'', loc)] [])) =
    [''HTTP/1.1 301 Moved Permanently'', ''Location: '' @ loc, ''Content-Length: 0'', ''Connection: close'', [], []]"
proof -
  define l0 l1 l2 l3 where l: "l0 = ''HTTP/1.1 301 Moved Permanently''" "l1 = ''Location: '' @ loc"
    "l2 = ''Content-Length: 0''" "l3 = ''Connection: close''"
  have "show_nat 301 = ''301''" by code_simp
  then have "write_response 301 ''Moved Permanently'' [(''Location'', loc)] [] =
      as_bytes (l0 @ CRLF @ l1 @ CRLF @ l2 @ CRLF @ l3 @ CRLF @ CRLF)"
    by (simp add: write_response_def l)
  moreover have "\<not> sublist CRLF l0" "\<not> sublist CRLF l2" "\<not> sublist CRLF l3"
    by (simp_all add: l CRLF_def sublist_Cons_right)
  moreover have "split_str CRLF CRLF = [[], []]" using split_crlf [of "[]" "[]"] by (simp add: CRLF_def)
  ultimately have "split_str CRLF (text_of (write_response 301 ''Moved Permanently'' [(''Location'', loc)] [])) =
      [l0, l1, l2, l3, [], []]"
    using assms [folded l(2)] by (simp add: split_crlf)
  then show ?thesis unfolding l .
qed

text \<open>C38. Whatever bytes a client sends to the plain-HTTP port, however they are chunked, it gets nothing if no
  head can be read; a request that names the STUN host gets exactly what the traffic port answers;
  and any other one gets one redirect whose only header from the request is a single \<^verbatim>\<open>Location\<close> line
  with the request's host and target: no target or host puts a line of its own into the response.\<close>

theorem redirect_conn_exact:
  "(\<forall>e. read_request_head poll s = Inl e \<longrightarrow> redirect_conn site port poll s = [])
   \<and> (\<forall>head buf s'. read_request_head poll s = Inr (head, buf, s') \<longrightarrow>
        (if is_stun_host (rh_host head)
         then sa_port (stun_listen (st_config st)) = port
              \<longrightarrow> serve_http site st up now now' head = Some (redirect_conn site port poll s)
         else split_str CRLF (text_of (redirect_conn site port poll s)) =
              [''HTTP/1.1 301 Moved Permanently'', ''Location: '' @ https_location head,
               ''Content-Length: 0'', ''Connection: close'', [], []]))"
proof (intro conjI allI impI)
  show "redirect_conn site port poll s = []" if "read_request_head poll s = Inl e" for e
    using that by (simp add: redirect_conn_def)
next
  fix head buf s' assume r: "read_request_head poll s = Inr (head, buf, s')"
  then have "parse_request_head buf = Inr head"
    by (auto simp: read_request_head_def split: sum.splits)
  note clean = parsed_head_clean [OF this]
  show "if is_stun_host (rh_host head)
      then sa_port (stun_listen (st_config st)) = port
           \<longrightarrow> serve_http site st up now now' head = Some (redirect_conn site port poll s)
      else split_str CRLF (text_of (redirect_conn site port poll s)) =
           [''HTTP/1.1 301 Moved Permanently'', ''Location: '' @ https_location head,
            ''Content-Length: 0'', ''Connection: close'', [], []]"
  proof (cases "is_stun_host (rh_host head)")
    case True
    then obtain h where "rh_host head = Some h" by (auto simp: is_stun_host_def split: option.splits)
    with True r show ?thesis by (simp add: redirect_conn_def decide_redirect_def serve_http_def)
  next
    case False
    then have "decide_redirect site head port = Redirect (https_location head)"
      by (cases "rh_host head") (simp_all add: decide_redirect_def)
    then have "redirect_conn site port poll s =
        write_response 301 ''Moved Permanently'' [(''Location'', https_location head)] []"
      by (simp add: redirect_conn_def r)
    with False redirect_lines [OF location_clean] clean show ?thesis by simp
  qed
qed

theorem redirect_conn_exact_witness:
  "split_str CRLF (text_of (redirect_conn demo_site 3478 transport_poll [as_bytes demo_request])) =
     [''HTTP/1.1 301 Moved Permanently'', ''Location: https://r/'', ''Content-Length: 0'', ''Connection: close'', [], []]"
proof -
  have n: "head_len (as_bytes demo_request) = Some 27" by code_simp
  have ok: "transport_ok [as_bytes demo_request]" by (simp add: transport_ok_def, code_simp)
  have p: "parse_request_head (as_bytes demo_request) =
      Inr \<lparr>rh_method = ''GET'', rh_target = ''/'', rh_host = Some ''r'', is_websocket_upgrade = False\<rparr>"
    by code_simp
  have t: "take 27 (as_bytes demo_request) = as_bytes demo_request" by code_simp
  have "\<forall>m \<le> length []. \<not> suffix blank_line (take m [])" "length [] < MAX_HEAD_BYTES"
    by (simp_all add: blank_line_def MAX_HEAD_BYTES_def)
  from net.read_head_loop_spec [OF ok this] obtain s'
    where "read_head_loop transport_poll [as_bytes demo_request] [] = Inr (as_bytes demo_request, s')"
    by (auto simp: n t MAX_HEAD_BYTES_def)
  then have "read_request_head transport_poll [as_bytes demo_request] =
      Inr (\<lparr>rh_method = ''GET'', rh_target = ''/'', rh_host = Some ''r'', is_websocket_upgrade = False\<rparr>,
           as_bytes demo_request, s')"
    by (simp add: read_request_head_def p)
  moreover have "\<not> is_stun_host (Some ''r'')" by code_simp
  ultimately show ?thesis
    using redirect_conn_exact [of transport_poll "[as_bytes demo_request]" demo_site 3478 demo_taken_down 0 0 0]
    by (simp add: https_location_def)
qed

end
