(* ===== verification/Server_Handlers.thy ===== *)
theory Server_Handlers
  imports Server Limits_Rates
begin

text \<open>
  What each handler of \<open>Server\<close> does, on every branch: dispatch cannot be made to speak for another
  peer, a registration is accepted exactly under the documented conditions and a refused one leaves
  no trace but its reply, forwards and broadcasts stay inside the sender's network, and a sweep
  removes exactly the dead and stale peers from the registry, from the count and from PEX.
\<close>

section \<open>Dispatch\<close>

text \<open>Before registration every message except \<^verbatim>\<open>register\<close> is answered with NOT_REGISTERED. After
  it, whatever a client writes into its frames, what is forwarded or broadcast names the registered
  id of the sender as its origin: a gossip message and a broadcast carry it as \<open>from\<close>, a
  hole-punch coordination carries it as the requester, and a hole-punch result carries only the
  target's own id.\<close>

lemma dispatch_authentic:
  "(s_peer_id s = None \<longrightarrow> dispatch s msg =
      (case msg of
         Register i n v addrs \<Rightarrow> ActRegister i n v addrs
       | _ \<Rightarrow> ActError NOT_REGISTERED ''register before sending other messages (RLY-001)''))
   \<and> (s_peer_id s = Some self \<longrightarrow> dispatch s msg = ActForwardTo to fwd \<longrightarrow>
        (\<exists>payload seq. fwd = RelayGossipMessage self to payload seq)
        \<or> (\<exists>addr. fwd = HolePunchCoordinate self addr) \<or> (\<exists>ok. fwd = HolePunchResult to ok))
   \<and> (s_peer_id s = Some self \<longrightarrow> dispatch s msg = ActBroadcast from exclude fwd \<longrightarrow>
        from = self \<and> (\<exists>payload. fwd = Broadcast self payload []))"
  by (cases msg) (auto simp: dispatch_def dispatch_registered_def unwrap_or_default_def)

lemma dispatch_authentic_witness:
  "\<exists>from payload. dispatch (session_default\<lparr>s_peer_id := Some ''me''\<rparr>) (Broadcast ''victim'' [1, 2] [''x''])
     = ActBroadcast from [''x''] (Broadcast ''me'' payload []) \<and> from = ''me''"
  using dispatch_authentic [of "session_default\<lparr>s_peer_id := Some ''me''\<rparr>"
      "Broadcast ''victim'' [1, 2] [''x'']" "''me''" "''x''" "Broadcast ''me'' [1, 2] []" "''me''" "[''x'']"]
  by (simp add: dispatch_def dispatch_registered_def unwrap_or_default_def)

section \<open>Registration\<close>

definition live_incumbent :: "('e, 'm) relay_state \<Rightarrow> string \<Rightarrow> bool" where
  "live_incumbent st peer_id \<longleftrightarrow>
     (\<exists>p. map_of (st_registry st) peer_id = Some p \<and> \<not> is_closed (outs st) (p_tx p))"

definition registrant ::
  "('e, 'm) env \<Rightarrow> conn_id \<Rightarrow> string \<Rightarrow> string \<Rightarrow> u32 \<Rightarrow> socket_addr list \<Rightarrow> ip_addr \<Rightarrow> u64 \<Rightarrow> peer" where
  "registrant env c peer_id network_id v addrs ip now =
     \<lparr>p_network_id = network_id,
      p_info = (relay_peer_info_new peer_id network_id v now)
                 \<lparr>pi_addresses := resolve_dialable (e_family_of env) addrs ip\<rparr>,
      p_tx = c, p_last_activity = c\<rparr>"

definition commit_ok :: "('e, 'm) relay_state \<Rightarrow> string \<Rightarrow> string option \<Rightarrow> bool" where
  "commit_ok st peer_id verified \<longleftrightarrow> verified \<in> {None, Some peer_id}
     \<and> registry_len (st_registry st) < max_connections (st_config st) \<and> \<not> live_incumbent st peer_id"

lemma register_commit_refused:
  assumes "\<not> commit_ok st peer_id verified"
  shows "\<exists>code t n. register_commit env st c peer_id network_id v addrs ip verified now =
    (False, refuse_register st c code t n)"
proof -
  let ?info = "(relay_peer_info_new peer_id network_id v now)
    \<lparr>pi_addresses := resolve_dialable (e_family_of env) addrs ip\<rparr>"
  consider "verified \<notin> {None, Some peer_id}"
    | "verified \<in> {None, Some peer_id}" "max_connections (st_config st) \<le> registry_len (st_registry st)"
    | "verified \<in> {None, Some peer_id}" "\<not> max_connections (st_config st) \<le> registry_len (st_registry st)"
      "live_incumbent st peer_id"
    using assms by (force simp: commit_ok_def)
  then show ?thesis
  proof cases
    case 1
    then show ?thesis by (auto simp: register_commit_def Let_def split: option.splits)
  next
    case 2
    then show ?thesis by (auto simp: register_commit_def Let_def split: option.splits)
  next
    case 3
    then have "register (is_closed (outs st)) (st_registry st) peer_id network_id ?info c c =
        (Occupied, st_registry st)"
      by (auto simp: live_incumbent_def register_def)
    with 3 show ?thesis by (auto simp: register_commit_def Let_def)
  qed
qed

lemma register_commit_accepted:
  assumes "commit_ok st peer_id verified"
  shows "\<exists>out reg' info. register (is_closed (outs st)) (st_registry st) peer_id network_id info c c = (out, reg')
    \<and> info = p_info (registrant env c peer_id network_id v addrs ip now) \<and> out \<noteq> Occupied
    \<and> register_commit env st c peer_id network_id v addrs ip verified now =
      (True, notify (reply (st\<lparr>st_registry := reg',
           connected := (if out = Registered then connected st + 1 else connected st)\<rparr>)
         c (RegisterAck True ''registered'' (registry_len reg')))
         (broadcast_targets reg' peer_id network_id []) (PeerConnected info))"
proof -
  define info where "info = p_info (registrant env c peer_id network_id v addrs ip now)"
  obtain out reg' where r: "register (is_closed (outs st)) (st_registry st) peer_id network_id info c c = (out, reg')"
    by force
  have "out \<noteq> Occupied"
    using r assms by (auto simp: commit_ok_def live_incumbent_def register_def Let_def
        split: option.splits if_splits)
  with r assms show ?thesis
    by (intro exI [of _ out] exI [of _ reg'] exI [of _ info])
      (cases out; auto simp: register_commit_def Let_def commit_ok_def info_def registrant_def)
qed

abbreviation reg_count :: "('e, 'm) relay_state \<Rightarrow> ip_key_t \<Rightarrow> nat" where
  "reg_count st \<equiv> hm_count (regs_per_ip (st_abuse st))"

definition reg_room :: "('e, 'm) relay_state \<Rightarrow> ip_addr \<Rightarrow> bool" where
  "reg_room st ip \<longleftrightarrow> ap_max_registrations_per_ip (st_policy st) = 0
     \<or> reg_count st (ip_key ip) < unat (ap_max_registrations_per_ip (st_policy st))"

lemma register_admit_None:
  assumes ok: "counts_ok (regs_per_ip (st_abuse st))"
    and adm: "register_admit st c ip t1 t2 = (None, st')"
  obtains a t n where "st' = refuse_register (st\<lparr>st_abuse := a\<rparr>) c RATE_LIMITED t n"
    "counts_ok (regs_per_ip a)" "hm_count (regs_per_ip a) = reg_count st"
proof -
  obtain al a1 where al: "allow_registration (st_policy st) (st_abuse st) ip t1 = (al, a1)" by force
  have r1: "regs_per_ip a1 = regs_per_ip (st_abuse st)"
    using regs_frame(3) [of "st_policy st" "st_abuse st" ip t1] al by simp
  show thesis
  proof (cases al)
    case False
    then show ?thesis using adm al r1 ok that by (auto simp: register_admit_def Let_def)
  next
    case True
    obtain x a2 where ta: "try_acquire_registration (st_policy st) a1 ip = (x, a2)" by force
    from True adm al ta have x: "x = None"
      and st': "st' = refuse_register (st\<lparr>st_abuse := record_strike (st_policy st) a2 ip t2\<rparr>) c
        RATE_LIMITED ''too many concurrent registrations from your address'' (unat (connected st))"
      by (auto simp: register_admit_def Let_def split: option.splits)
    have "counts_ok (regs_per_ip a2)" "hm_count (regs_per_ip a2) = reg_count st"
      using rp.acquire_ok [of a1 "st_policy st" ip] rp.acquire_none [of a1 "st_policy st" ip a2]
        ta ok r1 x by auto
    then show ?thesis using that st' by simp
  qed
qed

lemma register_admit_Some:
  assumes ok: "counts_ok (regs_per_ip (st_abuse st))"
    and adm: "register_admit st c ip t1 t2 = (Some slot, st')"
  obtains a where "st' = st\<lparr>st_abuse := a\<rparr>" "counts_ok (regs_per_ip a)" "rs_key slot = ip_key ip"
    "hm_count (regs_per_ip a) = (if rs_tracked slot
       then (reg_count st)(ip_key ip := reg_count st (ip_key ip) + 1) else reg_count st)"
proof -
  obtain al a1 where al: "allow_registration (st_policy st) (st_abuse st) ip t1 = (al, a1)" by force
  have r1: "regs_per_ip a1 = regs_per_ip (st_abuse st)"
    using regs_frame(3) [of "st_policy st" "st_abuse st" ip t1] al by simp
  obtain x a2 where ta: "try_acquire_registration (st_policy st) a1 ip = (x, a2)" by force
  from adm al ta have "x = Some slot" "st' = st\<lparr>st_abuse := a2\<rparr>"
    by (auto simp: register_admit_def Let_def split: option.splits if_splits)
  with rp.acquire_ok [of a1 "st_policy st" ip] rp.acquire_some [of a1 "st_policy st" ip slot a2]
    ta ok r1 that show thesis by auto
qed

lemma register_admit_iff:
  assumes ok: "counts_ok (regs_per_ip (st_abuse st))"
  shows "fst (register_admit st c ip t1 t2) \<noteq> None \<longleftrightarrow>
    fst (allow_registration (st_policy st) (st_abuse st) ip t1) \<and> reg_room st ip"
proof -
  obtain al a1 where al: "allow_registration (st_policy st) (st_abuse st) ip t1 = (al, a1)" by force
  have r1: "regs_per_ip a1 = regs_per_ip (st_abuse st)"
    using regs_frame(3) [of "st_policy st" "st_abuse st" ip t1] al by simp
  obtain x a2 where ta: "try_acquire_registration (st_policy st) a1 ip = (x, a2)" by force
  have "x \<noteq> None \<longleftrightarrow> reg_room st ip"
    using rp.acquire_some [of a1 "st_policy st" ip _ a2] rp.acquire_none [of a1 "st_policy st" ip a2]
      ta ok r1 by (cases x) (auto simp: reg_room_def unat_eq_zero)
  then show ?thesis using al ta by (auto simp: register_admit_def Let_def split: option.splits)
qed


lemma commit_ok_abuse [simp]: "commit_ok (st\<lparr>st_abuse := a\<rparr>) = commit_ok st"
  by (simp add: commit_ok_def live_incumbent_def fun_eq_iff)

lemma register_commit_iff:
  "fst (register_commit env st c peer_id network_id v addrs ip verified now) \<longleftrightarrow> commit_ok st peer_id verified"
  using register_commit_accepted [of st peer_id verified network_id c env v addrs ip now]
    register_commit_refused [of st peer_id verified env c network_id v addrs ip now]
  by (cases "commit_ok st peer_id verified") auto

lemma register_peer_admitted:
  assumes "register_admit st c (sa_ip addr) (rc_rate clk) (rc_strike clk) = (Some slot, st1)"
  shows "fst (register_peer env st s c rq addr verified held clk) \<longleftrightarrow> commit_ok st1 (rq_peer_id rq) verified"
  using assms register_commit_iff [of env st1 c "rq_peer_id rq" "rq_network_id rq"
      "rq_protocol_version rq" "rq_listen_addrs rq" "sa_ip addr" verified "rc_unix clk"]
  by (auto simp: register_peer_def split: prod.splits bool.splits)

text \<open>A concrete environment and state to evaluate the handlers on.\<close>

definition demo_env :: "(string list, nat) env" where
  "demo_env = \<lparr>e_engine = list_engine, e_peek = (\<lambda>_. None), e_decode = (\<lambda>_. None),
     e_pex_decode = (\<lambda>_. Some 0), e_is_handshake = (\<lambda>m. m = 0),
     e_family_of = (\<lambda>a. if ip_is_ipv4 (canonical (sa_ip a)) then 1 else 0)\<rparr>"

definition demo_state :: "(string list, nat) relay_state" where
  "demo_state = (relay_state_new default_config)
     \<lparr>outs := chan_new no_chans 0 4, pexs := chan_new no_chans 0 4\<rparr>"

definition demo_rq :: reg_request where
  "demo_rq = \<lparr>rq_peer_id = ''a'', rq_network_id = ''net'', rq_protocol_version = 1, rq_listen_addrs = []\<rparr>"

definition demo_clk :: reg_clocks where
  "demo_clk = \<lparr>rc_rate = 1000, rc_strike = 1000, rc_unix = 1, rc_pex = 1000\<rparr>"

lemma demo_rq_id [simp]: "rq_peer_id demo_rq = ''a''" by (simp add: demo_rq_def)

lemma demo_counts: "counts_ok (regs_per_ip (st_abuse demo_state))"
  by (simp add: demo_state_def relay_state_new_def abuse_policy_new_def abuse_state_default_def counts_ok_def)

lemma demo_rate: "fst (allow_registration (st_policy demo_state) (st_abuse demo_state) ip t)"
  by (simp add: demo_state_def relay_state_new_def abuse_policy_new_def abuse_state_default_def
      allow_registration_def Let_def default_config_def default_defs evict_lru_if_full_def
      evict_min_by_def MAX_TRACKED_IPS_def token_bucket_new_def token_try_spend_def split: prod.splits)

lemma demo_room: "reg_room demo_state ip"
  by (simp add: reg_room_def demo_state_def relay_state_new_def abuse_policy_new_def
      abuse_state_default_def default_config_def default_defs hm_count_def)

lemma demo_commit: "commit_ok demo_state i verified \<longleftrightarrow> verified \<in> {None, Some i}"
  by (auto simp: commit_ok_def live_incumbent_def demo_state_def relay_state_new_def registry_new_def
      registry_len_def default_config_def default_defs)

lemma register_peer_iff:
  assumes "counts_ok (regs_per_ip (st_abuse st))"
  shows "fst (register_peer env st s c rq addr verified held clk) \<longleftrightarrow>
    fst (allow_registration (st_policy st) (st_abuse st) (sa_ip addr) (rc_rate clk))
    \<and> reg_room st (sa_ip addr) \<and> commit_ok st (rq_peer_id rq) verified"
proof -
  obtain x st1 where adm: "register_admit st c (sa_ip addr) (rc_rate clk) (rc_strike clk) = (x, st1)"
    by force
  show ?thesis
  proof (cases x)
    case None
    then show ?thesis
      using adm register_admit_iff [OF assms, of c "sa_ip addr" "rc_rate clk" "rc_strike clk"]
      by (auto simp: register_peer_def)
  next
    case (Some slot)
    then obtain a where st1: "st1 = st\<lparr>st_abuse := a\<rparr>"
      using register_admit_Some [OF assms] adm by metis
    then show ?thesis
      using adm Some register_peer_admitted [of st c addr clk slot st1]
        register_admit_iff [OF assms, of c "sa_ip addr" "rc_rate clk" "rc_strike clk"]
      by auto
  qed
qed

text \<open>C4. A registration is accepted exactly when the source is within its registration rate and
  below its cap of concurrent registrations, the claimed id is the one proved by the client
  certificate (where there is one), the relay is below capacity and no live peer holds the id.\<close>

theorem register_peer_accept_iff:
  assumes "counts_ok (regs_per_ip (st_abuse st))"
  shows "fst (register_peer env st s c rq addr verified held clk) \<longleftrightarrow>
    fst (allow_registration (st_policy st) (st_abuse st) (sa_ip addr) (rc_rate clk))
    \<and> reg_room st (sa_ip addr) \<and> commit_ok st (rq_peer_id rq) verified"
  using assms by (rule register_peer_iff)

theorem register_peer_accept_iff_witness:
  "fst (register_peer demo_env demo_state session_default 0 demo_rq (mk_sa (V4 7) 1) None None demo_clk)
   \<and> \<not> fst (register_peer demo_env demo_state session_default 0 demo_rq (mk_sa (V4 7) 1) (Some ''b'') None demo_clk)"
  using register_peer_accept_iff [OF demo_counts, of demo_env session_default 0 demo_rq "mk_sa (V4 7) 1" None None demo_clk]
    register_peer_accept_iff [OF demo_counts, of demo_env session_default 0 demo_rq "mk_sa (V4 7) 1" "Some ''b''" None demo_clk]
  by (simp add: demo_rate demo_room demo_commit)



text \<open>C5. An accepted registration takes effect completely: the id now maps to this connection's
  channel and activity cell with the resolved addresses, every other record is untouched, the
  connected count moves exactly when the id was unused, the network's PEX set gains the id, the
  session carries the identity (which, under mTLS, is the certificate's), and the source holds its
  registration slot.\<close>

theorem register_peer_accepted:
  assumes ok: "counts_ok (regs_per_ip (st_abuse st))" and laws: "engine_laws (e_engine env) known"
    and acc: "register_peer env st s c rq addr verified held clk = (True, st', s', held')"
  shows "map_of (st_registry st') = (map_of (st_registry st))(rq_peer_id rq \<mapsto>
      registrant env c (rq_peer_id rq) (rq_network_id rq) (rq_protocol_version rq)
        (rq_listen_addrs rq) (sa_ip addr) (rc_unix clk))
    \<and> connected st' = connected st + (if map_of (st_registry st) (rq_peer_id rq) = None then 1 else 0)
    \<and> introduced known (st_pex st') = (introduced known (st_pex st))
        (rq_network_id rq := insert (rq_peer_id rq) (introduced known (st_pex st) (rq_network_id rq)))
    \<and> s_peer_id s' = Some (rq_peer_id rq) \<and> s_network_id s' = Some (rq_network_id rq)
    \<and> verified \<in> {None, s_peer_id s'} \<and> (\<exists>slot. held' = Some slot \<and> rs_key slot = ip_key (sa_ip addr))"
proof -
  let ?i = "rq_peer_id rq" and ?n = "rq_network_id rq"
  obtain x st1 where adm: "register_admit st c (sa_ip addr) (rc_rate clk) (rc_strike clk) = (x, st1)"
    by force
  with acc obtain slot where x: "x = Some slot" by (cases x) (auto simp: register_peer_def)
  obtain a where a: "st1 = st\<lparr>st_abuse := a\<rparr>" "rs_key slot = ip_key (sa_ip addr)"
    using register_admit_Some [OF ok] adm x by metis
  have com: "commit_ok st1 ?i verified"
    using acc adm x register_peer_admitted [of st c addr clk slot st1 env s rq verified held] by simp
  define p where "p = registrant env c ?i ?n (rq_protocol_version rq) (rq_listen_addrs rq) (sa_ip addr) (rc_unix clk)"
  obtain out reg' where
    r: "register (is_closed (outs st1)) (st_registry st1) ?i ?n (p_info p) c c = (out, reg')" "out \<noteq> Occupied"
    and st2: "register_commit env st1 c ?i ?n (rq_protocol_version rq) (rq_listen_addrs rq) (sa_ip addr)
      verified (rc_unix clk) = (True, notify (reply (st1\<lparr>st_registry := reg',
         connected := (if out = Registered then connected st1 + 1 else connected st1)\<rparr>)
         c (RegisterAck True ''registered'' (registry_len reg')))
         (broadcast_targets reg' ?i ?n []) (PeerConnected (p_info p)))"
    using register_commit_accepted [OF com] unfolding p_def by metis
  have "map_of reg' = (map_of (st_registry st))(?i \<mapsto> p)"
    "out = Registered \<longleftrightarrow> map_of (st_registry st) ?i = None"
    using r by (cases rule: register_cases [of "st_registry st1" ?i "is_closed (outs st1)" ?n "p_info p" c c];
        auto simp: a hm_simps p_def registrant_def)+
  moreover have "verified \<in> {None, Some ?i}" using com by (simp add: commit_ok_def)
  ultimately show ?thesis
    using acc adm x st2 a introduced_register [OF laws]
    by (auto simp: register_peer_def register_mirror_def Let_def p_def [symmetric] split: option.splits)
qed

theorem register_peer_accepted_witness:
  "\<exists>st' s' held'. register_peer demo_env demo_state session_default 0 demo_rq (mk_sa (V4 7) 1) None None demo_clk
     = (True, st', s', held') \<and> s_peer_id s' = Some ''a'' \<and> connected st' = 1"
proof -
  obtain b st' s' held' where r: "register_peer demo_env demo_state session_default 0 demo_rq
      (mk_sa (V4 7) 1) None None demo_clk = (b, st', s', held')"
    by (metis prod_cases4)
  have b
    using register_peer_iff [OF demo_counts, of demo_env session_default 0 demo_rq "mk_sa (V4 7) 1" None None demo_clk]
    by (simp add: r demo_rate demo_room demo_commit)
  moreover have "engine_laws (e_engine demo_env) set" by (simp add: demo_env_def list_engine_laws)
  moreover have "connected demo_state = 0" "map_of (st_registry demo_state) ''a'' = None"
    by (simp_all add: demo_state_def relay_state_new_def registry_new_def)
  ultimately show ?thesis
    using r register_peer_accepted [OF demo_counts, of demo_env set session_default 0 demo_rq "mk_sa (V4 7) 1"
      None None demo_clk st' s' held'] by auto
qed

section \<open>Routing\<close>

fun speaks_for :: "string \<Rightarrow> relay_message \<Rightarrow> bool" where
  "speaks_for self (RelayGossipMessage from _ _ _) = (from = self)"
| "speaks_for self (Broadcast from _ _) = (from = self)"
| "speaks_for self (HolePunchCoordinate peer_id _) = (peer_id = self)"
| "speaks_for self (HolePunchResult _ _) = True"
| "speaks_for self _ = False"

definition on_network :: "registry \<Rightarrow> string \<Rightarrow> chan_id \<Rightarrow> bool" where
  "on_network r n d \<longleftrightarrow> (\<exists>i p. map_of r i = Some p \<and> p_network_id p = n \<and> p_tx p = d)"

text \<open>How a step may extend the queues: its own connection's freely, others only with messages of
  the given kind to the given channels.\<close>

definition extends :: "relay_message chans \<Rightarrow> relay_message chans \<Rightarrow> conn_id \<Rightarrow> (chan_id \<Rightarrow> bool)
    \<Rightarrow> (relay_message \<Rightarrow> bool) \<Rightarrow> bool" where
  "extends cs cs' c to_ok m_ok \<longleftrightarrow> (\<forall>d. d \<noteq> c \<longrightarrow>
     (\<exists>ms. ch_queue (cs' d) = ch_queue (cs d) @ ms \<and> (ms \<noteq> [] \<longrightarrow> to_ok d) \<and> (\<forall>m \<in> set ms. m_ok m)))"

lemma extends_send_each:
  assumes "\<And>d m. (d, m) \<in> set ms \<Longrightarrow> d \<noteq> c \<Longrightarrow> to_ok d \<and> m_ok m"
  shows "extends cs (send_each cs ms) c to_ok m_ok"
  unfolding extends_def
proof (intro allI impI)
  fix d assume d: "d \<noteq> c"
  obtain n where n: "ch_queue (send_each cs ms d) =
      ch_queue (cs d) @ take n (map snd (filter (\<lambda>(e, _). e = d) ms))"
    using send_each_queue by blast
  have all: "m \<in> snd ` {x \<in> set ms. fst x = d} \<Longrightarrow> to_ok d \<and> m_ok m" for m using assms d by force
  let ?new = "take n (map snd (filter (\<lambda>(e, _). e = d) ms))"
  have sub: "set ?new \<subseteq> snd ` {x \<in> set ms. fst x = d}"
    by (rule order_trans [OF set_take_subset]) auto
  with all have "\<forall>m \<in> set ?new. m_ok m" by blast
  moreover have "?new \<noteq> [] \<longrightarrow> to_ok d" using all sub by (cases ?new) auto
  ultimately show "\<exists>ms'. ch_queue (send_each cs ms d) = ch_queue (cs d) @ ms' \<and> (ms' \<noteq> [] \<longrightarrow> to_ok d)
      \<and> (\<forall>m \<in> set ms'. m_ok m)" using n by blast
qed

lemma extends_try_send:
  "(d \<noteq> c \<Longrightarrow> to_ok d \<and> m_ok m) \<Longrightarrow> extends cs (try_send cs d m) c to_ok m_ok"
  using extends_send_each [of "[(d, m)]" c to_ok m_ok cs] by auto

lemma extends_refl [simp]: "extends cs cs c to_ok m_ok"
  by (simp add: extends_def)

lemma record_relayed_frame [simp]:
  "st_registry (record_relayed st msg) = st_registry st" "outs (record_relayed st msg) = outs st"
  "st_pex (record_relayed st msg) = st_pex st" "connected (record_relayed st msg) = connected st"
  "open_connections (record_relayed st msg) = open_connections st"
  "st_config (record_relayed st msg) = st_config st" "st_policy (record_relayed st msg) = st_policy st"
  "st_abuse (record_relayed st msg) = st_abuse st" "pexs (record_relayed st msg) = pexs st"
  "cells (record_relayed st msg) = cells st"
  by (cases msg; simp)+

lemma record_dht_answer_frame [simp]:
  "st_registry (record_dht_answer st s msg) = st_registry st" "outs (record_dht_answer st s msg) = outs st"
  "st_pex (record_dht_answer st s msg) = st_pex st" "connected (record_dht_answer st s msg) = connected st"
  "open_connections (record_dht_answer st s msg) = open_connections st"
  "st_config (record_dht_answer st s msg) = st_config st" "st_policy (record_dht_answer st s msg) = st_policy st"
  "st_abuse (record_dht_answer st s msg) = st_abuse st" "pexs (record_dht_answer st s msg) = pexs st"
  "cells (record_dht_answer st s msg) = cells st"
  by (cases msg; simp add: record_dht_answer_def)+

lemma extends_forward_to:
  assumes "s_network_id s = Some n" "speaks_for self fwd"
  shows "extends (outs st) (outs (forward_to st s c to fwd)) c (on_network (st_registry st) n) (speaks_for self)"
proof (cases "sender_in_network (st_registry st) to n")
  case (Some tx)
  then have "on_network (st_registry st) n tx"
    by (auto simp: sender_in_network_def on_network_def split: option.splits if_splits)
  with Some assms show ?thesis by (simp add: forward_to_def extends_try_send)
qed (use assms in \<open>simp add: forward_to_def extends_try_send\<close>)

lemma extends_broadcast:
  assumes "hm_wf (st_registry st)" "s_network_id s = Some n" "speaks_for self fwd"
  shows "extends (outs st) (outs (broadcast st s from exclude fwd)) c (on_network (st_registry st) n) (speaks_for self)"
proof -
  have "on_network (st_registry st) n tx" if "(i, tx) \<in> set (broadcast_targets (st_registry st) from n exclude)" for i tx
    using that assms(1) by (auto simp: broadcast_targets_mem on_network_def)
  then show ?thesis using assms
    by (auto simp: broadcast_def intro!: extends_send_each)
qed

lemma dispatch_speaks:
  assumes "s_peer_id s = Some self"
  shows "dispatch s msg = ActForwardTo to fwd \<Longrightarrow> speaks_for self fwd"
    "dispatch s msg = ActBroadcast f exclude fwd \<Longrightarrow> speaks_for self fwd"
    "dispatch s msg = ActRegister i n v addrs \<Longrightarrow> msg = Register i n v addrs"
  using assms by (cases msg; force simp: dispatch_def dispatch_registered_def unwrap_or_default_def)+


text \<open>Peer \<open>a\<close> forwards to \<open>b\<close>, claiming to be somebody else.\<close>

definition demo_conn :: conn where
  "demo_conn = \<lparr>c_id = 0, c_addr = mk_sa (V4 7) 1, c_verified = None,
     c_ip_slot = \<lparr>cs_tracked = True, cs_key = V4 7\<rparr>,
     c_session = \<lparr>s_peer_id = Some ''a'', s_network_id = Some ''net'', pex_active = False\<rparr>,
     c_limiter = per_conn_limiter_new default_config 0, c_reg_slot = None\<rparr>"


section \<open>Removal\<close>

definition registry_counted :: "('e, 'm) relay_state \<Rightarrow> bool" where
  "registry_counted st \<longleftrightarrow> hm_wf (st_registry st) \<and> unat (connected st) = registry_len (st_registry st)"

lemma remove_locked_eq:
  "remove_locked st i n =
     (if i \<in> hm_keys (st_registry st)
      then (Some (broadcast_targets (AList.delete i (st_registry st)) i n []),
            st\<lparr>st_registry := AList.delete i (st_registry st), connected := connected st - 1\<rparr>)
      else (None, st))"
proof (cases "map_of (st_registry st) i")
  case None
  then have "i \<notin> hm_keys (st_registry st)" by (simp add: map_of_None_key)
  moreover from this have "AList.delete i (st_registry st) = st_registry st"
    by (rule delete_id)
  ultimately show ?thesis using None by (simp add: remove_locked_def unregister_def)
next
  case (Some p)
  then show ?thesis
    using map_of_Some_key [OF Some] by (simp add: remove_locked_def unregister_def)
qed

lemma remove_locked_counted:
  assumes "registry_counted st"
  shows "registry_counted (snd (remove_locked st i n))"
proof (cases "i \<in> hm_keys (st_registry st)")
  case True
  have wf: "hm_wf (st_registry st)" and c: "unat (connected st) = length (st_registry st)"
    using assms by (simp_all add: registry_counted_def registry_len_def)
  have "0 < length (st_registry st)" using True by auto
  with c have "unat (connected st - 1) = length (st_registry st) - 1"
    by (subst unat_dec) (simp_all add: word_less_nat_alt)
  with True wf show ?thesis
    by (simp add: remove_locked_eq registry_counted_def registry_len_def length_delete)
qed (simp add: remove_locked_eq assms)

lemma unregister_snd: "snd (unregister r i) = AList.delete i r"
  by (simp add: unregister_def)

lemma prune_Cons:
  "prune st ((i, n) # vs) =
     (if i \<in> hm_keys (st_registry st) then
        (case prune (st\<lparr>st_registry := AList.delete i (st_registry st), connected := connected st - 1\<rparr>) vs of
           (rest, st2) \<Rightarrow>
             ((i, n, broadcast_targets (AList.delete i (st_registry st)) i n []) # rest, st2))
      else prune st vs)"
  by (simp add: remove_locked_eq)

text \<open>Pruning changes the registry and the count, and nothing else.\<close>

lemma prune_state:
  "snd (prune st vs) = st\<lparr>st_registry := pt.del_all (st_registry st) (map fst vs),
     connected := connected st - of_nat (length (fst (prune st vs)))\<rparr>"
proof (induction vs arbitrary: st)
  case (Cons v vs)
  obtain i n where v: "v = (i, n)" by force
  let ?st = "st\<lparr>st_registry := AList.delete i (st_registry st), connected := connected st - 1\<rparr>"
  show ?case
  proof (cases "i \<in> hm_keys (st_registry st)")
    case True
    obtain rest st2 where p: "prune ?st vs = (rest, st2)" by force
    with Cons [of ?st] True show ?thesis
      by (simp add: v prune_Cons diff_diff_eq del: prune.simps flip: unregister_snd)
  next
    case False
    then have "AList.delete i (st_registry st) = st_registry st" by (rule delete_id)
    then have "snd (unregister (st_registry st) i) = st_registry st" by (simp add: unregister_snd)
    with False Cons [of st] show ?thesis by (simp add: v prune_Cons del: prune.simps)
  qed
qed simp

lemma prune_counted: "registry_counted st \<Longrightarrow> registry_counted (snd (prune st vs))"
proof (induction vs arbitrary: st)
  case (Cons v vs)
  obtain i n where v: "v = (i, n)" by force
  show ?case
  proof (cases "i \<in> hm_keys (st_registry st)")
    case True
    with Cons.IH [OF remove_locked_counted [OF Cons.prems, of i n]] show ?thesis
      by (auto simp: v prune_Cons remove_locked_eq simp del: prune.simps split: prod.splits)
  next
    case False
    with Cons show ?thesis by (simp add: v prune_Cons del: prune.simps)
  qed
qed simp

lemma prune_pruned:
  "distinct (map fst vs) \<Longrightarrow> (\<forall>v \<in> set vs. fst v \<in> hm_keys (st_registry st)) \<Longrightarrow>
     map (\<lambda>(i, n, _). (i, n)) (fst (prune st vs)) = vs"
proof (induction vs arbitrary: st)
  case (Cons v vs)
  obtain i n where v: "v = (i, n)" by force
  let ?st = "st\<lparr>st_registry := AList.delete i (st_registry st), connected := connected st - 1\<rparr>"
  have i: "i \<in> hm_keys (st_registry st)" "i \<notin> fst ` set vs" using Cons.prems v by auto
  then have "\<forall>v \<in> set vs. fst v \<in> hm_keys (AList.delete i (st_registry st))"
    using Cons.prems(2) unfolding keys_delete by (metis DiffI imageI list.set_intros(2) singletonD)
  then have "map (\<lambda>(i, n, _). (i, n)) (fst (prune ?st vs)) = vs"
    using Cons.prems(1) by (intro Cons.IH) simp_all
  with i show ?case by (auto simp: v prune_Cons simp del: prune.simps split: prod.splits)
qed simp

lemma mirror_departure_frame [simp]:
  "st_registry (mirror_departure env st x) = st_registry st"
  "connected (mirror_departure env st x) = connected st"
  "open_connections (mirror_departure env st x) = open_connections st"
  "st_config (mirror_departure env st x) = st_config st" "st_policy (mirror_departure env st x) = st_policy st"
  "st_abuse (mirror_departure env st x) = st_abuse st" "pexs (mirror_departure env st x) = pexs st"
  "cells (mirror_departure env st x) = cells st"
  by (simp_all add: mirror_departure_def split: prod.splits)

lemma mirror_departures_frame [simp]:
  "st_registry (foldl (mirror_departure env) st xs) = st_registry st"
  "connected (foldl (mirror_departure env) st xs) = connected st"
  by (induction xs arbitrary: st) simp_all

lemma mirror_departures_introduced:
  assumes "engine_laws (e_engine env) known"
  shows "introduced known (st_pex (foldl (mirror_departure env) st xs)) n =
    introduced known (st_pex st) n - {i. (i, n) \<in> set (map (\<lambda>(i, n, _). (i, n)) xs)}"
proof (induction xs arbitrary: st)
  case (Cons x xs)
  obtain i m ts where x: "x = (i, m, ts)" by (metis prod_cases3)
  have "introduced known (st_pex (mirror_departure env st x)) =
      (introduced known (st_pex st))(m := introduced known (st_pex st) m - {i})"
    by (simp add: x mirror_departure_def introduced_unregister [OF assms])
  then show ?case by (auto simp: Cons x)
qed simp

abbreviation expired_at :: "('e, 'm) relay_state \<Rightarrow> u64 \<Rightarrow> peer \<Rightarrow> bool" where
  "expired_at st now \<equiv> expired (is_closed (outs st)) (cells st) now
     (of_nat (as_secs (liveness_deadline (st_config st))))"

text \<open>C7. One pass of the health sweep removes exactly the peers whose channel is closed or whose
  last activity is more than the liveness deadline ago: every other record is untouched, the
  connected count equals the size of the registry again, and the removed peers, and only they, are
  gone from their network's PEX set.\<close>

theorem sweep_once_exact:
  assumes cnt: "registry_counted st" and laws: "engine_laws (e_engine env) known"
  shows "map_of (st_registry (sweep_once env st now)) i =
      (case map_of (st_registry st) i of
         Some p \<Rightarrow> if expired_at st now p then None else Some p
       | None \<Rightarrow> None)
    \<and> registry_counted (sweep_once env st now)
    \<and> introduced known (st_pex (sweep_once env st now)) n = introduced known (st_pex st) n
        - {j. \<exists>p. map_of (st_registry st) j = Some p \<and> p_network_id p = n \<and> expired_at st now p}"
proof -
  define vs where "vs = dead_or_stale (is_closed (outs st)) (cells st) (st_registry st) now
    (of_nat (as_secs (liveness_deadline (st_config st))))"
  have wf: "hm_wf (st_registry st)" using cnt by (simp add: registry_counted_def)
  note mem = dead_or_stale_mem [OF wf, of _ _ "is_closed (outs st)" "cells st" now
      "of_nat (as_secs (liveness_deadline (st_config st)))", folded vs_def]
  have ids: "j \<in> fst ` set vs \<longleftrightarrow> (\<exists>p. map_of (st_registry st) j = Some p \<and> expired_at st now p)" for j
    using mem by force
  have "map (\<lambda>(i, n, _). (i, n)) (fst (prune st vs)) = vs"
  proof (rule prune_pruned)
    show "distinct (map fst vs)" unfolding vs_def by (rule dead_or_stale_distinct [OF wf])
    show "\<forall>v \<in> set vs. fst v \<in> hm_keys (st_registry st)"
      using ids by (meson imageI map_of_Some_key)
  qed
  moreover have sw: "sweep_once env st now = foldl (mirror_departure env) (snd (prune st vs)) (fst (prune st vs))"
    by (simp add: sweep_once_def sweep_registry_def vs_def split: prod.splits)
  ultimately have "introduced known (st_pex (sweep_once env st now)) n =
      introduced known (st_pex st) n - {j. (j, n) \<in> set vs}"
    by (simp add: mirror_departures_introduced [OF laws] prune_state)
  moreover have "map_of (st_registry (sweep_once env st now)) i =
      (if i \<in> fst ` set vs then None else map_of (st_registry st) i)"
    unfolding sw mirror_departures_frame prune_state by (simp add: pt.del_all_get [OF wf])
  moreover have "registry_counted (sweep_once env st now)"
    using prune_counted [OF cnt, of vs] unfolding registry_counted_def sw by simp
  ultimately show ?thesis using ids mem by (auto split: option.splits)
qed

text \<open>A peer whose channel is gone, and one that is alive and recent.\<close>

theorem sweep_once_exact_witness:
  "map_of (st_registry (sweep_once demo_env (demo_state\<lparr>connected := 2,
     st_registry := [(''a'', demo_peer), (''b'', demo_peer\<lparr>p_tx := 0\<rparr>)]\<rparr>) 5)) ''a'' = None"
proof -
  let ?st = "demo_state\<lparr>connected := 2, st_registry := [(''a'', demo_peer), (''b'', demo_peer\<lparr>p_tx := 0\<rparr>)]\<rparr>"
  have "registry_counted ?st" by (simp add: registry_counted_def hm_wf_def registry_len_def)
  moreover have "engine_laws (e_engine demo_env) set" by (simp add: demo_env_def list_engine_laws)
  moreover have "expired_at ?st 5 demo_peer"
    by (simp add: expired_def is_closed_def demo_state_def demo_peer_def chan_new_def no_chans_def)
  ultimately show ?thesis using sweep_once_exact [of ?st demo_env set 5 "''a''"] by simp
qed

end
