(* ===== verification/Tls_Identity.thy ===== *)
theory Tls_Identity
  imports Server_Handlers Rust_Str
begin

text \<open>
  \<^verbatim>\<open>src/tls.rs\<close>, and the task \<^verbatim>\<open>run\<close> of \<^verbatim>\<open>src/server.rs\<close> spawns for an accepted connection up to
  \<^verbatim>\<open>handle_connection\<close>. PEM and X.509 parsing, SHA-256 and the TLS handshake are the crates'; they are
  fields of two records, and what is relied on of the handshake is the predicate \<open>honest_acceptor\<close>.
  Shown: with mTLS on, every connection that reaches \<^verbatim>\<open>handle_connection\<close> carries a verified identity,
  64 lowercase hexadecimal digits that name the digest of its certificate's key one to one, and no
  other id can be registered over it.
\<close>

record tls_lib =
  pem_certs :: "u8 list \<Rightarrow> string + u8 list list"
  pem_key :: "u8 list \<Rightarrow> string + u8 list"
  single_cert :: "u8 list list \<Rightarrow> u8 list \<Rightarrow> string + unit"
  x509_spki :: "u8 list \<Rightarrow> u8 list option"
  sha256 :: "u8 list \<Rightarrow> u8 list"

definition load_pem_identity :: "tls_lib \<Rightarrow> u8 list \<Rightarrow> u8 list \<Rightarrow> string + u8 list list \<times> u8 list" where
  "load_pem_identity lib cert_pem key_pem =
     (case pem_certs lib cert_pem of
        Inl e \<Rightarrow> Inl (''dig-relay: could not parse TLS certificate PEM: '' @ e)
      | Inr certs \<Rightarrow>
          if certs = [] then Inl ''dig-relay: TLS certificate PEM contains no certificates''
          else (case pem_key lib key_pem of
                  Inl e \<Rightarrow> Inl (''dig-relay: could not parse TLS private key PEM: '' @ e)
                | Inr key \<Rightarrow> Inr (certs, key)))"

text \<open>The server configuration is the identity, always with the mandatory client verifier below.\<close>

definition build_server_config :: "tls_lib \<Rightarrow> u8 list list \<Rightarrow> u8 list \<Rightarrow> string + u8 list list \<times> u8 list" where
  "build_server_config lib cert_chain key =
     (case single_cert lib cert_chain key of
        Inl e \<Rightarrow> Inl (''dig-relay: invalid TLS server certificate/key: '' @ e)
      | Inr _ \<Rightarrow> Inr (cert_chain, key))"

definition client_auth_mandatory :: bool where "client_auth_mandatory = True"

definition verify_client_cert :: "tls_lib \<Rightarrow> u8 list \<Rightarrow> string + unit" where
  "verify_client_cert lib end_entity =
     (if x509_spki lib end_entity = None then Inl ''client leaf certificate could not be parsed as X.509''
      else Inr ())"

definition hex_lower :: "u8 list \<Rightarrow> string" where
  "hex_lower bs = concat (map (\<lambda>b. [digit_char (unat (drop_bit 4 b)), digit_char (unat (b AND 0x0f))]) bs)"

definition peer_id_from_client_cert_der :: "tls_lib \<Rightarrow> u8 list \<Rightarrow> string option" where
  "peer_id_from_client_cert_der lib cert_der =
     map_option (\<lambda>spki. hex_lower (sha256 lib spki)) (x509_spki lib cert_der)"

text \<open>The acceptor: a completed handshake, and the certificates the client presented in it.\<close>

record 't acceptor =
  tls_accept :: "prefixed_stream \<Rightarrow> string + 't"
  peer_certificates :: "'t \<Rightarrow> u8 list list option"

definition extract_client_peer_id :: "tls_lib \<Rightarrow> 't acceptor \<Rightarrow> 't \<Rightarrow> string option" where
  "extract_client_peer_id lib acc t =
     (case peer_certificates acc t of
        Some (leaf # _) \<Rightarrow> peer_id_from_client_cert_der lib leaf
      | _ \<Rightarrow> None)"

datatype 't carrier = Plain prefixed_stream | Tls 't

text \<open>The stream, source and identity \<^verbatim>\<open>handle_connection\<close> is called with, if it is.\<close>

definition connection_start ::
  "relay_server_config \<Rightarrow> tls_lib \<Rightarrow> 't acceptor option \<Rightarrow> transport \<Rightarrow> socket_addr \<Rightarrow> bool
     \<Rightarrow> ('t carrier \<times> socket_addr \<times> string option) option" where
  "connection_start config lib tls_acceptor stream peer_addr timed_out =
     (case resolve_source config stream peer_addr timed_out of
        None \<Rightarrow> None
      | Some (s, addr) \<Rightarrow>
          (case tls_acceptor of
             Some acc \<Rightarrow>
               (case tls_accept acc s of
                  Inl _ \<Rightarrow> None
                | Inr t \<Rightarrow> Some (Tls t, addr, extract_client_peer_id lib acc t))
           | None \<Rightarrow> Some (Plain s, addr, None)))"

section \<open>Hexadecimal\<close>

text \<open>The inverse reading.\<close>

fun unhex :: "string \<Rightarrow> nat list" where
  "unhex (a # b # s) = (16 * the (to_digit 16 a) + the (to_digit 16 b)) # unhex s"
| "unhex _ = []"

lemma nibbles: "unat (drop_bit 4 (b :: u8)) = unat b div 16" "unat (b AND 0x0f) = unat b mod 16"
proof -
  show "unat (drop_bit 4 b) = unat b div 16" by (simp add: drop_bit_eq_div unat_div)
  have "b AND 0x0f = take_bit 4 b" by (simp add: take_bit_eq_mask mask_eq_exp_minus_1)
  then show "unat (b AND 0x0f) = unat b mod 16" by (simp add: take_bit_eq_mod unat_mod)
qed

lemma hex_lower_Cons:
  "hex_lower (b # bs) = digit_char (unat b div 16) # digit_char (unat b mod 16) # hex_lower bs"
  by (simp add: hex_lower_def nibbles)

lemma nibble_lt: "unat (b :: u8) div 16 < 16"
  using unat_lt2p [of b] by (simp add: less_mult_imp_div_less)

lemma unhex_hex_lower: "unhex (hex_lower bs) = map unat bs"
proof (induction bs)
  case (Cons b bs)
  have "16 * (unat b div 16) + unat b mod 16 = unat b" by simp
  with Cons nibble_lt [of b] show ?case
    by (simp add: hex_lower_Cons to_digit_char del: mult_div_mod_eq)
qed (simp add: hex_lower_def)

lemma hex_lower_inj: "hex_lower a = hex_lower b \<longleftrightarrow> a = b"
proof
  assume "hex_lower a = hex_lower b"
  then have "map unat a = map unat b" by (metis unhex_hex_lower)
  then show "a = b" by (rule map_injective) (auto simp: inj_on_def word_unat_eq_iff)
qed simp

definition hex_digits :: string where "hex_digits = ''0123456789abcdef''"

lemma digit_char_hex: "d < 16 \<Longrightarrow> digit_char d \<in> set hex_digits"
proof -
  have "\<forall>d \<in> set [0..<16]. digit_char d \<in> set hex_digits" by code_simp
  then show "d < 16 \<Longrightarrow> ?thesis" by simp
qed

lemma hex_lower_chars: "set (hex_lower bs) \<subseteq> set hex_digits \<and> length (hex_lower bs) = 2 * length bs"
proof (induction bs)
  case (Cons b bs)
  with nibble_lt [of b] show ?case by (simp add: hex_lower_Cons digit_char_hex)
qed (simp add: hex_lower_def)

section \<open>Identity\<close>

text \<open>What is relied on of the handshake: with mandatory client authentication it completes only with a
  certificate that the verifier accepted.\<close>

definition honest_acceptor :: "tls_lib \<Rightarrow> 't acceptor \<Rightarrow> bool" where
  "honest_acceptor lib acc \<longleftrightarrow>
     (\<forall>s t. tls_accept acc s = Inr t \<and> client_auth_mandatory \<longrightarrow>
        (\<exists>leaf rest. peer_certificates acc t = Some (leaf # rest) \<and> verify_client_cert lib leaf = Inr ()))"

text \<open>C39. With mTLS on, a connection that reaches the relay protocol carries the id of the certificate of
  its handshake: the 64 lowercase hexadecimal digits of the SHA-256 digest of its public key, which
  name that digest one to one. Whatever the client then asks, over this connection only that id can
  be registered. Without mTLS there is no verified id.\<close>

theorem verified_identity:
  assumes "honest_acceptor lib acc" and "\<And>bs. length (sha256 lib bs) = 32"
    and "connection_start config lib tls stream peer_addr timed_out = Some (c, addr, v)"
  shows "(tls = None \<longrightarrow> v = None)
    \<and> (tls = Some acc \<longrightarrow>
        (\<exists>t leaf rest spki. c = Tls t \<and> peer_certificates acc t = Some (leaf # rest)
           \<and> x509_spki lib leaf = Some spki \<and> v = Some (hex_lower (sha256 lib spki))
           \<and> length (hex_lower (sha256 lib spki)) = 64 \<and> set (hex_lower (sha256 lib spki)) \<subseteq> set hex_digits
           \<and> (\<forall>spki'. hex_lower (sha256 lib spki') = hex_lower (sha256 lib spki)
                \<longleftrightarrow> sha256 lib spki' = sha256 lib spki)
           \<and> (\<forall>env st s k rq held clk. counts_ok (regs_per_ip (st_abuse (st :: ('e, 'm) relay_state)))
                \<longrightarrow> fst (register_peer env st s k rq addr v held clk)
                \<longrightarrow> rq_peer_id rq = hex_lower (sha256 lib spki))))"
proof (intro conjI impI)
  show "v = None" if "tls = None"
    using assms(3) that by (auto simp: connection_start_def split: option.splits)
next
  assume tls: "tls = Some acc"
  with assms(3) obtain s t where t: "tls_accept acc s = Inr t" "c = Tls t" "v = extract_client_peer_id lib acc t"
    by (auto simp: connection_start_def split: option.splits sum.splits)
  with assms(1) obtain leaf rest where leaf: "peer_certificates acc t = Some (leaf # rest)"
    "verify_client_cert lib leaf = Inr ()"
    unfolding honest_acceptor_def client_auth_mandatory_def by blast
  then obtain spki where spki: "x509_spki lib leaf = Some spki"
    by (auto simp: verify_client_cert_def split: if_splits)
  with t(3) leaf(1) have v: "v = Some (hex_lower (sha256 lib spki))"
    by (simp add: extract_client_peer_id_def peer_id_from_client_cert_der_def)
  have "rq_peer_id rq = hex_lower (sha256 lib spki)"
    if "counts_ok (regs_per_ip (st_abuse st))" "fst (register_peer env st s k rq addr v held clk)"
    for env s k rq held clk and st :: "('e, 'm) relay_state"
    using that v by (auto simp: register_peer_iff commit_ok_def)
  with t(2) leaf spki v show "\<exists>t leaf rest spki. c = Tls t \<and> peer_certificates acc t = Some (leaf # rest)
      \<and> x509_spki lib leaf = Some spki \<and> v = Some (hex_lower (sha256 lib spki))
      \<and> length (hex_lower (sha256 lib spki)) = 64 \<and> set (hex_lower (sha256 lib spki)) \<subseteq> set hex_digits
      \<and> (\<forall>spki'. hex_lower (sha256 lib spki') = hex_lower (sha256 lib spki)
           \<longleftrightarrow> sha256 lib spki' = sha256 lib spki)
      \<and> (\<forall>env st s k rq held clk. counts_ok (regs_per_ip (st_abuse (st :: ('e, 'm) relay_state)))
           \<longrightarrow> fst (register_peer env st s k rq addr v held clk)
           \<longrightarrow> rq_peer_id rq = hex_lower (sha256 lib spki))"
    using hex_lower_chars [of "sha256 lib spki"] assms(2) by (simp add: hex_lower_inj)
qed

definition demo_tls_lib :: tls_lib where
  "demo_tls_lib = \<lparr>pem_certs = (\<lambda>b. Inr [b]), pem_key = Inr, single_cert = (\<lambda>_ _. Inr ()),
     x509_spki = Some, sha256 = (\<lambda>bs. take 32 (bs @ replicate 32 0))\<rparr>"

definition demo_acceptor :: "unit acceptor" where
  "demo_acceptor = \<lparr>tls_accept = (\<lambda>_. Inr ()), peer_certificates = (\<lambda>_. Some [[0xAB]])\<rparr>"

theorem verified_identity_witness:
  "\<exists>v. connection_start default_config demo_tls_lib (Some demo_acceptor) [] (mk_sa (V4 7) 1) False
       = Some (Tls (), mk_sa (V4 7) 1, Some v) \<and> length v = 64 \<and> set v \<subseteq> set hex_digits"
proof -
  have h: "honest_acceptor demo_tls_lib demo_acceptor"
    by (simp add: honest_acceptor_def demo_acceptor_def verify_client_cert_def demo_tls_lib_def)
  have l: "length (sha256 demo_tls_lib bs) = 32" for bs by (simp add: demo_tls_lib_def)
  have c: "connection_start default_config demo_tls_lib (Some demo_acceptor) [] (mk_sa (V4 7) 1) False
      = Some (Tls (), mk_sa (V4 7) 1, Some (hex_lower (sha256 demo_tls_lib [0xAB])))"
    by (simp add: connection_start_def resolve_source_def default_config_def trusts_def demo_acceptor_def
        extract_client_peer_id_def peer_id_from_client_cert_der_def demo_tls_lib_def)
  from verified_identity [OF h l c] c show ?thesis by auto
qed

end
