(* ===== verification/Ip_Text.thy ===== *)
theory Ip_Text
  imports Net_Addr Rust_Str
begin

text \<open>
  The text form of addresses in Rust's standard library, which the relay uses for its settings:
  the \<^verbatim>\<open>Display\<close> of IPv4, IPv6 and socket addresses, with the longest run of zero groups of an IPv6
  address compressed, and the parser behind their \<^verbatim>\<open>FromStr\<close>, which tries alternatives in order and
  accepts only a complete input. (A scope identifier is read and dropped, as the model of socket
  addresses has none.) Shown: every address and socket address reads back as it was written.
\<close>

section \<open>Printing\<close>

definition show_ipv4 :: "32 word \<Rightarrow> string" where
  "show_ipv4 a = str_join ''.'' (map (\<lambda>b. show_nat (unat b)) (octets4 a))"

definition show_hex :: "u16 \<Rightarrow> string" where
  "show_hex w = show_radix 16 (unat w)"

definition fmt_subslice :: "u16 list \<Rightarrow> string" where
  "fmt_subslice gs = str_join '':'' (map show_hex gs)"

text \<open>The loop that looks for the longest run of zero groups: position, current and longest run.\<close>

fun zero_run :: "nat \<Rightarrow> nat \<times> nat \<Rightarrow> nat \<times> nat \<Rightarrow> u16 list \<Rightarrow> nat \<times> nat" where
  "zero_run i cur best [] = best"
| "zero_run i cur best (g # gs) =
     (if g = 0 then
        (let cur' = (if snd cur = 0 then i else fst cur, snd cur + 1)
         in zero_run (i + 1) cur' (if snd cur' > snd best then cur' else best) gs)
      else zero_run (i + 1) (0, 0) best gs)"

definition show_ipv6 :: "128 word \<Rightarrow> string" where
  "show_ipv6 a =
     (case to_ipv4_mapped a of
        Some v4 \<Rightarrow> ''::ffff:'' @ show_ipv4 v4
      | None \<Rightarrow>
          (let gs = segments6 a; (start, n) = zero_run 0 (0, 0) (0, 0) gs
           in if n > 1 then fmt_subslice (take start gs) @ ''::'' @ fmt_subslice (drop (start + n) gs)
              else fmt_subslice gs))"

fun show_ip :: "ip_addr \<Rightarrow> string" where
  "show_ip (V4 a) = show_ipv4 a"
| "show_ip (V6 a) = show_ipv6 a"

definition show_socket_addr :: "socket_addr \<Rightarrow> string" where
  "show_socket_addr sa =
     (case sa_ip sa of
        V4 a \<Rightarrow> show_ipv4 a @ '':'' @ show_nat (unat (sa_port sa))
      | V6 a \<Rightarrow> ''['' @ show_ipv6 a @ '']:'' @ show_nat (unat (sa_port sa)))"

section \<open>Parsing\<close>

type_synonym 'a parser = "string \<Rightarrow> ('a \<times> string) option"

definition read_given_char :: "char \<Rightarrow> unit parser" where
  "read_given_char c s = (case s of x # r \<Rightarrow> if x = c then Some ((), r) else None | [] \<Rightarrow> None)"

definition is_digit :: "nat \<Rightarrow> char \<Rightarrow> bool" where
  "is_digit radix c \<longleftrightarrow> to_digit radix c \<noteq> None"

text \<open>\<^verbatim>\<open>read_number\<close>: a run of digits, not longer than allowed, below the bound of its type.\<close>

definition read_number :: "nat \<Rightarrow> nat option \<Rightarrow> bool \<Rightarrow> nat \<Rightarrow> nat parser" where
  "read_number radix max_digits allow_zero_prefix bound s =
     (let ds = takeWhile (is_digit radix) s
      in if (case max_digits of Some m \<Rightarrow> length ds > m | None \<Rightarrow> False) then None
         else if ds = [] then None
         else if \<not> allow_zero_prefix \<and> hd ds = CHR ''0'' \<and> length ds > 1 then None
         else if digits_val radix ds \<ge> bound then None
         else Some (digits_val radix ds, drop (length ds) s))"

definition read_separator :: "char \<Rightarrow> bool \<Rightarrow> 'a parser \<Rightarrow> 'a parser" where
  "read_separator sep first inner s =
     (if first then inner s
      else (case read_given_char sep s of None \<Rightarrow> None | Some (_, r) \<Rightarrow> inner r))"

fun read_octets :: "nat \<Rightarrow> bool \<Rightarrow> u8 list parser" where
  "read_octets 0 first s = Some ([], s)"
| "read_octets (Suc n) first s =
     (case read_separator (CHR ''.'') first (read_number 10 (Some 3) False 256) s of
        None \<Rightarrow> None
      | Some (b, r) \<Rightarrow>
          (case read_octets n False r of None \<Rightarrow> None | Some (bs, r') \<Rightarrow> Some (of_nat b # bs, r')))"

definition read_ipv4_addr :: "32 word parser" where
  "read_ipv4_addr s =
     (case read_octets 4 True s of None \<Rightarrow> None | Some (bs, r) \<Rightarrow> Some (from_octets bs, r))"

text \<open>\<^verbatim>\<open>read_groups\<close> with room for the given number of groups: the groups, whether they end in an
  embedded IPv4 address, and the rest.\<close>

fun read_groups :: "nat \<Rightarrow> bool \<Rightarrow> string \<Rightarrow> u16 list \<times> bool \<times> string" where
  "read_groups 0 first s = ([], False, s)"
| "read_groups (Suc n) first s =
     (case (if n \<ge> 1 then read_separator (CHR '':'') first read_ipv4_addr s else None) of
        Some (v4, r) \<Rightarrow> ([ucast (drop_bit 16 v4), ucast v4], True, r)
      | None \<Rightarrow>
          (case read_separator (CHR '':'') first (read_number 16 (Some 4) True 65536) s of
             Some (g, r) \<Rightarrow>
               (let (gs, is_v4, r') = read_groups n False r in (of_nat g # gs, is_v4, r'))
           | None \<Rightarrow> ([], False, s)))"

definition from_segments :: "u16 list \<Rightarrow> 128 word" where
  "from_segments gs = foldl (\<lambda>acc g. push_bit 16 acc OR ucast g) 0 gs"

definition read_ipv6_addr :: "128 word parser" where
  "read_ipv6_addr s =
     (let (head, head_ipv4, s1) = read_groups 8 True s
      in if length head = 8 then Some (from_segments head, s1)
         else if head_ipv4 then None
         else (case read_given_char (CHR '':'') s1 of
                 None \<Rightarrow> None
               | Some (_, s2) \<Rightarrow>
                   (case read_given_char (CHR '':'') s2 of
                      None \<Rightarrow> None
                    | Some (_, s3) \<Rightarrow>
                        (let (tail, _, s4) = read_groups (8 - (length head + 1)) True s3
                         in Some (from_segments
                               (head @ replicate (8 - length head - length tail) 0 @ tail), s4)))))"

definition read_port :: "u16 parser" where
  "read_port s =
     (case read_given_char (CHR '':'') s of
        None \<Rightarrow> None
      | Some (_, r) \<Rightarrow>
          (case read_number 10 None True 65536 r of None \<Rightarrow> None | Some (p, r') \<Rightarrow> Some (of_nat p, r')))"

definition read_scope_id :: "nat parser" where
  "read_scope_id s =
     (case read_given_char (CHR ''%'') s of
        None \<Rightarrow> None
      | Some (_, r) \<Rightarrow> read_number 10 None True (2 ^ 32) r)"

definition read_socket_addr_v4 :: "socket_addr parser" where
  "read_socket_addr_v4 s =
     (case read_ipv4_addr s of
        None \<Rightarrow> None
      | Some (a, r) \<Rightarrow>
          (case read_port r of None \<Rightarrow> None | Some (p, r') \<Rightarrow> Some (mk_sa (V4 a) p, r')))"

definition read_socket_addr_v6 :: "socket_addr parser" where
  "read_socket_addr_v6 s =
     (case read_given_char (CHR ''['') s of
        None \<Rightarrow> None
      | Some (_, s1) \<Rightarrow>
          (case read_ipv6_addr s1 of
             None \<Rightarrow> None
           | Some (a, s2) \<Rightarrow>
               (let s3 = (case read_scope_id s2 of Some (_, r) \<Rightarrow> r | None \<Rightarrow> s2)
                in case read_given_char (CHR '']'') s3 of
                     None \<Rightarrow> None
                   | Some (_, s4) \<Rightarrow>
                       (case read_port s4 of None \<Rightarrow> None | Some (p, r) \<Rightarrow> Some (mk_sa (V6 a) p, r)))))"

text \<open>\<^verbatim>\<open>parse_with\<close>: the whole input has to be consumed.\<close>

definition parse_with :: "'a parser \<Rightarrow> string \<Rightarrow> 'a option" where
  "parse_with p s = (case p s of Some (v, []) \<Rightarrow> Some v | _ \<Rightarrow> None)"

definition orelse :: "'a parser \<Rightarrow> 'a parser \<Rightarrow> 'a parser" where
  "orelse p q s = (case p s of Some x \<Rightarrow> Some x | None \<Rightarrow> q s)"

definition parse_ip :: "string \<Rightarrow> ip_addr option" where
  "parse_ip = parse_with
     (orelse (\<lambda>s. map_option (apfst V4) (read_ipv4_addr s)) (\<lambda>s. map_option (apfst V6) (read_ipv6_addr s)))"

definition parse_socket_addr :: "string \<Rightarrow> socket_addr option" where
  "parse_socket_addr = parse_with (orelse read_socket_addr_v4 read_socket_addr_v6)"

section \<open>Numbers read back\<close>

text \<open>What may follow a number: nothing, or a character that is not one of its digits.\<close>

definition stops :: "nat \<Rightarrow> string \<Rightarrow> bool" where
  "stops radix r \<longleftrightarrow> (case r of [] \<Rightarrow> True | c # _ \<Rightarrow> \<not> is_digit radix c)"

lemma takeWhile_digits:
  assumes "1 < radix" "radix \<le> 16" "stops radix r"
  shows "takeWhile (is_digit radix) (show_radix radix n @ r) = show_radix radix n"
proof -
  have "takeWhile (is_digit radix) r = []"
    using assms(3) by (cases r) (auto simp: stops_def)
  moreover have "\<And>c. c \<in> set (show_radix radix n) \<Longrightarrow> is_digit radix c"
    using show_radix_digits [OF assms(1,2)] by (fastforce simp: is_digit_def)
  ultimately show ?thesis by (simp add: takeWhile_append2)
qed

lemma read_number_show:
  assumes "1 < radix" "radix \<le> 16" "stops radix r" "n < bound"
    and "case md of Some m \<Rightarrow> length (show_radix radix n) \<le> m | None \<Rightarrow> True"
  shows "read_number radix md z bound (show_radix radix n @ r) = Some (n, r)"
proof -
  have "\<not> (hd (show_radix radix n) = CHR ''0'' \<and> length (show_radix radix n) > 1)"
    using show_radix_hd [OF assms(1,2), of n] show_radix_zero [OF assms(1)] by (cases "n = 0") auto
  with assms show ?thesis
    by (auto simp: read_number_def takeWhile_digits Let_def split: option.splits)
qed

lemma read_number_none:
  "stops radix s \<Longrightarrow> read_number radix md z bound s = None"
  by (cases s) (auto simp: read_number_def stops_def split: option.splits)

lemma read_given_char_simps [simp]:
  "read_given_char c (c # r) = Some ((), r)"
  "x \<noteq> c \<Longrightarrow> read_given_char c (x # r) = None"
  "read_given_char c [] = None"
  by (simp_all add: read_given_char_def)

lemma to_digit_seps [simp]:
  "\<not> is_digit 10 CHR ''.''" "\<not> is_digit 10 CHR '':''" "\<not> is_digit 10 CHR '']''"
  "\<not> is_digit 16 CHR '':''" "\<not> is_digit 16 CHR '']''" "\<not> is_digit 16 CHR ''.''"
  "\<not> is_digit 10 CHR ''[''"
  by code_simp+

lemma octet_digits: "length (show_nat (unat (b :: u8))) \<le> 3"
  using show_radix_length [of 10 "unat b" 2] unat_lt2p [of b] by simp

lemma hex_digits: "length (show_hex g) \<le> 4"
  using show_radix_length [of 16 "unat g" 3] unat_lt2p [of g] by (simp add: show_hex_def)

lemma read_octet: "stops 10 r \<Longrightarrow>
    read_number 10 (Some 3) False 256 (show_nat (unat (b :: u8)) @ r) = Some (unat b, r)"
  using unat_lt2p [of b] octet_digits [of b] by (intro read_number_show) simp_all

lemma read_hex: "stops 16 r \<Longrightarrow>
    read_number 16 (Some 4) True 65536 (show_hex g @ r) = Some (unat g, r)"
  using unat_lt2p [of g] hex_digits [of g] unfolding show_hex_def by (intro read_number_show) simp_all

section \<open>IPv4\<close>

lemma octets4_list: "octets4 a = [octets4 a ! 0, octets4 a ! 1, octets4 a ! 2, octets4 a ! 3]"
  by (rule nth_equalityI) (auto simp: less_Suc_eq numeral_eq_Suc)

lemma read_show_ipv4:
  assumes "stops 10 r"
  shows "read_ipv4_addr (show_ipv4 a @ r) = Some (a, r)"
proof -
  define b0 b1 b2 b3 where b: "b0 = octets4 a ! 0" "b1 = octets4 a ! 1" "b2 = octets4 a ! 2" "b3 = octets4 a ! 3"
  have o4: "octets4 a = [b0, b1, b2, b3]" unfolding b by (rule octets4_list)
  have four: "read_octets 4 = read_octets (Suc (Suc (Suc (Suc 0))))"
    by (rule arg_cong [of _ _ read_octets]) simp
  have dot: "stops 10 (CHR ''.'' # x)" for x by (simp add: stops_def)
  have "read_octets 4 True (show_ipv4 a @ r) = Some ([b0, b1, b2, b3], r)"
    unfolding show_ipv4_def o4 four by (simp add: read_separator_def read_octet dot assms)
  then show ?thesis using from_octets_octets [of 4 a] by (simp add: read_ipv4_addr_def o4)
qed

section \<open>IPv6\<close>

text \<open>After a hexadecimal group comes no dot, so it is never taken for an IPv4 address.\<close>

definition ends_group :: "string \<Rightarrow> bool" where
  "ends_group r \<longleftrightarrow> (case r of [] \<Rightarrow> True | c # _ \<Rightarrow> \<not> is_digit 16 c \<and> c \<noteq> CHR ''.'')"

lemma ends_group_stops: "ends_group r \<Longrightarrow> stops 16 r"
  by (cases r) (auto simp: ends_group_def stops_def)

lemma dec_hex: "is_digit 10 c \<Longrightarrow> is_digit 16 c"
  by (auto simp: is_digit_def to_digit_def Let_def split: if_splits)

lemma no_dot_after:
  assumes "\<And>c. c \<in> set h \<Longrightarrow> is_digit 16 c" "ends_group r"
    and "drop (length (takeWhile (is_digit 10) (h @ r))) (h @ r) = x # t"
  shows "x \<noteq> CHR ''.''"
proof
  assume x: "x = CHR ''.''"
  have dw: "dropWhile (is_digit 10) (h @ r) = x # t"
    using assms(3) by (simp add: dropWhile_eq_drop)
  then have "x \<in> set h \<or> dropWhile (is_digit 10) r = x # t"
  proof (cases "\<forall>c \<in> set h. is_digit 10 c")
    case True
    then show ?thesis using dw by (simp add: dropWhile_append2)
  next
    case False
    then obtain c where c: "c \<in> set h" "\<not> is_digit 10 c" by blast
    then have "dropWhile (is_digit 10) h @ r = x # t"
      using dw by (simp add: dropWhile_append1)
    moreover have "dropWhile (is_digit 10) h \<noteq> []" using c by (auto simp: dropWhile_eq_Nil_conv)
    ultimately have "x \<in> set (dropWhile (is_digit 10) h)"
      by (cases "dropWhile (is_digit 10) h") auto
    then show ?thesis by (blast dest: set_dropWhileD)
  qed
  then show False
  proof
    assume "x \<in> set h"
    with assms(1) [of x] x show False by simp
  next
    assume d: "dropWhile (is_digit 10) r = x # t"
    show False
    proof (cases r)
      case Nil
      with d show False by simp
    next
      case (Cons c r')
      with assms(2) have "\<not> is_digit 16 c" "c \<noteq> CHR ''.''" by (auto simp: ends_group_def)
      with dec_hex [of c] Cons d x show False by (auto split: if_splits)
    qed
  qed
qed

lemma read_ipv4_not_group:
  assumes "\<And>c. c \<in> set h \<Longrightarrow> is_digit 16 c" "ends_group r"
  shows "read_ipv4_addr (h @ r) = None"
proof -
  have four: "read_octets 4 = read_octets (Suc (Suc (Suc (Suc 0))))"
    by (rule arg_cong [of _ _ read_octets]) simp
  show ?thesis
  proof (cases "read_number 10 (Some 3) False 256 (h @ r)")
    case None
    then show ?thesis by (simp add: read_ipv4_addr_def four read_separator_def)
  next
    case (Some p)
    obtain n s where p: "p = (n, s)" by force
    with Some have s: "s = drop (length (takeWhile (is_digit 10) (h @ r))) (h @ r)"
      by (auto simp: read_number_def Let_def split: if_splits)
    have "read_given_char (CHR ''.'') s = None"
    proof (cases s)
      case (Cons x t)
      have "drop (length (takeWhile (is_digit 10) (h @ r))) (h @ r) = x # t"
        unfolding s [symmetric] by (rule Cons)
      with assms have "x \<noteq> CHR ''.''" by (rule no_dot_after)
      with Cons show ?thesis by simp
    qed simp
    with Some p show ?thesis by (simp add: read_ipv4_addr_def four read_separator_def)
  qed
qed

lemma show_hex_digits: "c \<in> set (show_hex g) \<Longrightarrow> is_digit 16 c"
  using show_radix_digits [of 16 c "unat g"] by (auto simp: show_hex_def is_digit_def)

lemma read_groups_stop:
  assumes "\<not> first \<Longrightarrow> (case r of [] \<Rightarrow> True | c # r' \<Rightarrow> c \<noteq> CHR '':'' \<or> ends_group r')"
    and "first \<Longrightarrow> ends_group r"
  shows "read_groups n first r = ([], False, r)"
proof (cases n)
  case (Suc k)
  have nope: "read_ipv4_addr x = None" "read_number 16 (Some 4) True 65536 x = None" if "ends_group x" for x
    using read_ipv4_not_group [of "[]" x] read_number_none [OF ends_group_stops [OF that]] that by simp_all
  have "read_separator (CHR '':'') first read_ipv4_addr r = None
    \<and> read_separator (CHR '':'') first (read_number 16 (Some 4) True 65536) r = None"
  proof (cases first)
    case True
    with assms nope show ?thesis by (simp add: read_separator_def)
  next
    case False
    with assms(1) nope show ?thesis
      by (cases r) (auto simp: read_separator_def read_given_char_def)
  qed
  then show ?thesis by (simp add: Suc)
qed simp

text \<open>Reading the groups of a slice, followed by something that is not a further group.\<close>

lemma read_groups_one:
  assumes "ends_group r"
  shows "read_groups (Suc n) True (show_hex g @ r) =
      (let (gs, f, r') = read_groups n False r in (g # gs, f, r'))"
    and "read_groups (Suc n) False (CHR '':'' # show_hex g @ r) =
      (let (gs, f, r') = read_groups n False r in (g # gs, f, r'))"
  using read_ipv4_not_group [where h = "show_hex g", OF show_hex_digits assms] read_hex [OF ends_group_stops [OF assms], of g]
  by (simp_all add: read_separator_def)

definition tail_text :: "u16 list \<Rightarrow> string" where
  "tail_text gs = concat (map (\<lambda>g. CHR '':'' # show_hex g) gs)"

lemma fmt_subslice_Cons: "fmt_subslice (g # gs) = show_hex g @ tail_text gs"
  unfolding fmt_subslice_def tail_text_def by (induction gs arbitrary: g) simp_all

lemma ends_group_tail: "ends_group r \<Longrightarrow> ends_group (tail_text gs @ r)"
  by (cases gs) (simp_all add: tail_text_def ends_group_def)

definition stops_groups :: "string \<Rightarrow> bool" where
  "stops_groups r \<longleftrightarrow> (case r of [] \<Rightarrow> True | c # r' \<Rightarrow> c \<noteq> CHR '':'' \<or> ends_group r')"

lemma read_groups_tail:
  assumes "ends_group r" "length gs \<le> n" "length gs < n \<Longrightarrow> stops_groups r"
  shows "read_groups n False (tail_text gs @ r) = (gs, False, r)"
  using assms(2,3)
proof (induction gs arbitrary: n)
  case Nil
  show ?case
  proof (cases n)
    case (Suc k)
    with Nil show ?thesis
      using read_groups_stop [of False r n] by (simp add: tail_text_def stops_groups_def)
  qed (simp add: tail_text_def)
next
  case (Cons g gs)
  then obtain k where n: "n = Suc k" by (cases n) auto
  have "read_groups k False (tail_text gs @ r) = (gs, False, r)" using Cons n by simp
  with read_groups_one(2) [OF ends_group_tail [OF assms(1)], of k g gs] n show ?case
    by (simp add: tail_text_def)
qed

lemma read_groups_fmt:
  assumes "ends_group r" "length gs \<le> n" "length gs < n \<Longrightarrow> stops_groups r"
  shows "read_groups n True (fmt_subslice gs @ r) = (gs, False, r)"
proof (cases gs)
  case Nil
  then show ?thesis using read_groups_stop [of True r n] assms(1) by (simp add: fmt_subslice_def)
next
  case (Cons g hs)
  then obtain k where n: "n = Suc k" using assms(2) by (cases n) auto
  have "read_groups k False (tail_text hs @ r) = (hs, False, r)"
    using assms Cons n by (intro read_groups_tail) simp_all
  with read_groups_one(1) [OF ends_group_tail [OF assms(1)], of k g hs] show ?thesis
    by (simp add: Cons n fmt_subslice_Cons)
qed

lemma from_segments_snoc: "from_segments (gs @ [g]) = push_bit 16 (from_segments gs) OR ucast g"
  by (simp add: from_segments_def)

lemma bit_from_segments:
  "bit (from_segments gs) n \<longleftrightarrow>
     n < 128 \<and> n div 16 < length gs \<and> bit (gs ! (length gs - 1 - n div 16)) (n mod 16)"
proof (induction gs arbitrary: n rule: rev_induct)
  case Nil
  then show ?case by (simp add: from_segments_def)
next
  case (snoc g gs)
  show ?case
  proof (cases "n < 16")
    case True
    then show ?thesis
      by (auto simp: from_segments_snoc bit_or_iff bit_push_bit_iff bit_ucast_iff nth_append
          dest: bit_imp_le_length)
  next
    case False
    then have "n div 16 = Suc ((n - 16) div 16)" "(n - 16) mod 16 = n mod 16"
      by (simp_all add: div_if mod_if)
    moreover have "\<not> bit g n" using False by (auto dest: bit_imp_le_length)
    ultimately show ?thesis using False
      by (auto simp: from_segments_snoc bit_or_iff bit_push_bit_iff bit_ucast_iff nth_append
          snoc.IH intro: less_imp_diff_less)
  qed
qed

lemma from_segments_segments6: "from_segments (segments6 a) = a"
proof (rule bit_word_eqI)
  fix k assume k: "k < LENGTH(128)"
  then have lt: "k div 16 < 8" by auto
  then have "16 * (7 - (7 - k div 16)) + k mod 16 = k" by auto
  with lt k show "bit (from_segments (segments6 a)) k = bit a k"
    by (simp add: bit_from_segments bit_segments6)
qed

text \<open>Wherever the loop finds its run, the groups there are zero.\<close>

definition zeros_at :: "u16 list \<Rightarrow> nat \<times> nat \<Rightarrow> bool" where
  "zeros_at gs = (\<lambda>(start, n). start + n \<le> length gs \<and> (\<forall>i < n. gs ! (start + i) = 0))"

lemma zero_run_zeros:
  assumes "zeros_at (pre @ gs) best" "snd cur = 0 \<or> fst cur + snd cur = length pre \<and> zeros_at (pre @ gs) cur"
  shows "zeros_at (pre @ gs) (zero_run (length pre) cur best gs)"
  using assms
proof (induction gs arbitrary: pre cur best)
  case Nil
  then show ?case by simp
next
  case (Cons g gs)
  define cur' where "cur' = (if snd cur = 0 then length pre else fst cur, snd cur + 1)"
  define best' where "best' = (if snd cur' > snd best then cur' else best)"
  show ?case
  proof (cases "g = 0")
    case True
    have c: "zeros_at (pre @ g # gs) cur'"
      using Cons.prems(2) True
      by (auto simp: cur'_def zeros_at_def less_Suc_eq nth_append split: prod.splits if_splits)
    have "fst cur' + snd cur' = length (pre @ [g])" using Cons.prems(2) by (auto simp: cur'_def)
    moreover have "zeros_at (pre @ g # gs) best'" using c Cons.prems(1) by (simp add: best'_def)
    ultimately have "zeros_at (pre @ g # gs) (zero_run (length (pre @ [g])) cur' best' gs)"
      using Cons.IH [of "pre @ [g]" best' cur'] c by simp
    moreover have "zero_run (length pre) cur best (g # gs) = zero_run (length (pre @ [g])) cur' best' gs"
      using True by (simp add: Let_def cur'_def best'_def)
    ultimately show ?thesis by simp
  next
    case False
    with Cons.IH [of "pre @ [g]" best "(0, 0)"] Cons.prems(1) show ?thesis by simp
  qed
qed

lemma zeros_at_split:
  assumes "zeros_at gs (start, n)"
  shows "gs = take start gs @ replicate n 0 @ drop (start + n) gs"
proof -
  have "take n (drop start gs) = replicate n 0"
    using assms by (intro nth_equalityI) (auto simp: zeros_at_def)
  then show ?thesis by (metis append_take_drop_id drop_drop add.commute)
qed

lemma read_show_ipv6_plain:
  assumes plain: "to_ipv4_mapped a = None" and r: "ends_group r" "stops_groups r"
  shows "read_ipv6_addr (show_ipv6 a @ r) = Some (a, r)"
proof -
  define gs where "gs = segments6 a"
  obtain start n where z: "zero_run 0 (0, 0) (0, 0) gs = (start, n)" by force
  have len: "length gs = 8" by (simp add: gs_def)
  have inv: "from_segments gs = a" by (simp add: gs_def from_segments_segments6)
  have za: "zeros_at gs (start, n)"
    using zero_run_zeros [of "[]" gs "(0, 0)" "(0, 0)"] z by (simp add: zeros_at_def)
  have show6: "show_ipv6 a = (if n > 1 then fmt_subslice (take start gs) @ ''::'' @ fmt_subslice (drop (start + n) gs)
      else fmt_subslice gs)"
    by (simp add: show_ipv6_def plain gs_def [symmetric] z)
  show ?thesis
  proof (cases "n > 1")
    case False
    with read_groups_fmt [OF r(1), of gs 8] len  inv show ?thesis
      by (simp add: read_ipv6_addr_def show6)
  next
    case True
    let ?h = "take start gs" and ?t = "drop (start + n) gs"
    have le: "start + n \<le> 8" using za len by (simp add: zeros_at_def)
    have sep: "ends_group (''::'' @ x)" "stops_groups (''::'' @ x)" for x
      by (simp_all add: ends_group_def stops_groups_def)
    have head: "read_groups 8 True (fmt_subslice ?h @ ''::'' @ fmt_subslice ?t @ r) = (?h, False, ''::'' @ fmt_subslice ?t @ r)"
      by (rule read_groups_fmt) (use len sep in simp_all)
    have tail: "read_groups (8 - (start + 1)) True (fmt_subslice ?t @ r) = (?t, False, r)"
      by (rule read_groups_fmt [OF r(1)]) (use len le True r in simp_all)
    have hl: "length ?h = start" "length ?h \<noteq> 8" using len le True by simp_all
    have "8 - start - length ?t = n" using len le by simp
    then have "from_segments (?h @ replicate (8 - start - length ?t) 0 @ ?t) = a"
      using zeros_at_split [OF za] inv by simp
    with True head tail hl show ?thesis
      by (simp add: read_ipv6_addr_def show6)
  qed
qed

lemma mapped_segments:
  assumes "to_ipv4_mapped a = Some v4"
  shows "from_segments [0, 0, 0, 0, 0, 0xffff, ucast (drop_bit 16 v4), ucast v4] = a"
proof -
  have hi: "drop_bit 32 a = 0xffff" and lo: "v4 = ucast a"
    using assms by (auto simp: to_ipv4_mapped_def split: if_splits)
  have "segments6 a = [0, 0, 0, 0, 0, 0xffff, ucast (drop_bit 16 v4), ucast v4]"
  proof (rule nth_equalityI)
    fix i assume "i < length (segments6 a)"
    then have i: "i < 8" by simp
    have up: "bit a (32 + k) \<longleftrightarrow> k < 16" for k
      using arg_cong [OF hi, of "\<lambda>w. bit w k"] by (simp only: bit_drop_bit_eq o_def bit_ffff)
    consider "i < 5" | "i = 5" | "i = 6" | "i = 7" using i by linarith
    then show "segments6 a ! i = [0, 0, 0, 0, 0, 0xffff, ucast (drop_bit 16 v4), ucast v4] ! i"
    proof cases
      case 1
      have "segments6 a ! i = 0"
      proof (rule bit_word_eqI)
        fix j assume "j < LENGTH(16)"
        have "16 * (7 - i) + j = 32 + (16 * (5 - i) + j)" using 1 by auto
        then show "bit (segments6 a ! i) j = bit 0 j"
          using i up [of "16 * (5 - i) + j"] 1 by (simp only: bit_segments6) auto
      qed
      with 1 show ?thesis by (auto simp: less_Suc_eq numeral_eq_Suc)
    next
      case 2
      have "segments6 a ! 5 = 0xffff"
      proof (rule bit_word_eqI)
        fix j assume j: "j < LENGTH(16)"
        have m: "(0xffff :: u16) = mask 16" by (simp add: mask_eq_exp_minus_1)
        show "bit (segments6 a ! 5) j = bit (0xffff :: u16) j"
          using up [of j] j unfolding m bit_mask_iff by (simp add: bit_segments6)
      qed
      with 2 show ?thesis by simp
    next
      case 3
      have "segments6 a ! 6 = ucast (drop_bit 16 v4)"
        by (rule bit_word_eqI) (simp add: bit_segments6 lo bit_ucast_iff bit_drop_bit_eq)
      with 3 show ?thesis by simp
    next
      case 4
      have "segments6 a ! 7 = ucast v4"
        by (rule bit_word_eqI) (simp add: bit_segments6 lo bit_ucast_iff)
      with 4 show ?thesis by simp
    qed
  qed simp
  then show ?thesis using from_segments_segments6 [of a] by simp
qed

lemma read_show_ipv6:
  assumes r: "ends_group r" "stops_groups r"
  shows "read_ipv6_addr (show_ipv6 a @ r) = Some (a, r)"
proof (cases "to_ipv4_mapped a")
  case None
  then show ?thesis by (rule read_show_ipv6_plain [OF _ r])
next
  case (Some v4)
  have dec: "stops 10 r"
    using r(1) dec_hex by (cases r) (auto simp: ends_group_def stops_def)
  have s: "show_ipv6 a @ r = ''::'' @ ''ffff'' @ '':'' @ show_ipv4 v4 @ r"
    by (simp add: show_ipv6_def Some)
  have "digit_char 15 = CHR ''f''" by code_simp
  then have "show_radix 16 65535 = ''ffff''"
    by (simp add: show_radix.simps [of 16 65535] show_radix.simps [of 16 4095]
        show_radix.simps [of 16 255] show_radix.simps [of 16 15])
  then have ffff: "show_hex 0xffff = ''ffff''" by (simp add: show_hex_def)
  have colon: "ends_group (CHR '':'' # x)" for x by (simp add: ends_group_def)
  have head: "read_groups 8 True (''::'' @ x) = ([], False, ''::'' @ x)" for x
    by (rule read_groups_stop) (simp_all add: colon)
  have six: "read_groups 7 = read_groups (Suc (Suc (Suc 4)))" by (rule arg_cong [of _ _ read_groups]) simp
  have v4: "read_groups (Suc (Suc k)) False (CHR '':'' # show_ipv4 v4 @ r) = ([ucast (drop_bit 16 v4), ucast v4], True, r)" for k
    by (simp add: read_separator_def read_show_ipv4 [OF dec])
  have "read_groups 7 True (show_hex 0xffff @ CHR '':'' # show_ipv4 v4 @ r)
      = ([0xffff, ucast (drop_bit 16 v4), ucast v4], True, r)"
    unfolding six read_groups_one(1) [OF colon] v4 by simp
  then have tail: "read_groups 7 True (''ffff'' @ '':'' @ show_ipv4 v4 @ r)
      = ([0xffff, ucast (drop_bit 16 v4), ucast v4], True, r)"
    by (simp add: ffff)
  have "from_segments ([] @ replicate 5 0 @ [0xffff, ucast (drop_bit 16 v4), ucast v4]) = a"
    using mapped_segments [OF Some] by (simp add: eval_nat_numeral)
  then show ?thesis using head [of "''ffff'' @ '':'' @ show_ipv4 v4 @ r"] tail unfolding s
    by (simp add: read_ipv6_addr_def)
qed

section \<open>Round trips\<close>

lemma read_ipv4_no_colon: "read_ipv4_addr (show_ipv6 a @ r) = None" if "ends_group r"
proof -
  have colon: "ends_group (CHR '':'' # x)" for x by (simp add: ends_group_def)
  have hex: "read_ipv4_addr (fmt_subslice gs @ x) = None" if "ends_group x" for gs x
  proof (cases gs)
    case Nil
    then show ?thesis using read_ipv4_not_group [of "[]" x] that by (simp add: fmt_subslice_def)
  next
    case (Cons g hs)
    then show ?thesis
      using read_ipv4_not_group [where h = "show_hex g", OF show_hex_digits ends_group_tail [OF that]]
      by (simp add: fmt_subslice_Cons)
  qed
  show ?thesis
    using read_ipv4_not_group [of "[]", OF _ colon] hex [OF that] hex [OF colon] that
    by (auto simp: show_ipv6_def Let_def split: option.splits prod.splits)
qed

lemma parse_show_ip: "parse_ip (show_ip i) = Some i"
proof (cases i)
  case (V4 a)
  have "read_ipv4_addr (show_ipv4 a) = Some (a, [])"
    using read_show_ipv4 [of "[]" a] by (simp add: stops_def)
  with V4 show ?thesis by (simp add: parse_ip_def parse_with_def orelse_def)
next
  case (V6 a)
  have "read_ipv4_addr (show_ipv6 a) = None" "read_ipv6_addr (show_ipv6 a) = Some (a, [])"
    using read_ipv4_no_colon [of "[]" a] read_show_ipv6 [of "[]" a]
    by (simp_all add: ends_group_def stops_groups_def)
  with V6 show ?thesis by (simp add: parse_ip_def parse_with_def orelse_def)
qed

lemma read_show_port: "read_port (CHR '':'' # show_nat (unat (p :: u16))) = Some (p, [])"
proof -
  have "unat p < 65536" using unat_lt2p [of p] by simp
  then have "read_number 10 None True 65536 (show_nat (unat p) @ []) = Some (unat p, [])"
    by (intro read_number_show) (simp_all add: stops_def)
  then show ?thesis by (simp add: read_port_def)
qed

lemma parse_show_socket_addr: "parse_socket_addr (show_socket_addr sa) = Some sa"
proof (cases "sa_ip sa")
  case (V4 a)
  have "stops 10 (CHR '':'' # x)" for x by (simp add: stops_def)
  then have "read_ipv4_addr (show_ipv4 a @ CHR '':'' # show_nat (unat (sa_port sa))) =
      Some (a, CHR '':'' # show_nat (unat (sa_port sa)))"
    by (rule read_show_ipv4)
  then have "read_socket_addr_v4 (show_socket_addr sa) = Some (sa, [])"
    using V4 by (simp add: read_socket_addr_v4_def show_socket_addr_def read_show_port)
  then show ?thesis by (simp add: parse_socket_addr_def parse_with_def orelse_def)
next
  case (V6 a)
  let ?r = "CHR '']'' # CHR '':'' # show_nat (unat (sa_port sa))"
  have r: "ends_group ?r" "stops_groups ?r" by (simp_all add: ends_group_def stops_groups_def)
  have s: "show_socket_addr sa = CHR ''['' # show_ipv6 a @ ?r" using V6 by (simp add: show_socket_addr_def)
  have four: "read_octets 4 = read_octets (Suc (Suc (Suc (Suc 0))))"
    by (rule arg_cong [of _ _ read_octets]) simp
  have "read_ipv4_addr (CHR ''['' # show_ipv6 a @ ?r) = None"
    by (simp add: read_ipv4_addr_def four read_separator_def read_number_none stops_def)
  then have v4: "read_socket_addr_v4 (show_socket_addr sa) = None"
    by (simp add: read_socket_addr_v4_def s)
  have "read_socket_addr_v6 (show_socket_addr sa) = Some (sa, [])"
    using V6 read_show_ipv6 [OF r, of a]
    by (simp add: s read_socket_addr_v6_def read_scope_id_def read_show_port)
  with v4 show ?thesis by (simp add: parse_socket_addr_def parse_with_def orelse_def)
qed

end
