(* ===== verification/Cidr_Text.thy ===== *)
theory Cidr_Text
  imports Ip_Text Proxy_Protocol
begin

text \<open>
  The parsers of \<^verbatim>\<open>src/proxy_protocol.rs\<close> for the trusted-proxy setting: one CIDR block and a
  comma-separated list. Shown: whatever parses has a prefix length within its family's width, so
  matching an address against it never fails, and a list written out reads back as it was.
\<close>

definition ip_width :: "ip_addr \<Rightarrow> nat" where
  "ip_width i = (if ip_is_ipv4 i then 32 else 128)"

definition cidr_parse :: "string \<Rightarrow> string + cidr" where
  "cidr_parse s =
     (let (addr_part, prefix_part) =
            (case split_once (CHR ''/'') s of Some (a, p) \<Rightarrow> (a, Some p) | None \<Rightarrow> (s, None))
      in case parse_ip (trim addr_part) of
           None \<Rightarrow> Inl (''not an IP address: '' @ addr_part)
         | Some base \<Rightarrow>
             (let mx = ip_width base
              in case prefix_part of
                   None \<Rightarrow> Inr \<lparr>cidr_base = base, cidr_prefix_len = of_nat mx\<rparr>
                 | Some p \<Rightarrow>
                     (case parse_uint 256 (trim p) of
                        None \<Rightarrow> Inl (''not a prefix length: '' @ p)
                      | Some n \<Rightarrow>
                          if n > mx
                          then Inl (''prefix /'' @ show_nat n @ '' exceeds /'' @ show_nat mx @ '' for '' @ show_ip base)
                          else Inr \<lparr>cidr_base = base, cidr_prefix_len = of_nat n\<rparr>)))"

text \<open>Collecting into a \<^verbatim>\<open>Result\<close> stops at the first error.\<close>

fun collect_results :: "('e + 'a) list \<Rightarrow> 'e + 'a list" where
  "collect_results [] = Inr []"
| "collect_results (Inl e # rs) = Inl e"
| "collect_results (Inr x # rs) =
     (case collect_results rs of Inl e \<Rightarrow> Inl e | Inr xs \<Rightarrow> Inr (x # xs))"

definition trusted_proxies_parse :: "string \<Rightarrow> string + trusted_proxies" where
  "trusted_proxies_parse l =
     collect_results (map cidr_parse (filter (\<lambda>s. s \<noteq> []) (map trim (split_on (CHR '','') l))))"

section \<open>Parsed blocks are within their width\<close>

lemma cidr_parse_ok: "cidr_parse s = Inr c \<Longrightarrow> cidr_wf c"
proof -
  have w: "(if ip_is_ipv4 i then 32 else 128) < (256 :: nat)" for i by simp
  show "cidr_parse s = Inr c \<Longrightarrow> cidr_wf c"
    using w by (auto simp: cidr_parse_def cidr_wf_def ip_width_def Let_def unat_of_nat not_less
        split: prod.splits option.splits if_splits dest: le_less_trans [OF _ w])
qed

lemma collect_results_set: "collect_results rs = Inr xs \<Longrightarrow> rs = map Inr xs"
  by (induction rs arbitrary: xs rule: collect_results.induct) (auto split: sum.splits)

lemma collect_results_Inr [simp]: "collect_results (map Inr xs) = Inr xs"
  by (induction xs) simp_all

lemma trusted_proxies_parse_ok: "trusted_proxies_parse l = Inr t \<Longrightarrow> c \<in> set t \<Longrightarrow> cidr_wf c"
  unfolding trusted_proxies_parse_def
  by (drule collect_results_set) (metis (no_types, lifting) cidr_parse_ok image_iff list.set_map)

section \<open>Lists read back\<close>

definition show_cidr :: "cidr \<Rightarrow> string" where
  "show_cidr c = show_ip (cidr_base c) @ ''/'' @ show_nat (unat (cidr_prefix_len c))"

lemma list_all_join: "list_all P sep \<Longrightarrow> \<forall>s \<in> set ss. list_all P s \<Longrightarrow> list_all P (str_join sep ss)"
  by (induction sep ss rule: str_join.induct) auto

text \<open>The characters of an address.\<close>

definition ip_char :: "char \<Rightarrow> bool" where
  "ip_char c \<longleftrightarrow> is_digit 16 c \<or> c = CHR ''.'' \<or> c = CHR '':''"

lemma ip_char_plain: "ip_char c \<Longrightarrow> plain c \<and> c \<noteq> CHR ''/'' \<and> c \<noteq> CHR '',''"
proof -
  have "plain CHR ''.''" "plain CHR '':''" "\<not> is_digit 16 CHR ''/''" "\<not> is_digit 16 CHR '',''" by code_simp+
  then show "ip_char c \<Longrightarrow> ?thesis"
    using digit_plain [of 16 c] by (auto simp: ip_char_def is_digit_def)
qed

lemma show_hex_ip_char: "list_all ip_char (show_hex g)"
  using show_hex_digits by (auto simp: list_all_iff ip_char_def)

lemma fmt_subslice_ip_char: "list_all ip_char (fmt_subslice gs)"
  unfolding fmt_subslice_def
  by (rule list_all_join) (simp_all add: show_hex_ip_char ip_char_def)

lemma show_ipv4_ip_char: "list_all ip_char (show_ipv4 a)"
proof -
  have "list_all ip_char (show_nat n)" for n
    using show_radix_digits [of 10 _ n] dec_hex by (fastforce simp: list_all_iff ip_char_def is_digit_def)
  then show ?thesis unfolding show_ipv4_def by (intro list_all_join) (auto simp: ip_char_def)
qed

lemma show_ip_ip_char: "list_all ip_char (show_ip i)"
proof -
  have "ip_char CHR '':''" "ip_char CHR ''f''" by code_simp+
  then show ?thesis
    by (cases i) (auto simp: show_ipv6_def Let_def show_ipv4_ip_char fmt_subslice_ip_char
        split: option.splits prod.splits)
qed

lemma show_cidr_chars:
  "list_all plain (show_cidr c) \<and> CHR '','' \<notin> set (show_cidr c) \<and> show_cidr c \<noteq> []"
proof -
  have n: "list_all (\<lambda>c. plain c \<and> c \<noteq> CHR '','') (show_nat k)" for k
  proof -
    have "to_digit 10 CHR '','' = None" by code_simp
    then show ?thesis
      using show_radix_digits [of 10 _ k] digit_plain [of 10] by (fastforce simp: list_all_iff)
  qed
  have i: "list_all (\<lambda>c. plain c \<and> c \<noteq> CHR '','') (show_ip j)" for j
    using show_ip_ip_char [of j] ip_char_plain by (auto simp: list_all_iff)
  have "plain CHR ''/''" by code_simp
  with n [of "unat (cidr_prefix_len c)"] i [of "cidr_base c"] show ?thesis
    by (auto simp: show_cidr_def list_all_iff)
qed

lemma cidr_parse_show: "cidr_wf c \<Longrightarrow> cidr_parse (show_cidr c) = Inr c"
proof -
  assume wf: "cidr_wf c"
  let ?n = "unat (cidr_prefix_len c)"
  have "CHR ''/'' \<notin> set (show_ip (cidr_base c))"
    using show_ip_ip_char [of "cidr_base c"] ip_char_plain by (auto simp: list_all_iff)
  then have s: "split_once (CHR ''/'') (show_cidr c) = Some (show_ip (cidr_base c), show_nat ?n)"
    by (simp add: split_once_Some show_cidr_def)
  have a: "trim (show_ip (cidr_base c)) = show_ip (cidr_base c)"
    using show_ip_ip_char [of "cidr_base c"] ip_char_plain by (intro trim_plain) (auto simp: list_all_iff)
  have b: "trim (show_nat ?n) = show_nat ?n" by (intro trim_plain show_radix_plain) simp_all
  have "?n < 256" using unat_lt2p [of "cidr_prefix_len c"] by simp
  then have p: "parse_uint 256 (show_nat ?n) = Some ?n" by (rule parse_show)
  have "?n \<le> ip_width (cidr_base c)" using wf by (simp add: cidr_wf_def ip_width_def)
  with s a b p show ?thesis by (simp add: cidr_parse_def Let_def parse_show_ip)
qed

lemma split_joined:
  assumes "\<And>s. s \<in> set ss \<Longrightarrow> CHR '','' \<notin> set s" "ss \<noteq> []"
  shows "split_on (CHR '','') (str_join '', '' ss) = hd ss # map (Cons (CHR '' '')) (tl ss)"
  using assms
proof (induction ss)
  case (Cons s ss)
  note C = Cons
  show ?case
  proof (cases ss)
    case Nil
    with Cons show ?thesis by (simp add: split_on_notin)
  next
    case (Cons t ts)
    have "split_on (CHR '','') (s @ CHR '','' # CHR '' '' # str_join '', '' ss) =
        s # split_on (CHR '','') (CHR '' '' # str_join '', '' ss)"
      using C(2) by (intro split_on_append) simp
    moreover have "split_on (CHR '','') (str_join '', '' ss) = hd ss # map (Cons (CHR '' '')) (tl ss)"
      using C Cons by auto
    ultimately show ?thesis using Cons by simp
  qed
qed simp

text \<open>C29. The trusted-proxy setting: what parses lists only blocks whose prefix length fits their
  family, so no address makes the match fail; and a list written out with commas reads back as
  exactly the blocks written.\<close>

theorem trusted_proxies_roundtrip:
  "((\<forall>c \<in> set t. cidr_wf c) \<longleftrightarrow>
      trusted_proxies_parse (str_join '', '' (map show_cidr t)) = Inr t)
   \<and> (\<forall>l c. trusted_proxies_parse l = Inr t \<and> c \<in> set t \<longrightarrow> cidr_contains c ip \<noteq> None)"
proof (intro conjI iffI allI impI)
  assume wf: "\<forall>c \<in> set t. cidr_wf c"
  let ?ss = "map show_cidr t"
  have "map trim (split_on (CHR '','') (str_join '', '' ?ss)) = (if t = [] then [[]] else ?ss)"
  proof (cases "t = []")
    case True
    have "trim [] = []" by (rule trim_plain) simp
    with True show ?thesis by simp
  next
    case False
    have "split_on (CHR '','') (str_join '', '' ?ss) = hd ?ss # map (Cons (CHR '' '')) (tl ?ss)"
      using show_cidr_chars False by (intro split_joined) auto
    moreover have "trim (show_cidr c) = show_cidr c" for c
      using show_cidr_chars [of c] by (intro trim_plain) simp
    ultimately show ?thesis using False by (cases t) (auto simp: trim_space)
  qed
  then have "filter (\<lambda>s. s \<noteq> []) (map trim (split_on (CHR '','') (str_join '', '' ?ss))) = ?ss"
    using show_cidr_chars by (auto simp: filter_id_conv)
  moreover have "map cidr_parse ?ss = map Inr t" using wf by (simp add: cidr_parse_show)
  ultimately show "trusted_proxies_parse (str_join '', '' ?ss) = Inr t"
    by (simp only: trusted_proxies_parse_def collect_results_Inr)
next
  assume "trusted_proxies_parse (str_join '', '' (map show_cidr t)) = Inr t"
  then show "\<forall>c \<in> set t. cidr_wf c" by (auto dest: trusted_proxies_parse_ok)
next
  fix l c assume "trusted_proxies_parse l = Inr t \<and> c \<in> set t"
  then show "cidr_contains c ip \<noteq> None"
    using trusted_proxies_parse_ok [of l t c] by (simp add: cidr_contains_eq)
qed

theorem trusted_proxies_roundtrip_witness:
  "trusted_proxies_parse (str_join '', '' (map show_cidr
       [\<lparr>cidr_base = V4 0x0A000000, cidr_prefix_len = 8\<rparr>, \<lparr>cidr_base = V6 0, cidr_prefix_len = 0\<rparr>]))
     = Inr [\<lparr>cidr_base = V4 0x0A000000, cidr_prefix_len = 8\<rparr>, \<lparr>cidr_base = V6 0, cidr_prefix_len = 0\<rparr>]"
  using trusted_proxies_roundtrip
    [of "[\<lparr>cidr_base = V4 0x0A000000, cidr_prefix_len = 8\<rparr>, \<lparr>cidr_base = V6 0, cidr_prefix_len = 0\<rparr>]"]
  by (simp add: cidr_wf_def)

end
