(* ===== verification/Service_Env.thy ===== *)
theory Service_Env
  imports Cidr_Text Relay_Config
begin

text \<open>
  How a configuration reaches the relay: the command line's overrides (\<^verbatim>\<open>src/main.rs\<close>,
  \<^verbatim>\<open>apply_overrides\<close>), the environment an installed service runs with (\<^verbatim>\<open>src/service.rs\<close>,
  \<^verbatim>\<open>install\<close>) and the reading of that environment (\<^verbatim>\<open>config_from_env\<close>). An environment is a
  partial function from names to values. Shown: which configuration an installed service runs
  with, for every configuration it was installed from, and when the two agree.
\<close>

type_synonym environment = "string \<Rightarrow> string option"

section \<open>Reading the environment\<close>

definition env_addr :: "environment \<Rightarrow> string \<Rightarrow> socket_addr option" where
  "env_addr env name = Option.bind (env name) parse_socket_addr"

definition env_usize :: "environment \<Rightarrow> string \<Rightarrow> nat option" where
  "env_usize env name = Option.bind (env name) (parse_uint (2 ^ 64))"

definition env_u32 :: "environment \<Rightarrow> string \<Rightarrow> u32 option" where
  "env_u32 env name = map_option of_nat (Option.bind (env name) (parse_uint (2 ^ 32)))"

definition env_u64 :: "environment \<Rightarrow> string \<Rightarrow> u64 option" where
  "env_u64 env name = map_option of_nat (Option.bind (env name) (parse_uint (2 ^ 64)))"

definition env_secs :: "environment \<Rightarrow> string \<Rightarrow> duration option" where
  "env_secs env name = map_option from_secs (env_u64 env name)"

text \<open>\<^verbatim>\<open>if let Some(v) = .. { config.field = v }\<close>.\<close>

definition set_if :: "'a option \<Rightarrow> ('a \<Rightarrow> 'c \<Rightarrow> 'c) \<Rightarrow> 'c \<Rightarrow> 'c" where
  "set_if x f c = (case x of Some v \<Rightarrow> f v c | None \<Rightarrow> c)"

lemma set_if_simps [simp]: "set_if (Some v) f c = f v c" "set_if None f c = c"
  by (simp_all add: set_if_def)

text \<open>\<open>Inl\<close> is the panic on a malformed proxy list.\<close>

definition config_from_env :: "environment \<Rightarrow> string + relay_server_config" where
  "config_from_env env =
     (let c = default_config;
          c = set_if (env_addr env ''DIG_RELAY_LISTEN'') (\<lambda>v c. c\<lparr>listen := v\<rparr>) c;
          c = set_if (env_addr env ''DIG_RELAY_HEALTH_LISTEN'') (\<lambda>v c. c\<lparr>health_listen := v\<rparr>) c;
          c = set_if (env_addr env ''DIG_RELAY_DASHBOARD_LISTEN'') (\<lambda>v c. c\<lparr>dashboard_listen := v\<rparr>) c;
          c = set_if (env_addr env ''DIG_RELAY_STUN_LISTEN'') (\<lambda>v c. c\<lparr>stun_listen := v\<rparr>) c;
          c = set_if (env_usize env ''DIG_RELAY_MAX_CONNECTIONS'') (\<lambda>v c. c\<lparr>max_connections := v\<rparr>) c;
          c = set_if (env_u32 env ''DIG_RELAY_STUN_PER_IP_RPS'') (\<lambda>v c. c\<lparr>stun_per_ip_responses_per_sec := v\<rparr>) c;
          c = set_if (env_u32 env ''DIG_RELAY_STUN_GLOBAL_RPS'') (\<lambda>v c. c\<lparr>stun_global_responses_per_sec := v\<rparr>) c;
          c = set_if (env_usize env ''DIG_RELAY_OUTBOUND_QUEUE_CAPACITY'') (\<lambda>v c. c\<lparr>outbound_queue_capacity := v\<rparr>) c;
          c = set_if (env_usize env ''DIG_RELAY_MAX_MESSAGE_BYTES'') (\<lambda>v c. c\<lparr>max_message_bytes := v\<rparr>) c;
          c = set_if (env_secs env ''DIG_RELAY_REGISTER_TIMEOUT_SECS'') (\<lambda>v c. c\<lparr>register_timeout := v\<rparr>) c;
          c = set_if (env_secs env ''DIG_RELAY_HEALTH_CHECK_INTERVAL_SECS'') (\<lambda>v c. c\<lparr>health_check_interval := v\<rparr>) c;
          c = set_if (env_secs env ''DIG_RELAY_LIVENESS_DEADLINE_SECS'') (\<lambda>v c. c\<lparr>liveness_deadline := v\<rparr>) c;
          c = set_if (env_u32 env ''DIG_RELAY_MAX_CONNECTIONS_PER_IP'') (\<lambda>v c. c\<lparr>max_connections_per_ip := v\<rparr>) c;
          c = set_if (env_u32 env ''DIG_RELAY_REGISTRATIONS_PER_IP_PER_SEC'') (\<lambda>v c. c\<lparr>registrations_per_ip_per_sec := v\<rparr>) c;
          c = set_if (env_u32 env ''DIG_RELAY_MAX_REGISTRATIONS_PER_IP'') (\<lambda>v c. c\<lparr>max_registrations_per_ip := v\<rparr>) c;
          c = set_if (env_u32 env ''DIG_RELAY_MESSAGES_PER_CONN_PER_SEC'') (\<lambda>v c. c\<lparr>messages_per_conn_per_sec := v\<rparr>) c;
          c = set_if (env_u32 env ''DIG_RELAY_BYTES_PER_CONN_PER_SEC'') (\<lambda>v c. c\<lparr>bytes_per_conn_per_sec := v\<rparr>) c;
          c = set_if (env_u64 env ''DIG_RELAY_MAX_RELAYED_BYTES_PER_CONN'') (\<lambda>v c. c\<lparr>max_relayed_bytes_per_conn := v\<rparr>) c;
          c = set_if (env_u32 env ''DIG_RELAY_BAN_THRESHOLD'') (\<lambda>v c. c\<lparr>ban_threshold := v\<rparr>) c;
          c = set_if (env_secs env ''DIG_RELAY_BAN_DURATION_SECS'') (\<lambda>v c. c\<lparr>ban_duration := v\<rparr>) c;
          c = set_if (env_secs env ''DIG_RELAY_BAN_STRIKE_WINDOW_SECS'') (\<lambda>v c. c\<lparr>ban_strike_window := v\<rparr>) c;
          c = set_if (env ''DIG_RELAY_TLS_CERT_PATH'') (\<lambda>p c. c\<lparr>tls_cert_path := Some p\<rparr>) c;
          c = set_if (env ''DIG_RELAY_TLS_KEY_PATH'') (\<lambda>p c. c\<lparr>tls_key_path := Some p\<rparr>) c
      in case env ''DIG_RELAY_TRUSTED_PROXY_CIDRS'' of
           None \<Rightarrow> Inr c
         | Some l \<Rightarrow>
             (case trusted_proxies_parse l of
                Inr t \<Rightarrow> Inr (c\<lparr>cfg_trusted_proxies := t\<rparr>)
              | Inl e \<Rightarrow> Inl (''DIG_RELAY_TRUSTED_PROXY_CIDRS is invalid: '' @ e)))"

section \<open>Writing the environment\<close>

definition tls_environment_pairs :: "relay_server_config \<Rightarrow> (string \<times> string) list" where
  "tls_environment_pairs c =
     (case (tls_cert_path c, tls_key_path c) of
        (Some cert, Some key) \<Rightarrow>
          [(''DIG_RELAY_TLS_CERT_PATH'', cert), (''DIG_RELAY_TLS_KEY_PATH'', key)]
      | _ \<Rightarrow> [])"

definition install_environment :: "relay_server_config \<Rightarrow> (string \<times> string) list" where
  "install_environment c =
     [(''DIG_RELAY_LISTEN'', show_socket_addr (listen c)),
      (''DIG_RELAY_HEALTH_LISTEN'', show_socket_addr (health_listen c)),
      (''DIG_RELAY_DASHBOARD_LISTEN'', show_socket_addr (dashboard_listen c)),
      (''DIG_RELAY_STUN_LISTEN'', show_socket_addr (stun_listen c)),
      (''DIG_RELAY_MAX_CONNECTIONS'', show_nat (max_connections c)),
      (''DIG_RELAY_MAX_CONNECTIONS_PER_IP'', show_nat (unat (max_connections_per_ip c))),
      (''DIG_RELAY_REGISTRATIONS_PER_IP_PER_SEC'', show_nat (unat (registrations_per_ip_per_sec c))),
      (''DIG_RELAY_MAX_REGISTRATIONS_PER_IP'', show_nat (unat (max_registrations_per_ip c))),
      (''DIG_RELAY_MESSAGES_PER_CONN_PER_SEC'', show_nat (unat (messages_per_conn_per_sec c))),
      (''DIG_RELAY_BYTES_PER_CONN_PER_SEC'', show_nat (unat (bytes_per_conn_per_sec c))),
      (''DIG_RELAY_MAX_RELAYED_BYTES_PER_CONN'', show_nat (unat (max_relayed_bytes_per_conn c))),
      (''DIG_RELAY_BAN_THRESHOLD'', show_nat (unat (ban_threshold c))),
      (''DIG_RELAY_BAN_DURATION_SECS'', show_nat (as_secs (ban_duration c))),
      (''DIG_RELAY_BAN_STRIKE_WINDOW_SECS'', show_nat (as_secs (ban_strike_window c)))]
     @ tls_environment_pairs c"

section \<open>Command line\<close>

record cli =
  cli_listen :: "socket_addr option"
  cli_health_listen :: "socket_addr option"
  cli_dashboard_listen :: "socket_addr option"
  cli_stun_listen :: "socket_addr option"
  cli_max_connections :: "nat option"
  cli_idle_timeout_secs :: "u64 option"
  cli_stun_per_ip_rps :: "u32 option"
  cli_stun_global_rps :: "u32 option"
  cli_outbound_queue_capacity :: "nat option"
  cli_max_message_bytes :: "nat option"
  cli_register_timeout_secs :: "u64 option"
  cli_health_check_interval_secs :: "u64 option"
  cli_liveness_deadline_secs :: "u64 option"
  cli_max_connections_per_ip :: "u32 option"
  cli_registrations_per_ip_per_sec :: "u32 option"
  cli_max_registrations_per_ip :: "u32 option"
  cli_messages_per_conn_per_sec :: "u32 option"
  cli_bytes_per_conn_per_sec :: "u32 option"
  cli_max_relayed_bytes_per_conn :: "u64 option"
  cli_ban_threshold :: "u32 option"
  cli_ban_duration_secs :: "u64 option"
  cli_ban_strike_window_secs :: "u64 option"
  cli_tls_cert :: "string option"
  cli_tls_key :: "string option"

definition apply_overrides :: "relay_server_config \<Rightarrow> cli \<Rightarrow> relay_server_config" where
  "apply_overrides c a =
     (let c = set_if (cli_listen a) (\<lambda>v c. c\<lparr>listen := v\<rparr>) c;
          c = set_if (cli_health_listen a) (\<lambda>v c. c\<lparr>health_listen := v\<rparr>) c;
          c = set_if (cli_dashboard_listen a) (\<lambda>v c. c\<lparr>dashboard_listen := v\<rparr>) c;
          c = set_if (cli_stun_listen a) (\<lambda>v c. c\<lparr>stun_listen := v\<rparr>) c;
          c = set_if (cli_max_connections a) (\<lambda>v c. c\<lparr>max_connections := v\<rparr>) c;
          c = set_if (cli_idle_timeout_secs a) (\<lambda>v c. c\<lparr>idle_timeout := from_secs v\<rparr>) c;
          c = set_if (cli_stun_per_ip_rps a) (\<lambda>v c. c\<lparr>stun_per_ip_responses_per_sec := v\<rparr>) c;
          c = set_if (cli_stun_global_rps a) (\<lambda>v c. c\<lparr>stun_global_responses_per_sec := v\<rparr>) c;
          c = set_if (cli_outbound_queue_capacity a) (\<lambda>v c. c\<lparr>outbound_queue_capacity := v\<rparr>) c;
          c = set_if (cli_max_message_bytes a) (\<lambda>v c. c\<lparr>max_message_bytes := v\<rparr>) c;
          c = set_if (cli_register_timeout_secs a) (\<lambda>v c. c\<lparr>register_timeout := from_secs v\<rparr>) c;
          c = set_if (cli_health_check_interval_secs a) (\<lambda>v c. c\<lparr>health_check_interval := from_secs v\<rparr>) c;
          c = set_if (cli_liveness_deadline_secs a) (\<lambda>v c. c\<lparr>liveness_deadline := from_secs v\<rparr>) c;
          c = set_if (cli_max_connections_per_ip a) (\<lambda>v c. c\<lparr>max_connections_per_ip := v\<rparr>) c;
          c = set_if (cli_registrations_per_ip_per_sec a) (\<lambda>v c. c\<lparr>registrations_per_ip_per_sec := v\<rparr>) c;
          c = set_if (cli_max_registrations_per_ip a) (\<lambda>v c. c\<lparr>max_registrations_per_ip := v\<rparr>) c;
          c = set_if (cli_messages_per_conn_per_sec a) (\<lambda>v c. c\<lparr>messages_per_conn_per_sec := v\<rparr>) c;
          c = set_if (cli_bytes_per_conn_per_sec a) (\<lambda>v c. c\<lparr>bytes_per_conn_per_sec := v\<rparr>) c;
          c = set_if (cli_max_relayed_bytes_per_conn a) (\<lambda>v c. c\<lparr>max_relayed_bytes_per_conn := v\<rparr>) c;
          c = set_if (cli_ban_threshold a) (\<lambda>v c. c\<lparr>ban_threshold := v\<rparr>) c;
          c = set_if (cli_ban_duration_secs a) (\<lambda>v c. c\<lparr>ban_duration := from_secs v\<rparr>) c;
          c = set_if (cli_ban_strike_window_secs a) (\<lambda>v c. c\<lparr>ban_strike_window := from_secs v\<rparr>) c;
          c = set_if (cli_tls_cert a) (\<lambda>v c. c\<lparr>tls_cert_path := Some v\<rparr>) c;
          c = set_if (cli_tls_key a) (\<lambda>v c. c\<lparr>tls_key_path := Some v\<rparr>) c
      in c)"

definition config_from :: "environment \<Rightarrow> cli \<Rightarrow> string + relay_server_config" where
  "config_from env a = (case config_from_env env of Inl e \<Rightarrow> Inl e | Inr c \<Rightarrow> Inr (apply_overrides c a))"

section \<open>What survives an installation\<close>

definition carried :: "relay_server_config \<Rightarrow> relay_server_config" where
  "carried c = default_config\<lparr>
     listen := listen c, health_listen := health_listen c,
     dashboard_listen := dashboard_listen c, stun_listen := stun_listen c,
     max_connections := max_connections c,
     tls_cert_path := (if tls_key_path c = None then None else tls_cert_path c),
     tls_key_path := (if tls_cert_path c = None then None else tls_key_path c),
     max_connections_per_ip := max_connections_per_ip c,
     registrations_per_ip_per_sec := registrations_per_ip_per_sec c,
     max_registrations_per_ip := max_registrations_per_ip c,
     messages_per_conn_per_sec := messages_per_conn_per_sec c,
     bytes_per_conn_per_sec := bytes_per_conn_per_sec c,
     max_relayed_bytes_per_conn := max_relayed_bytes_per_conn c,
     ban_threshold := ban_threshold c,
     ban_duration := as_secs (ban_duration c) * 10 ^ 9,
     ban_strike_window := as_secs (ban_strike_window c) * 10 ^ 9\<rparr>"

text \<open>The ranges of the Rust types: a \<^verbatim>\<open>usize\<close> count, and durations of at most
  \<^verbatim>\<open>u64::MAX\<close> seconds.\<close>

definition config_in_range :: "relay_server_config \<Rightarrow> bool" where
  "config_in_range c \<longleftrightarrow> max_connections c < 2 ^ 64
     \<and> as_secs (ban_duration c) < 2 ^ 64 \<and> as_secs (ban_strike_window c) < 2 ^ 64"

lemma parse_show_word:
  "parse_uint (2 ^ LENGTH('a)) (show_nat (unat (w :: 'a::len word))) = Some (unat w)"
  by (rule parse_show) (rule unat_lt2p)

lemma env_reads:
  "env n = Some (show_socket_addr a) \<Longrightarrow> env_addr env n = Some a"
  "env n = Some (show_nat k) \<Longrightarrow> k < 2 ^ 64 \<Longrightarrow> env_usize env n = Some k"
  "env n = Some (show_nat (unat v)) \<Longrightarrow> env_u32 env n = Some v"
  "env n = Some (show_nat (unat w)) \<Longrightarrow> env_u64 env n = Some w"
  "env n = Some (show_nat k) \<Longrightarrow> k < 2 ^ 64 \<Longrightarrow> env_secs env n = Some (k * 10 ^ 9)"
  "env n = None \<Longrightarrow> env_addr env n = None" "env n = None \<Longrightarrow> env_usize env n = None"
  "env n = None \<Longrightarrow> env_u32 env n = None" "env n = None \<Longrightarrow> env_secs env n = None"
  using parse_show_word [of v] parse_show_word [of w]
  by (simp_all add: env_addr_def env_usize_def env_u32_def env_u64_def env_secs_def
      parse_show_socket_addr parse_show from_secs_def unat_of_nat)

lemma config_from_installed:
  assumes range: "config_in_range c"
  shows "config_from_env (map_of (install_environment c)) = Inr (carried c)"
proof -
  define env where "env = map_of (install_environment c)"
  have r: "max_connections c < 2 ^ 64" "as_secs (ban_duration c) < 2 ^ 64" "as_secs (ban_strike_window c) < 2 ^ 64"
    using range by (simp_all add: config_in_range_def)
  have addrs: "env_addr env ''DIG_RELAY_LISTEN'' = Some (listen c)"
    "env_addr env ''DIG_RELAY_HEALTH_LISTEN'' = Some (health_listen c)"
    "env_addr env ''DIG_RELAY_DASHBOARD_LISTEN'' = Some (dashboard_listen c)"
    "env_addr env ''DIG_RELAY_STUN_LISTEN'' = Some (stun_listen c)"
    by (rule env_reads(1), simp add: env_def install_environment_def)+
  have counts: "env_usize env ''DIG_RELAY_MAX_CONNECTIONS'' = Some (max_connections c)"
    by (rule env_reads(2) [OF _ r(1)], simp add: env_def install_environment_def)
  have words: "env_u32 env ''DIG_RELAY_MAX_CONNECTIONS_PER_IP'' = Some (max_connections_per_ip c)"
    "env_u32 env ''DIG_RELAY_REGISTRATIONS_PER_IP_PER_SEC'' = Some (registrations_per_ip_per_sec c)"
    "env_u32 env ''DIG_RELAY_MAX_REGISTRATIONS_PER_IP'' = Some (max_registrations_per_ip c)"
    "env_u32 env ''DIG_RELAY_MESSAGES_PER_CONN_PER_SEC'' = Some (messages_per_conn_per_sec c)"
    "env_u32 env ''DIG_RELAY_BYTES_PER_CONN_PER_SEC'' = Some (bytes_per_conn_per_sec c)"
    "env_u32 env ''DIG_RELAY_BAN_THRESHOLD'' = Some (ban_threshold c)"
    by (rule env_reads(3), simp add: env_def install_environment_def)+
  have total: "env_u64 env ''DIG_RELAY_MAX_RELAYED_BYTES_PER_CONN'' = Some (max_relayed_bytes_per_conn c)"
    by (rule env_reads(4), simp add: env_def install_environment_def)
  have bans: "env_secs env ''DIG_RELAY_BAN_DURATION_SECS'' = Some (as_secs (ban_duration c) * 10 ^ 9)"
    "env_secs env ''DIG_RELAY_BAN_STRIKE_WINDOW_SECS'' = Some (as_secs (ban_strike_window c) * 10 ^ 9)"
    by (rule env_reads(5) [OF _ r(2)], simp add: env_def install_environment_def)
       (rule env_reads(5) [OF _ r(3)], simp add: env_def install_environment_def)
  have unset: "env ''DIG_RELAY_STUN_PER_IP_RPS'' = None" "env ''DIG_RELAY_STUN_GLOBAL_RPS'' = None"
    "env ''DIG_RELAY_OUTBOUND_QUEUE_CAPACITY'' = None" "env ''DIG_RELAY_MAX_MESSAGE_BYTES'' = None"
    "env ''DIG_RELAY_REGISTER_TIMEOUT_SECS'' = None" "env ''DIG_RELAY_HEALTH_CHECK_INTERVAL_SECS'' = None"
    "env ''DIG_RELAY_LIVENESS_DEADLINE_SECS'' = None" "env ''DIG_RELAY_TRUSTED_PROXY_CIDRS'' = None"
    by (simp_all add: env_def install_environment_def tls_environment_pairs_def split: option.splits)
  have tls: "env ''DIG_RELAY_TLS_CERT_PATH'' = (if tls_key_path c = None then None else tls_cert_path c)"
    "env ''DIG_RELAY_TLS_KEY_PATH'' = (if tls_cert_path c = None then None else tls_key_path c)"
    by (cases "tls_cert_path c"; cases "tls_key_path c";
        simp add: env_def install_environment_def tls_environment_pairs_def)+
  note unread = env_reads(8) [of env, OF unset(1)] env_reads(8) [of env, OF unset(2)]
    env_reads(7) [of env, OF unset(3)] env_reads(7) [of env, OF unset(4)] env_reads(9) [of env, OF unset(5)]
    env_reads(9) [of env, OF unset(6)] env_reads(9) [of env, OF unset(7)]
  have "config_from_env env = Inr (carried c)"
    unfolding config_from_env_def Let_def addrs counts words total bans unread unset(8) tls carried_def
    by (cases "tls_cert_path c"; cases "tls_key_path c"; simp add: default_config_def)
  then show ?thesis by (simp add: env_def)
qed



end
