(* ===== verification/Service_Host.thy ===== *)
theory Service_Host
  imports Service_Env Http_Serve
begin

text \<open>
  The side of \<^verbatim>\<open>src/service.rs\<close> that touches the host: the service managers of the \<^verbatim>\<open>service-manager\<close>
  crate at a scope, and the probes that run \<^verbatim>\<open>sc\<close>, \<^verbatim>\<open>launchctl\<close> or \<^verbatim>\<open>systemctl\<close> and classify what they
  say. The managers, the tools and the caller's privilege are fields of a host record over a state
  of the operating system. A host is honest when its managers do what they report and its tools tell
  the truth; the classifiers then never call a scope absent that holds a registration.
  (Dashes and quotation marks of the messages are written in ASCII.)
\<close>

section \<open>Scopes\<close>

datatype scope_choice = ChooseAuto | ChooseSystem | ChooseUser
datatype service_scope = SystemScope | UserScope

definition SERVICE_LABEL :: string where "SERVICE_LABEL = ''net.dignetwork.dig-relay''"

definition scope_label :: "service_scope \<Rightarrow> string" where
  "scope_label s = (case s of SystemScope \<Rightarrow> ''system'' | UserScope \<Rightarrow> ''user'')"

section \<open>Tool output\<close>

text \<open>\<^verbatim>\<open>String::from_utf8_lossy\<close>: the next well-formed character, or the maximal prefix of an
  ill-formed one, which becomes U+FFFD.\<close>

fun utf8_step :: "nat list \<Rightarrow> bool \<times> nat" where
  "utf8_step (a # b # c # d # _) =
     (if a < 0x80 then (True, 1)
      else if 0xC2 \<le> a \<and> a \<le> 0xDF then if utf8_tail b then (True, 2) else (False, 1)
      else if 0xE0 \<le> a \<and> a \<le> 0xEF then
        if utf8_tail b \<and> (a = 0xE0 \<longrightarrow> 0xA0 \<le> b) \<and> (a = 0xED \<longrightarrow> b \<le> 0x9F)
        then if utf8_tail c then (True, 3) else (False, 2)
        else (False, 1)
      else if 0xF0 \<le> a \<and> a \<le> 0xF4 then
        if utf8_tail b \<and> (a = 0xF0 \<longrightarrow> 0x90 \<le> b) \<and> (a = 0xF4 \<longrightarrow> b \<le> 0x8F)
        then if utf8_tail c then if utf8_tail d then (True, 4) else (False, 3) else (False, 2)
        else (False, 1)
      else (False, 1))"
| "utf8_step _ = (False, 1)"

function lossy :: "nat list \<Rightarrow> nat list" where
  "lossy bs =
     (if bs = [] then []
      else (let (ok, n) = utf8_step (bs @ [0, 0, 0])
            in (if ok then take n bs else [0xEF, 0xBF, 0xBD]) @ lossy (drop (max 1 n) bs)))"
  by pat_completeness auto

termination by (relation "measure length") auto

declare lossy.simps [simp del]

definition from_utf8_lossy :: "u8 list \<Rightarrow> string" where
  "from_utf8_lossy bs = map char_of (lossy (map unat bs))"

record process_output =
  po_success :: bool
  po_code :: "int option"
  po_stdout :: "u8 list"
  po_stderr :: "u8 list"

section \<open>Probing\<close>

datatype registration = Present | Absent | Unknown string

fun is_present :: "registration \<Rightarrow> bool" where
  "is_present Present = True"
| "is_present _ = False"

fun unknown_reason :: "registration \<Rightarrow> string option" where
  "unknown_reason (Unknown reason) = Some reason"
| "unknown_reason _ = None"

definition contains_any :: "string \<Rightarrow> string list \<Rightarrow> bool" where
  "contains_any haystack needles = list_ex (\<lambda>n. sublist n (to_ascii_lowercase haystack)) needles"

definition describe_exit :: "int option \<Rightarrow> string" where
  "describe_exit code =
     (case code of None \<Rightarrow> ''no exit code (terminated by signal)'' | Some c \<Rightarrow> ''code '' @ show_int c)"

text \<open>\<^verbatim>\<open>chars().take(n)\<close> on the bytes: a leading byte with its continuation bytes is one character.\<close>

fun take_chars :: "nat \<Rightarrow> string \<Rightarrow> string" where
  "take_chars 0 s = []"
| "take_chars (Suc n) [] = []"
| "take_chars (Suc n) (c # cs) =
     c # takeWhile (\<lambda>x. utf8_tail (of_char x)) cs @ take_chars n (dropWhile (\<lambda>x. utf8_tail (of_char x)) cs)"

definition summarize_stderr :: "string \<Rightarrow> string" where
  "summarize_stderr err =
     take_chars 200
       (case List.find (\<lambda>l. l \<noteq> []) (map trim (str_lines err)) of
          Some l \<Rightarrow> l | None \<Rightarrow> ''(no output)'')"

definition classify_sc_probe :: "bool \<Rightarrow> int option \<Rightarrow> registration" where
  "classify_sc_probe succeeded code =
     (if succeeded then Present
      else if code = Some 1060 then Absent
      else Unknown (''`sc query` exited with '' @ describe_exit code
                    @ '' (1060 would mean the service does not exist)''))"

definition classify_launchctl_probe :: "bool \<Rightarrow> int option \<Rightarrow> string \<Rightarrow> registration" where
  "classify_launchctl_probe succeeded code err =
     (if succeeded then Present
      else if code = Some 113
          \<or> contains_any err [''could not find service'', ''no such process'', ''no such file'']
        then Absent
      else Unknown (''`launchctl print` exited with '' @ describe_exit code
                    @ '' without reporting the service absent: '' @ summarize_stderr err))"

definition classify_systemctl_probe :: "bool \<Rightarrow> string \<Rightarrow> registration" where
  "classify_systemctl_probe succeeded err =
     (if succeeded then Present
      else if contains_any err [''no files found for'', ''could not be found''] then Absent
      else Unknown (''`systemctl cat` failed without reporting the unit absent: '' @ summarize_stderr err))"

definition probe_tool_unavailable :: "string \<Rightarrow> io_error \<Rightarrow> registration" where
  "probe_tool_unavailable tool e = Unknown (''could not run `'' @ tool @ ''`: '' @ snd e)"

section \<open>The host\<close>

datatype platform = Windows | MacOS | Linux

record install_plan =
  ip_program :: string
  ip_args :: "string list"
  ip_environment :: "(string \<times> string) list"
  ip_autostart :: bool

record 'os backend =
  b_registration :: "'os \<Rightarrow> registration"
  b_stop :: "'os \<Rightarrow> unit io_result \<times> 'os"
  b_delete :: "'os \<Rightarrow> unit io_result \<times> 'os"
  b_create :: "install_plan \<Rightarrow> 'os \<Rightarrow> unit io_result \<times> 'os"

record service_label =
  sl_script_name :: string
  sl_qualified_name :: string

text \<open>A manager of the \<^verbatim>\<open>service-manager\<close> crate, fixed at a level.\<close>

record 'os manager =
  m_start :: "service_label \<Rightarrow> 'os \<Rightarrow> unit io_result \<times> 'os"
  m_stop :: "service_label \<Rightarrow> 'os \<Rightarrow> unit io_result \<times> 'os"
  m_uninstall :: "service_label \<Rightarrow> 'os \<Rightarrow> unit io_result \<times> 'os"
  m_install :: "service_label \<Rightarrow> install_plan \<Rightarrow> 'os \<Rightarrow> unit io_result \<times> 'os"

text \<open>What the commands read from the host: the platform, the caller's privilege (\<^verbatim>\<open>net session\<close>,
  \<^verbatim>\<open>geteuid\<close>), the running program, the parsed label, \<^verbatim>\<open>ServiceManager::native\<close>, the result of
  \<^verbatim>\<open>set_level(User)\<close> on it, and running a tool.\<close>

record 'os host =
  h_platform :: platform
  h_net_session :: bool
  h_euid :: u32
  h_current_exe :: "string io_result"
  h_label :: "service_label io_result"
  h_native :: "'os manager io_result"
  h_user_level :: "string + 'os manager"
  h_run :: "string \<Rightarrow> string list \<Rightarrow> 'os \<Rightarrow> process_output io_result"

definition prefers_user_level :: "'os host \<Rightarrow> bool" where
  "prefers_user_level h = (h_platform h \<noteq> Windows)"

definition is_elevated :: "'os host \<Rightarrow> bool" where
  "is_elevated h = (if h_platform h = Windows then h_net_session h else True)"

definition is_root :: "'os host \<Rightarrow> bool" where
  "is_root h = (if h_platform h = Windows then is_elevated h else h_euid h = 0)"

definition manager_at :: "'os host \<Rightarrow> service_scope \<Rightarrow> 'os manager io_result" where
  "manager_at h scope =
     (case h_native h of
        Inl e \<Rightarrow> Inl e
      | Inr mgr \<Rightarrow>
          if scope = UserScope then
            (case h_user_level h of
               Inl e \<Rightarrow> Inl (Unsupported, ''dig-relay: this platform has no user-level service manager: '' @ e)
             | Inr user \<Rightarrow> Inr user)
          else Inr mgr)"

definition os_native_service_name :: "platform \<Rightarrow> service_label \<Rightarrow> string" where
  "os_native_service_name p l = (if p = Linux then sl_script_name l else sl_qualified_name l)"

definition unix_uid :: "'os host \<Rightarrow> 'os \<Rightarrow> nat option" where
  "unix_uid h os =
     (case h_run h ''id'' [''-u''] os of
        Inl _ \<Rightarrow> None
      | Inr out \<Rightarrow> (case from_utf8 (po_stdout out) of None \<Rightarrow> None | Some s \<Rightarrow> parse_uint (2 ^ 32) (trim s)))"

text \<open>The tool and the arguments of the existence probe on each platform.\<close>

definition probe_command :: "'os host \<Rightarrow> string \<Rightarrow> service_scope \<Rightarrow> 'os \<Rightarrow> string \<times> string list" where
  "probe_command h name scope os =
     (case h_platform h of
        Windows \<Rightarrow> (''sc.exe'', [''query'', name])
      | MacOS \<Rightarrow> (''launchctl'',
          [''print'',
           if scope = UserScope
           then ''gui/'' @ show_nat (case unix_uid h os of Some u \<Rightarrow> u | None \<Rightarrow> 0) @ ''/'' @ name
           else ''system/'' @ name])
      | Linux \<Rightarrow> (''systemctl'',
          (if scope = UserScope then [''--user''] else []) @ [''cat'', name @ ''.service'']))"

definition query_installed :: "'os host \<Rightarrow> string \<Rightarrow> service_scope \<Rightarrow> 'os \<Rightarrow> registration" where
  "query_installed h name scope os =
     (let (tool, args) = probe_command h name scope os
      in case h_run h tool args os of
           Inl e \<Rightarrow> probe_tool_unavailable tool e
         | Inr out \<Rightarrow>
             (case h_platform h of
                Windows \<Rightarrow> classify_sc_probe (po_success out) (po_code out)
              | MacOS \<Rightarrow> classify_launchctl_probe (po_success out) (po_code out) (from_utf8_lossy (po_stderr out))
              | Linux \<Rightarrow> classify_systemctl_probe (po_success out) (from_utf8_lossy (po_stderr out))))"

definition with_label :: "'os host \<Rightarrow> (service_label \<Rightarrow> 'os \<Rightarrow> unit io_result \<times> 'os) \<Rightarrow> 'os \<Rightarrow> unit io_result \<times> 'os" where
  "with_label h f os = (case h_label h of Inl e \<Rightarrow> (Inl e, os) | Inr l \<Rightarrow> f l os)"

definition backend_of :: "'os host \<Rightarrow> 'os manager \<Rightarrow> service_scope \<Rightarrow> 'os backend" where
  "backend_of h mgr scope =
     \<lparr>b_registration = (\<lambda>os. case h_label h of
          Inr l \<Rightarrow> query_installed h (os_native_service_name (h_platform h) l) scope os
        | Inl e \<Rightarrow> Unknown (''could not build the service label: '' @ snd e)),
      b_stop = with_label h (m_stop mgr),
      b_delete = with_label h (m_uninstall mgr),
      b_create = (\<lambda>plan. with_label h (\<lambda>l. m_install mgr l plan))\<rparr>"

definition backend_new :: "'os host \<Rightarrow> service_scope \<Rightarrow> 'os backend io_result" where
  "backend_new h scope =
     (case manager_at h scope of Inl e \<Rightarrow> Inl e | Inr mgr \<Rightarrow> Inr (backend_of h mgr scope))"

section \<open>What is relied on about the host\<close>

text \<open>A manager is honest about its scope when a successful deletion leaves no registration, a
  successful creation leaves one, a deletion creates none, stopping changes none, and no operation at
  one scope touches the other.\<close>

definition honest_manager ::
  "(service_scope \<Rightarrow> 'os \<Rightarrow> bool) \<Rightarrow> service_scope \<Rightarrow> 'os manager \<Rightarrow> bool" where
  "honest_manager registered s m \<longleftrightarrow>
     (\<forall>l os t. registered t (snd (m_stop m l os)) = registered t os)
     \<and> (\<forall>l os r os'. m_uninstall m l os = (r, os') \<longrightarrow>
          (r = Inr () \<longrightarrow> \<not> registered s os') \<and> (registered s os' \<longrightarrow> registered s os)
          \<and> (\<forall>t. t \<noteq> s \<longrightarrow> registered t os' = registered t os))
     \<and> (\<forall>l plan os r os'. m_install m l plan os = (r, os') \<longrightarrow>
          (r = Inr () \<longrightarrow> registered s os') \<and> (\<forall>t. t \<noteq> s \<longrightarrow> registered t os' = registered t os))"

text \<open>The documented ways the tools say that a service does not exist.\<close>

definition says_absent :: "platform \<Rightarrow> process_output \<Rightarrow> bool" where
  "says_absent p out =
     (case p of
        Windows \<Rightarrow> po_code out = Some 1060
      | MacOS \<Rightarrow> po_code out = Some 113
          \<or> contains_any (from_utf8_lossy (po_stderr out))
              [''could not find service'', ''no such process'', ''no such file'']
      | Linux \<Rightarrow> contains_any (from_utf8_lossy (po_stderr out)) [''no files found for'', ''could not be found''])"

definition honest_tool :: "(service_scope \<Rightarrow> 'os \<Rightarrow> bool) \<Rightarrow> 'os host \<Rightarrow> service_label \<Rightarrow> bool" where
  "honest_tool registered h l \<longleftrightarrow>
     (\<forall>s os tool args out.
        probe_command h (os_native_service_name (h_platform h) l) s os = (tool, args)
        \<longrightarrow> h_run h tool args os = Inr out
        \<longrightarrow> (po_success out \<longrightarrow> registered s os)
          \<and> (\<not> po_success out \<and> says_absent (h_platform h) out \<longrightarrow> \<not> registered s os))"

text \<open>A scope without a manager holds nothing.\<close>

definition honest_host :: "(service_scope \<Rightarrow> 'os \<Rightarrow> bool) \<Rightarrow> 'os host \<Rightarrow> bool" where
  "honest_host registered h \<longleftrightarrow>
     (\<forall>s m. manager_at h s = Inr m \<longrightarrow> honest_manager registered s m)
     \<and> (\<forall>s e os. manager_at h s = Inl e \<longrightarrow> \<not> registered s os)
     \<and> (\<forall>l. h_label h = Inr l \<longrightarrow> honest_tool registered h l)"

section \<open>Probes and operations of a backend\<close>

lemma query_installed_honest:
  assumes "honest_tool registered h l"
  defines "name \<equiv> os_native_service_name (h_platform h) l"
  shows "query_installed h name s os = Present \<Longrightarrow> registered s os"
    and "query_installed h name s os = Absent \<Longrightarrow> \<not> registered s os"
proof -
  obtain tool args where cmd: "probe_command h name s os = (tool, args)" by (rule prod.exhaust)
  have rule: "h_run h tool args os = Inr out \<Longrightarrow> (po_success out \<longrightarrow> registered s os)
      \<and> (\<not> po_success out \<and> says_absent (h_platform h) out \<longrightarrow> \<not> registered s os)" for out
    using assms cmd unfolding honest_tool_def by blast
  show "query_installed h name s os = Present \<Longrightarrow> registered s os"
    and "query_installed h name s os = Absent \<Longrightarrow> \<not> registered s os"
    using cmd rule
    by (auto simp: query_installed_def probe_tool_unavailable_def says_absent_def classify_sc_probe_def
        classify_launchctl_probe_def classify_systemctl_probe_def
        split: sum.splits platform.splits if_splits)
qed

text \<open>The contract a backend keeps on an honest host.\<close>

definition honest_backend ::
  "(service_scope \<Rightarrow> 'os \<Rightarrow> bool) \<Rightarrow> service_scope \<Rightarrow> 'os backend \<Rightarrow> bool" where
  "honest_backend registered s b \<longleftrightarrow>
     (\<forall>os. b_registration b os = Present \<longrightarrow> registered s os)
     \<and> (\<forall>os. b_registration b os = Absent \<longrightarrow> \<not> registered s os)
     \<and> (\<forall>os t. registered t (snd (b_stop b os)) = registered t os)
     \<and> (\<forall>os r os'. b_delete b os = (r, os') \<longrightarrow>
          (r = Inr () \<longrightarrow> \<not> registered s os') \<and> (registered s os' \<longrightarrow> registered s os)
          \<and> (\<forall>t. t \<noteq> s \<longrightarrow> registered t os' = registered t os))
     \<and> (\<forall>plan os r os'. b_create b plan os = (r, os') \<longrightarrow>
          (r = Inr () \<longrightarrow> registered s os') \<and> (\<forall>t. t \<noteq> s \<longrightarrow> registered t os' = registered t os))"

lemma backend_of_honest:
  assumes "honest_host registered h" "manager_at h s = Inr m"
  shows "honest_backend registered s (backend_of h m s)"
proof -
  have m: "honest_manager registered s m" and t: "\<And>l. h_label h = Inr l \<Longrightarrow> honest_tool registered h l"
    using assms unfolding honest_host_def by blast+
  show ?thesis
  proof (cases "h_label h")
    case (Inl e)
    then show ?thesis by (simp add: honest_backend_def backend_of_def with_label_def)
  next
    case (Inr l)
    note q = query_installed_honest [OF t [OF Inr]]
    from m Inr show ?thesis
      unfolding honest_manager_def honest_backend_def
      by (auto simp: backend_of_def with_label_def dest: q)
  qed
qed

lemma backend_new_honest:
  assumes "honest_host registered h"
  shows "backend_new h s = Inr b \<Longrightarrow> honest_backend registered s b"
    and "backend_new h s = Inl e \<Longrightarrow> \<not> registered s os"
  using assms backend_of_honest [OF assms]
  by (auto simp: backend_new_def honest_host_def split: sum.splits)

end
