(* ===== verification/Service.thy ===== *)
theory Service
  imports Service_Host Json_Value
begin

text \<open>
  \<^verbatim>\<open>src/service.rs\<close> and the commands of \<^verbatim>\<open>src/main.rs\<close>: installing, uninstalling and probing the relay
  as an operating-system service. The service manager is the \<^verbatim>\<open>service-manager\<close> crate and the tools
  it drives, so a backend is a record of four operations on a state of the host, and what is
  relied on about them is stated where it is used. Shown: an uninstall that reports success, or
  that there was nothing to remove, leaves no registration at any scope it was asked about; an
  install refuses before touching anything, registers at the resolved scope, and never leaves a
  second registration unreported; a probe says absent only on positive evidence; the status probe
  understands the relay's own responses. (Dashes and quotation marks of the messages are written in
  ASCII.)
\<close>

section \<open>Scopes\<close>

definition resolve_scope :: "scope_choice \<Rightarrow> bool \<Rightarrow> bool \<Rightarrow> service_scope" where
  "resolve_scope choice os_supports_user as_root =
     (if \<not> os_supports_user then SystemScope
      else (case choice of
              ChooseSystem \<Rightarrow> SystemScope
            | ChooseUser \<Rightarrow> UserScope
            | ChooseAuto \<Rightarrow> if as_root then SystemScope else UserScope))"

definition ensure_privilege_for_scope :: "service_scope \<Rightarrow> bool \<Rightarrow> bool \<Rightarrow> unit io_result" where
  "ensure_privilege_for_scope scope os_supports_user as_root =
     (if \<not> os_supports_user \<or> scope = UserScope \<or> as_root then Inr ()
      else Inl (PermissionDenied,
        ''dig-relay: registering a system-level (machine-wide, boot-started) service requires root. '' @
        ''Re-run with `sudo dig-relay install --scope system`, or install at user scope '' @
        ''(`--scope user`) - noting that a user-scope service only starts with your login session '' @
        ''and so may not come back after a reboot on a headless host.''))"

definition other_scope :: "service_scope \<Rightarrow> service_scope" where
  "other_scope s = (case s of SystemScope \<Rightarrow> UserScope | UserScope \<Rightarrow> SystemScope)"

definition uninstall_scopes :: "scope_choice \<Rightarrow> bool \<Rightarrow> bool \<Rightarrow> service_scope list" where
  "uninstall_scopes choice os_supports_user as_root =
     (let requested = resolve_scope choice os_supports_user as_root
      in if \<not> os_supports_user \<or> choice \<noteq> ChooseAuto then [requested]
         else [requested, other_scope requested])"

section \<open>Removal\<close>

record scope_removal =
  sr_scope :: service_scope
  sr_found :: bool
  sr_removed :: bool
  sr_indeterminate :: bool
  sr_error :: "string option"

datatype removal_mode = Requested | Swept

definition removal_unreachable :: "service_scope \<Rightarrow> removal_mode \<Rightarrow> string \<Rightarrow> scope_removal" where
  "removal_unreachable scope mode err =
     \<lparr>sr_scope = scope, sr_found = False, sr_removed = False,
      sr_indeterminate = (mode = Requested), sr_error = Some err\<rparr>"

definition remove_registration ::
  "'os backend \<Rightarrow> service_scope \<Rightarrow> removal_mode \<Rightarrow> 'os \<Rightarrow> scope_removal \<times> 'os" where
  "remove_registration b scope mode os =
     (let probe = b_registration b os;
          removal = \<lparr>sr_scope = scope, sr_found = is_present probe, sr_removed = False,
                     sr_indeterminate = False,
                     sr_error = map_option (\<lambda>reason.
                       ''could not determine whether it is registered: '' @ reason) (unknown_reason probe)\<rparr>
      in if mode = Swept \<and> \<not> sr_found removal
         then (removal\<lparr>sr_indeterminate := unknown_reason probe \<noteq> None\<rparr>, os)
         else
           let (_, os1) = b_stop b os
           in case b_delete b os1 of
                (Inr _, os2) \<Rightarrow> (removal\<lparr>sr_removed := True\<rparr>, os2)
              | (Inl e, os2) \<Rightarrow>
                  (removal\<lparr>sr_indeterminate := (unknown_reason probe \<noteq> None \<or> sr_found removal),
                           sr_error := Some (snd e)\<rparr>, os2))"

definition install_at_scope ::
  "'os backend \<Rightarrow> ('os backend \<times> service_scope) option \<Rightarrow> install_plan \<Rightarrow> 'os
     \<Rightarrow> scope_removal option io_result \<times> 'os" where
  "install_at_scope target other plan os =
     (let (migration, os1) =
            (case other of
               None \<Rightarrow> (None, os)
             | Some (b, scope) \<Rightarrow>
                 (let (m, os') = remove_registration b scope Swept os in (Some m, os')))
      in case b_create target plan os1 of
           (Inl e, os2) \<Rightarrow> (Inl e, os2)
         | (Inr _, os2) \<Rightarrow> (Inr migration, os2))"

section \<open>Outcomes\<close>


record outcome =
  o_summary :: string
  o_result :: json

definition removal_to_json :: "scope_removal \<Rightarrow> json" where
  "removal_to_json r = json_map
     [(''scope'', JStr (scope_label (sr_scope r))), (''found'', JBool (sr_found r)),
      (''removed'', JBool (sr_removed r)), (''indeterminate'', JBool (sr_indeterminate r)),
      (''error'', case sr_error r of None \<Rightarrow> JNull | Some e \<Rightarrow> JStr e)]"

definition unresolved :: "scope_removal \<Rightarrow> bool" where
  "unresolved r \<longleftrightarrow> sr_indeterminate r \<or> sr_found r \<and> \<not> sr_removed r"

definition problem_text :: "scope_removal \<Rightarrow> string" where
  "problem_text r = scope_label (sr_scope r) @ '' scope: ''
     @ (case sr_error r of Some e \<Rightarrow> e | None \<Rightarrow> ''removal did not take effect'')"

definition uninstall_outcome :: "scope_removal list \<Rightarrow> outcome io_result" where
  "uninstall_outcome removals =
     (let removed = map (\<lambda>r. scope_label (sr_scope r)) (filter sr_removed removals);
          problems = map problem_text (filter unresolved removals)
      in if problems \<noteq> [] then
           Inl (PermissionDenied,
             ''dig-relay: could not fully uninstall service \"'' @ SERVICE_LABEL @ ''\" (''
             @ (if removed = [] then ''nothing was removed'' else ''removed at: '' @ str_join '', '' removed)
             @ ''). Unresolved: '' @ str_join ''; '' problems
             @ ''. Re-run elevated (e.g. `sudo dig-relay uninstall --scope system`) - ''
             @ ''a registration left behind will keep starting the relay.'')
         else if removed = [] then
           (let scopes = str_join '' or '' (map (\<lambda>r. scope_label (sr_scope r)) removals);
                reasons = concat (map (\<lambda>r. case sr_error r of
                    Some e \<Rightarrow> [scope_label (sr_scope r) @ '' scope: '' @ e] | None \<Rightarrow> []) removals)
            in Inl (NotFound,
                 ''dig-relay: no service registration for \"'' @ SERVICE_LABEL @ ''\" was found at '' @ scopes
                 @ '' scope - nothing to uninstall.''
                 @ (if reasons = [] then [] else '' ('' @ str_join ''; '' reasons @ '')'')))
         else
           Inr \<lparr>o_summary = ''dig-relay: uninstalled service \"'' @ SERVICE_LABEL @ ''\" at ''
                             @ str_join '' + '' removed @ '' scope'',
                o_result = json_map
                  [(''installed'', JBool False), (''registered'', JBool False),
                   (''label'', JStr SERVICE_LABEL), (''removed_scopes'', JArr (map JStr removed)),
                   (''scopes'', JArr (map removal_to_json removals))]\<rparr>)"

section \<open>The commands\<close>

definition install_summary :: "service_scope \<Rightarrow> string \<Rightarrow> relay_server_config \<Rightarrow> scope_removal option \<Rightarrow> string" where
  "install_summary resolved program c migration =
     ''dig-relay: installed as a '' @ scope_label resolved @ ''-level service \"'' @ SERVICE_LABEL @ ''\"''
     @ [CHR 0x0A] @ ''  program: '' @ program
     @ [CHR 0x0A] @ ''  relay:   ws://'' @ show_socket_addr (listen c)
     @ [CHR 0x0A] @ ''  health:  http://'' @ show_socket_addr (health_listen c)
     @ [CHR 0x0A] @ ''  Start it now with: dig-relay start''
     @ (case migration of
          None \<Rightarrow> []
        | Some m \<Rightarrow>
            if sr_removed m then
              [CHR 0x0A] @ ''  migrated: removed the previous '' @ scope_label (sr_scope m) @ ''-level registration''
            else if sr_found m \<or> sr_indeterminate m then
              [CHR 0x0A] @ ''  WARNING: a '' @ scope_label (sr_scope m)
              @ ''-level registration may still exist and could also bind these ports (''
              @ (case sr_error m of Some e \<Rightarrow> e | None \<Rightarrow> ''removal did not take effect'')
              @ ''). Remove it with: dig-relay uninstall --scope '' @ scope_label (sr_scope m)
            else [])"

definition install_plan_of :: "'os host \<Rightarrow> string \<Rightarrow> relay_server_config \<Rightarrow> install_plan" where
  "install_plan_of h program c =
     \<lparr>ip_program = program, ip_args = [if h_platform h = Windows then ''run-service'' else ''serve''],
      ip_environment = install_environment c, ip_autostart = True\<rparr>"

definition sweep_target :: "'os host \<Rightarrow> service_scope \<Rightarrow> ('os backend \<times> service_scope) option" where
  "sweep_target h resolved =
     (if prefers_user_level h then
        (case backend_new h (other_scope resolved) of
           Inr b \<Rightarrow> Some (b, other_scope resolved)
         | Inl _ \<Rightarrow> None)
      else None)"

definition install :: "'os host \<Rightarrow> relay_server_config \<Rightarrow> scope_choice \<Rightarrow> 'os \<Rightarrow> outcome io_result \<times> 'os" where
  "install h c choice os =
     (if h_platform h = Windows \<and> \<not> is_elevated h then
        (Inl (PermissionDenied,
           ''dig-relay: installing a Windows service requires an elevated (Administrator) console. ''
           @ ''Re-run this in a terminal opened with \"Run as administrator\".''), os)
      else
        let resolved = resolve_scope choice (prefers_user_level h) (is_root h)
        in case ensure_privilege_for_scope resolved (prefers_user_level h) (is_root h) of
             Inl e \<Rightarrow> (Inl e, os)
           | Inr _ \<Rightarrow>
               (case backend_new h resolved of
                  Inl e \<Rightarrow> (Inl e, os)
                | Inr target \<Rightarrow>
                    (case h_current_exe h of
                       Inl e \<Rightarrow> (Inl e, os)
                     | Inr program \<Rightarrow>
                         (let other = sweep_target h resolved
                          in case install_at_scope target other (install_plan_of h program c) os of
                               (Inl e, os') \<Rightarrow> (Inl e, os')
                             | (Inr migration, os') \<Rightarrow>
                                 (Inr \<lparr>o_summary = install_summary resolved program c migration,
                                       o_result = json_map
                                         [(''installed'', JBool True), (''registered'', JBool True),
                                          (''started'', JBool False), (''label'', JStr SERVICE_LABEL),
                                          (''scope'', JStr (scope_label resolved)),
                                          (''program'', JStr program),
                                          (''listen'', JStr (show_socket_addr (listen c))),
                                          (''health_listen'', JStr (show_socket_addr (health_listen c))),
                                          (''migration'', case migration of
                                             None \<Rightarrow> JNull | Some m \<Rightarrow> removal_to_json m)]\<rparr>, os')))))"

fun remove_scopes ::
  "'os host \<Rightarrow> removal_mode \<Rightarrow> service_scope list \<Rightarrow> 'os \<Rightarrow> scope_removal list \<times> 'os" where
  "remove_scopes h mode [] os = ([], os)"
| "remove_scopes h mode (s # ss) os =
     (let (r, os1) = (case backend_new h s of
                        Inr b \<Rightarrow> remove_registration b s mode os
                      | Inl e \<Rightarrow> (removal_unreachable s mode (snd e), os));
          (rs, os2) = remove_scopes h Swept ss os1
      in (r # rs, os2))"

definition uninstall :: "'os host \<Rightarrow> scope_choice \<Rightarrow> 'os \<Rightarrow> outcome io_result \<times> 'os" where
  "uninstall h choice os =
     (if h_platform h = Windows \<and> \<not> is_elevated h then
        (Inl (PermissionDenied,
           ''dig-relay: uninstalling a Windows service requires an elevated (Administrator) console.''), os)
      else
        let (removals, os') =
              remove_scopes h Requested (uninstall_scopes choice (prefers_user_level h) (is_root h)) os
        in (uninstall_outcome removals, os'))"

definition service_start :: "'os host \<Rightarrow> scope_choice \<Rightarrow> 'os \<Rightarrow> outcome io_result \<times> 'os" where
  "service_start h choice os =
     (let resolved = resolve_scope choice (prefers_user_level h) (is_root h)
      in case manager_at h resolved of
           Inl e \<Rightarrow> (Inl e, os)
         | Inr mgr \<Rightarrow>
             (case with_label h (m_start mgr) os of
                (Inl e, os') \<Rightarrow> (Inl e, os')
              | (Inr _, os') \<Rightarrow>
                  (Inr \<lparr>o_summary = ''dig-relay: start requested for \"'' @ SERVICE_LABEL @ ''\"'',
                        o_result = json_map [(''started'', JBool True), (''label'', JStr SERVICE_LABEL),
                                         (''scope'', JStr (scope_label resolved))]\<rparr>, os')))"

definition service_stop :: "'os host \<Rightarrow> scope_choice \<Rightarrow> 'os \<Rightarrow> outcome io_result \<times> 'os" where
  "service_stop h choice os =
     (let resolved = resolve_scope choice (prefers_user_level h) (is_root h)
      in case manager_at h resolved of
           Inl e \<Rightarrow> (Inl e, os)
         | Inr mgr \<Rightarrow>
             (case with_label h (m_stop mgr) os of
                (Inl e, os') \<Rightarrow> (Inl e, os')
              | (Inr _, os') \<Rightarrow>
                  (Inr \<lparr>o_summary = ''dig-relay: stop requested for \"'' @ SERVICE_LABEL @ ''\"'',
                        o_result = json_map [(''stopped'', JBool True), (''label'', JStr SERVICE_LABEL),
                                         (''scope'', JStr (scope_label resolved))]\<rparr>, os')))"

section \<open>Status\<close>

definition loopback_probe_addr :: "socket_addr \<Rightarrow> socket_addr" where
  "loopback_probe_addr a =
     (if \<not> ip_is_unspecified (sa_ip a) then a
      else mk_sa (if ip_is_ipv4 (sa_ip a) then V4 0x7F000001 else V6 1) (sa_port a))"

text \<open>\<^verbatim>\<open>split_whitespace\<close>: the maximal runs without white space.\<close>

fun until_ws :: "string \<Rightarrow> string \<times> string" where
  "until_ws [] = ([], [])"
| "until_ws (c # cs) =
     (if list_ex (\<lambda>w. prefix w (c # cs)) ws_encodings then ([], c # cs)
      else (let (a, b) = until_ws cs in (c # a, b)))"

fun split_whitespace_fuel :: "nat \<Rightarrow> string \<Rightarrow> string list" where
  "split_whitespace_fuel 0 s = []"
| "split_whitespace_fuel (Suc n) s =
     (let t = trim_start s
      in if t = [] then [] else (let (w, r) = until_ws t in w # split_whitespace_fuel n r))"

definition split_whitespace :: "string \<Rightarrow> string list" where
  "split_whitespace s = split_whitespace_fuel (Suc (length s)) s"

definition is_2xx_status_line :: "string \<Rightarrow> bool" where
  "is_2xx_status_line response_head =
     (let first = (case str_lines response_head of [] \<Rightarrow> [] | l # _ \<Rightarrow> l)
      in if \<not> prefix ''HTTP/'' first then False
         else (let ws = split_whitespace first
               in if length ws < 2 then False
                  else (case parse_uint 65536 (ws ! 1) of
                          None \<Rightarrow> False
                        | Some code \<Rightarrow> 200 \<le> code \<and> code < 300)))"

text \<open>What happened on the probe's socket: no connection, an error on setting it up or writing, or
  what one read filled of the buffer (nothing, when reading failed).\<close>

datatype probe_io = ConnectFailed | ProbeError | ProbeRead "u8 list"

definition probe_request :: "socket_addr \<Rightarrow> string" where
  "probe_request addr =
     ''GET /health HTTP/1.0'' @ CRLF @ ''Host: '' @ show_socket_addr addr @ CRLF
     @ ''Connection: close'' @ CRLF @ CRLF"

definition probe_health :: "(socket_addr \<Rightarrow> u8 list \<Rightarrow> probe_io) \<Rightarrow> socket_addr \<Rightarrow> bool option" where
  "probe_health io addr =
     (let connect_addr = loopback_probe_addr addr
      in case io connect_addr (as_bytes (probe_request connect_addr)) of
           ConnectFailed \<Rightarrow> Some False
         | ProbeError \<Rightarrow> None
         | ProbeRead chunk \<Rightarrow> Some (is_2xx_status_line (from_utf8_lossy (take 256 chunk))))"

definition service_status :: "(socket_addr \<Rightarrow> u8 list \<Rightarrow> probe_io) \<Rightarrow> relay_server_config \<Rightarrow> outcome" where
  "service_status io c =
     (let url = ''http://'' @ show_socket_addr (health_listen c) @ ''/health'';
          serving = (case probe_health io (health_listen c) of Some b \<Rightarrow> b | None \<Rightarrow> False)
      in \<lparr>o_summary = (if serving then ''dig-relay: SERVING (health '' @ url @ '')''
                       else ''dig-relay: NOT responding at '' @ url
                            @ '' (the service may be stopped or not installed)''),
          o_result = json_map [(''serving'', JBool serving), (''health_url'', JStr url)]\<rparr>)"

section \<open>Output and exit codes\<close>

definition is_serving :: "outcome \<Rightarrow> bool" where
  "is_serving out = (case json_field (o_result out) ''serving'' of JBool b \<Rightarrow> b | _ \<Rightarrow> False)"

datatype command = Serve | Install | Uninstall | Start | Stop | Status | RunService

datatype printed = Stdout string | Stderr string

text \<open>\<open>ser\<close> is \<^verbatim>\<open>serde_json::to_string\<close>.\<close>

definition outcome_line :: "(json \<Rightarrow> string) \<Rightarrow> outcome \<Rightarrow> string" where
  "outcome_line ser out = ser (json_map [(''ok'', JBool True), (''result'', o_result out)])"

definition error_line :: "(json \<Rightarrow> string) \<Rightarrow> string \<Rightarrow> string" where
  "error_line ser message = ser (json_map [(''ok'', JBool False), (''error'', json_map [(''message'', JStr message)])])"

definition print_outcome :: "(json \<Rightarrow> string) \<Rightarrow> bool \<Rightarrow> outcome \<Rightarrow> printed" where
  "print_outcome ser json out = Stdout (if json then outcome_line ser out else o_summary out)"

definition fail :: "(json \<Rightarrow> string) \<Rightarrow> bool \<Rightarrow> io_error \<Rightarrow> printed \<times> nat" where
  "fail ser json e =
     (if json then Stdout (error_line ser (snd e)) else Stderr (''dig-relay: error: '' @ snd e), 1)"

definition emit :: "(json \<Rightarrow> string) \<Rightarrow> bool \<Rightarrow> outcome io_result \<Rightarrow> printed list \<times> nat" where
  "emit ser json r =
     (case r of
        Inr out \<Rightarrow> ([print_outcome ser json out], 0)
      | Inl e \<Rightarrow> (let (p, code) = fail ser json e in ([p], code)))"

text \<open>The runtime and the server are what is run: each ends with a result.\<close>

definition run_serve ::
  "unit io_result \<Rightarrow> (relay_server_config \<Rightarrow> unit io_result) \<Rightarrow> relay_server_config \<Rightarrow> printed list \<times> nat" where
  "run_serve runtime serve c =
     (case validate c of
        Inl e \<Rightarrow> ([Stderr (''dig-relay: invalid config: '' @ e)], 2)
      | Inr _ \<Rightarrow>
          (case runtime of
             Inl e \<Rightarrow> ([Stderr (''dig-relay: cannot start runtime: '' @ snd e)], 1)
           | Inr _ \<Rightarrow>
               (case serve c of
                  Inr _ \<Rightarrow> ([], 0)
                | Inl e \<Rightarrow> ([Stderr (''dig-relay: fatal: '' @ snd e)], 1))))"

definition run_service_entry ::
  "platform \<Rightarrow> unit io_result \<Rightarrow> unit io_result \<Rightarrow> (relay_server_config \<Rightarrow> unit io_result)
     \<Rightarrow> relay_server_config \<Rightarrow> printed list \<times> nat" where
  "run_service_entry p dispatcher runtime serve c =
     (if p = Windows then
        (case dispatcher of
           Inr _ \<Rightarrow> ([], 0)
         | Inl e \<Rightarrow> ([Stderr (''dig-relay: service dispatcher error: '' @ snd e)], 1))
      else run_serve runtime serve c)"

text \<open>What the process can call: the host, the probe's socket, the SCM dispatcher, the runtime, the
  server and the JSON printer.\<close>

record 'os world =
  w_host :: "'os host"
  w_io :: "socket_addr \<Rightarrow> u8 list \<Rightarrow> probe_io"
  w_dispatcher :: "unit io_result"
  w_runtime :: "unit io_result"
  w_serve :: "relay_server_config \<Rightarrow> unit io_result"
  w_ser :: "json \<Rightarrow> string"

definition main_command ::
  "'os world \<Rightarrow> command option \<Rightarrow> bool \<Rightarrow> scope_choice \<Rightarrow> relay_server_config \<Rightarrow> 'os
     \<Rightarrow> (printed list \<times> nat) \<times> 'os" where
  "main_command w cmd json choice c os =
     (let h = w_host w; out = (\<lambda>(r, os'). (emit (w_ser w) json r, os'))
      in case (case cmd of Some x \<Rightarrow> x | None \<Rightarrow> Serve) of
           Serve \<Rightarrow> (run_serve (w_runtime w) (w_serve w) c, os)
         | RunService \<Rightarrow> (run_service_entry (h_platform h) (w_dispatcher w) (w_runtime w) (w_serve w) c, os)
         | Install \<Rightarrow> out (install h c choice os)
         | Uninstall \<Rightarrow> out (uninstall h choice os)
         | Start \<Rightarrow> out (service_start h choice os)
         | Stop \<Rightarrow> out (service_stop h choice os)
         | Status \<Rightarrow>
             (let o1 = service_status (w_io w) c
              in (([print_outcome (w_ser w) json o1], if is_serving o1 then 0 else 1), os)))"

section \<open>The status probe\<close>

lemma lossy_ascii: "a < 128 \<Longrightarrow> lossy (a # bs) = a # lossy bs"
proof -
  assume a: "a < 128"
  obtain b c d r where "bs @ [0, 0, 0] = b # c # d # r"
    by (cases bs; cases "tl bs"; cases "tl (tl bs)") auto
  with a show ?thesis by (subst lossy.simps) simp
qed

lemma lossy_ascii_append: "list_all (\<lambda>a. a < 128) as \<Longrightarrow> lossy (as @ bs) = as @ lossy bs"
  by (induction as) (simp_all add: lossy_ascii)

lemma from_utf8_lossy_ascii:
  "list_all (\<lambda>c. of_char c < (128 :: nat)) s \<Longrightarrow> from_utf8_lossy (as_bytes s @ bs) = s @ from_utf8_lossy bs"
proof -
  assume s: "list_all (\<lambda>c. of_char c < (128 :: nat)) s"
  have "unat (of_nat (of_char c) :: u8) = of_char c" for c
    using of_char_lt [of c] by (simp add: unat_of_nat)
  then have u: "map unat (as_bytes s) = map of_char s" by (simp add: as_bytes_def o_def)
  have "list_all (\<lambda>a. a < 128) (map of_char s :: nat list)" using s by (simp add: list_all_iff)
  then show ?thesis
    by (simp add: from_utf8_lossy_def u lossy_ascii_append o_def)
qed

lemma first_line:
  assumes "CHR 0x0A \<notin> set p" "p \<noteq> []" "last p \<noteq> CHR 0x0D"
  shows "\<exists>y ls. str_lines (p @ x) = (p @ y) # ls"
proof (cases "CHR 0x0A \<in> set x")
  case True
  then obtain a b where x: "x = a @ CHR 0x0A # b" and a: "CHR 0x0A \<notin> set a" by (meson split_list_first)
  have "split_on (CHR 0x0A) ((p @ a) @ CHR 0x0A # b) = (p @ a) # split_on (CHR 0x0A) b"
    using assms(1) a by (intro split_on_append) simp
  moreover have "\<exists>y. drop_cr (p @ a) = p @ y"
    using assms(2,3) by (cases a rule: rev_cases) (auto simp: drop_cr_def butlast_append)
  ultimately show ?thesis unfolding x by (auto simp: str_lines_def Let_def)
next
  case False
  then have "split_on (CHR 0x0A) (p @ x) = [p @ x]" using assms(1) by (intro split_on_notin) simp
  with assms(2) show ?thesis by (simp add: str_lines_def)
qed

lemma plain_not_ws: "plain c \<Longrightarrow> \<not> list_ex (\<lambda>w. prefix w (c # cs)) ws_encodings"
proof
  assume "plain c" "list_ex (\<lambda>w. prefix w (c # cs)) ws_encodings"
  then obtain w where w: "w \<in> set ws_encodings" "prefix w (c # cs)" by (auto simp: list_ex_iff)
  have "w \<noteq> []" using w(1) ws_nonempty by blast
  then have "hd w = c" using w(2) by (cases w) simp_all
  with ws_not_plain [OF w(1)] \<open>plain c\<close> show False by simp
qed

lemma space_ws: "list_ex (\<lambda>w. prefix w (CHR '' '' # r)) ws_encodings"
  by (simp add: ws_encodings_def)

lemma until_ws_plain: "list_all plain w \<Longrightarrow> until_ws (w @ CHR '' '' # r) = (w, CHR '' '' # r)"
  by (induction w) (simp_all add: plain_not_ws space_ws)

lemma trim_start_plain: "plain c \<Longrightarrow> trim_start (c # cs) = c # cs"
  using plain_not_ws [of c cs]
  by (simp add: trim_start_def find_None_iff [THEN iffD2] list_ex_iff)

lemma trim_start_space: "trim_start (CHR '' '' # v) = trim_start v"
proof -
  have "List.find (\<lambda>w. prefix w (CHR '' '' # v)) ws_encodings = Some '' ''"
    by (simp add: ws_encodings_def)
  then show ?thesis by (simp add: trim_start_def)
qed

lemma split_whitespace_word:
  assumes "list_all plain w" "w \<noteq> []" "trim_start s = w @ CHR '' '' # r"
  shows "split_whitespace_fuel (Suc n) s = w # split_whitespace_fuel n (CHR '' '' # r)"
  using assms until_ws_plain [OF assms(1), of r] by simp

text \<open>Only the number of a status line counts.\<close>

lemma is_2xx_status:
  assumes "n < 65536"
  shows "is_2xx_status_line (''HTTP/1.1 '' @ show_nat n @ '' '' @ x) \<longleftrightarrow> 200 \<le> n \<and> n < 300"
proof -
  define v where "v = ''HTTP/1.1''"
  define p where "p = v @ CHR '' '' # show_nat n @ '' ''"
  have v: "list_all plain v" "v \<noteq> []" "trim_start (v @ r) = v @ r" for r
    using trim_start_plain [of "CHR ''H''"] by (simp_all add: v_def plain_def)
  have n: "list_all plain (show_nat n)" by (rule show_radix_plain) simp_all
  then have tn: "trim_start (show_nat n @ r) = show_nat n @ r" for r
    using trim_start_plain by (cases "show_nat n") (simp_all add: show_radix_nonempty)
  have "CHR 0x0A \<notin> set v" by (simp add: v_def)
  moreover have "CHR 0x0A \<notin> set (show_nat n)"
    using n by (auto simp: list_all_iff plain_def)
  ultimately have "CHR 0x0A \<notin> set p" by (simp add: p_def)
  then obtain y ls where l: "str_lines (p @ x) = (p @ y) # ls"
    using first_line [of p x] by (auto simp: p_def)
  define line where "line = p @ y"
  have "split_whitespace_fuel (Suc (Suc m)) line =
      v # show_nat n # split_whitespace_fuel m (CHR '' '' # y)" for m
    using split_whitespace_word [OF v(1,2), of line "show_nat n @ CHR '' '' # y" "Suc m"]
      split_whitespace_word [OF n show_radix_nonempty, of "CHR '' '' # show_nat n @ CHR '' '' # y" y m]
    by (simp add: line_def p_def v(3) trim_start_space tn)
  moreover obtain m where "Suc (length line) = Suc (Suc m)" by (simp add: line_def p_def v_def)
  ultimately obtain ws where ws: "split_whitespace line = v # show_nat n # ws"
    unfolding split_whitespace_def by metis
  have "prefix ''HTTP/'' line" by (simp add: line_def p_def v_def)
  with ws l [folded line_def] have "is_2xx_status_line (p @ x) \<longleftrightarrow> 200 \<le> n \<and> n < 300"
    using assms by (simp add: is_2xx_status_line_def Let_def parse_show)
  then show ?thesis by (simp add: p_def v_def)
qed

lemma probe_reads_status:
  assumes "15 \<le> k"
  shows "is_2xx_status_line (from_utf8_lossy (take 256 (take k (write_response st reason headers body))))
    \<longleftrightarrow> 200 \<le> unat st \<and> unat st < 300"
proof -
  define p where "p = ''HTTP/1.1 '' @ show_nat (unat st) @ '' ''"
  have st: "unat st < 65536" using unat_lt2p [of st] by simp
  then have "length (show_nat (unat st)) \<le> 5" using show_radix_length [of 10 "unat st" 4] by simp
  then have len: "length p \<le> 15" by (simp add: p_def)
  obtain r where "write_response st reason headers body = as_bytes p @ r"
    by (simp add: write_response_def p_def as_bytes_def)
  then have "take 256 (take k (write_response st reason headers body)) = as_bytes p @ take (min (256 - length p) (k - length p)) r"
    using len assms by (simp add: as_bytes_def)
  moreover have "list_all (\<lambda>c. of_char c < (128 :: nat)) p"
    using show_radix_plain [of 10 "unat st"] by (auto simp: p_def list_all_iff plain_def)
  ultimately show ?thesis
    using is_2xx_status [OF st] by (simp add: from_utf8_lossy_ascii p_def)
qed


definition demo_world :: "unit world" where
  "demo_world =
     \<lparr>w_host = \<lparr>h_platform = Linux, h_net_session = False, h_euid = 0, h_current_exe = Inr ''/usr/bin/dig-relay'',
        h_label = Inl (InvalidInput, []), h_native = Inl (NotFound, []), h_user_level = Inl [],
        h_run = (\<lambda>_ _ _. Inl (NotFound, []))\<rparr>,
      w_io = (\<lambda>_ _. ProbeRead (take 64 (write_response 200 ''OK'' [] []))),
      w_dispatcher = Inr (), w_runtime = Inr (), w_serve = (\<lambda>_. Inr ()), w_ser = (\<lambda>_. [])\<rparr>"


section \<open>Removal on an honest host\<close>

lemma honest_delete:
  assumes "honest_backend registered s b" "b_delete b os = (r, os')"
  shows "r = Inr () \<longrightarrow> \<not> registered s os'" "registered s os' \<Longrightarrow> registered s os"
    "t \<noteq> s \<Longrightarrow> registered t os' = registered t os"
  using assms unfolding honest_backend_def by blast+

lemma honest_create:
  assumes "honest_backend registered s b" "b_create b plan os = (r, os')"
  shows "r = Inr () \<Longrightarrow> registered s os'" "t \<noteq> s \<Longrightarrow> registered t os' = registered t os"
  using assms unfolding honest_backend_def by blast+

lemma unknown_reason_None: "unknown_reason p = None \<longleftrightarrow> p = Present \<or> p = Absent"
  by (cases p) simp_all

lemma is_present_iff: "is_present p \<longleftrightarrow> p = Present"
  by (cases p) simp_all

text \<open>The two ways a removal goes.\<close>

lemma remove_registration_cases:
  assumes "remove_registration b s mode os = (r, os')"
  obtains (left_alone) "mode = Swept" "b_registration b os \<noteq> Present" "os' = os" "sr_scope r = s"
      "\<not> unresolved r \<Longrightarrow> b_registration b os = Absent"
  | (tried) res where "b_delete b (snd (b_stop b os)) = (res, os')" "sr_scope r = s"
      "\<not> unresolved r \<Longrightarrow> res = Inr () \<or> b_registration b os = Absent"
proof -
  have r: "r = fst (remove_registration b s mode os)" and os': "os' = snd (remove_registration b s mode os)"
    using assms by simp_all
  show thesis
  proof (cases "mode = Swept \<and> b_registration b os \<noteq> Present")
    case True
    then have "os' = os" "sr_scope r = s"
      "sr_indeterminate r \<longleftrightarrow> unknown_reason (b_registration b os) \<noteq> None"
      unfolding r os' by (simp_all add: remove_registration_def is_present_iff Let_def)
    with True show thesis
      by (intro left_alone) (simp_all add: unresolved_def unknown_reason_None)
  next
    case False
    obtain r1 os1 where st: "b_stop b os = (r1, os1)" by (rule prod.exhaust)
    obtain r2 os2 where de: "b_delete b os1 = (r2, os2)" by (rule prod.exhaust)
    show thesis
    proof (cases r2)
      case (Inl e)
      with st de have "os' = os2" "sr_scope r = s"
        "sr_indeterminate r \<longleftrightarrow> b_registration b os = Present \<or> unknown_reason (b_registration b os) \<noteq> None"
        unfolding r os' by (simp_all add: remove_registration_def is_present_iff Let_def if_not_P [OF False] disj_commute)
      with st de show thesis
        by (intro tried [of r2]) (auto simp: unresolved_def unknown_reason_None)
    next
      case (Inr u)
      then have "r2 = Inr ()" by simp
      with st de have "os' = os2" "sr_scope r = s"
        unfolding r os' by (simp_all add: remove_registration_def is_present_iff Let_def if_not_P [OF False])
      with st de Inr show thesis by (intro tried [of r2]) simp_all
    qed
  qed
qed

lemma remove_registration_spec:
  assumes b: "honest_backend registered s b" and rm: "remove_registration b s mode os = (r, os')"
  shows "(\<not> unresolved r \<longrightarrow> \<not> registered s os')
    \<and> (\<forall>t. t \<noteq> s \<longrightarrow> registered t os' = registered t os)
    \<and> sr_scope r = s
    \<and> (mode = Swept \<and> b_registration b os \<noteq> Present \<longrightarrow> registered s os' = registered s os)"
proof -
  have absent: "b_registration b os = Absent \<Longrightarrow> \<not> registered s os"
    using b unfolding honest_backend_def by blast
  have stop: "registered t (snd (b_stop b os)) = registered t os" for t
    using b unfolding honest_backend_def by blast
  from rm show ?thesis
  proof (cases rule: remove_registration_cases)
    case left_alone
    with absent show ?thesis by blast
  next
    case (tried res)
    note del = honest_delete [OF b tried(1), unfolded stop]
    have sw: "mode = Swept \<and> b_registration b os \<noteq> Present \<Longrightarrow> os' = os"
      using arg_cong [OF rm, of snd] by (simp add: remove_registration_def is_present_iff Let_def)
    with tried del absent show ?thesis by blast
  qed
qed

lemma remove_scopes_spec:
  assumes "honest_host registered h" "distinct ss" "remove_scopes h mode ss os = (rs, os')"
  shows "(\<forall>r \<in> set rs. \<not> unresolved r) \<longrightarrow> (\<forall>s \<in> set ss. \<not> registered s os')"
    and "t \<notin> set ss \<Longrightarrow> registered t os' = registered t os"
    and "map sr_scope rs = ss"
proof -
  have "((\<forall>r \<in> set rs. \<not> unresolved r) \<longrightarrow> (\<forall>s \<in> set ss. \<not> registered s os'))
    \<and> (\<forall>t. t \<notin> set ss \<longrightarrow> registered t os' = registered t os) \<and> map sr_scope rs = ss"
    using assms(2,3)
  proof (induction ss arbitrary: mode os rs)
    case Nil
    then show ?case by simp
  next
    case (Cons s ss)
    obtain r os1 where r: "(case backend_new h s of Inr b \<Rightarrow> remove_registration b s mode os
        | Inl e \<Rightarrow> (removal_unreachable s mode (snd e), os)) = (r, os1)" by force
    obtain rs' os2 where rest: "remove_scopes h Swept ss os1 = (rs', os2)" by force
    have eq: "rs = r # rs'" "os' = os2" using Cons.prems(2) r rest by simp_all
    have one: "(\<not> unresolved r \<longrightarrow> \<not> registered s os1)
      \<and> (\<forall>t. t \<noteq> s \<longrightarrow> registered t os1 = registered t os) \<and> sr_scope r = s"
    proof (cases "backend_new h s")
      case (Inl e)
      with backend_new_honest(2) [OF assms(1)] have "\<not> registered s os" for os by blast
      with Inl r show ?thesis by (auto simp: removal_unreachable_def)
    next
      case (Inr b)
      with backend_new_honest(1) [OF assms(1)] have "honest_backend registered s b" by blast
      from remove_registration_spec [OF this, of mode os r os1] Inr r show ?thesis by auto
    qed
    from Cons.IH [OF _ rest [folded eq(2)]] Cons.prems(1) one show ?case by (auto simp: eq(1))
  qed
  then show "(\<forall>r \<in> set rs. \<not> unresolved r) \<longrightarrow> (\<forall>s \<in> set ss. \<not> registered s os')"
    and "t \<notin> set ss \<Longrightarrow> registered t os' = registered t os" and "map sr_scope rs = ss"
    by auto
qed

lemma uninstall_scopes_distinct: "distinct (uninstall_scopes choice u r)"
  by (auto simp: uninstall_scopes_def other_scope_def Let_def split: service_scope.splits)

lemma uninstall_outcome_kind:
  "(\<exists>r \<in> set rs. unresolved r) \<longleftrightarrow> (\<exists>m. uninstall_outcome rs = Inl (PermissionDenied, m))"
proof
  assume "\<exists>r \<in> set rs. unresolved r"
  then show "\<exists>m. uninstall_outcome rs = Inl (PermissionDenied, m)"
    by (auto simp: uninstall_outcome_def Let_def filter_empty_conv)
next
  assume "\<exists>m. uninstall_outcome rs = Inl (PermissionDenied, m)"
  then show "\<exists>r \<in> set rs. unresolved r"
    by (auto simp: uninstall_outcome_def Let_def filter_empty_conv split: if_splits)
qed

text \<open>C31. On a host whose service manager is honest, an uninstall that leaves a registration behind
  at a scope it was asked about (both scopes under \<^verbatim>\<open>auto\<close>, where there are two) fails with
  \<^verbatim>\<open>PermissionDenied\<close>; so one that reports success, or that there was nothing to uninstall, leaves none,
  and a scope it was not asked about is as it was.\<close>

theorem uninstall_complete:
  assumes "honest_host registered h"
    and "uninstall h choice os = (result, os')" and "\<not> (h_platform h = Windows \<and> \<not> is_elevated h)"
  shows "((\<exists>s \<in> set (uninstall_scopes choice (prefers_user_level h) (is_root h)). registered s os')
        \<longrightarrow> (\<exists>m. result = Inl (PermissionDenied, m)))
    \<and> (\<forall>t. t \<notin> set (uninstall_scopes choice (prefers_user_level h) (is_root h))
        \<longrightarrow> registered t os' = registered t os)"
proof -
  let ?ss = "uninstall_scopes choice (prefers_user_level h) (is_root h)"
  obtain rs os2 where r: "remove_scopes h Requested ?ss os = (rs, os2)" by force
  have eq: "result = uninstall_outcome rs" "os' = os2"
    using assms(2,3) r by (simp_all add: uninstall_def)
  note spec = remove_scopes_spec [OF assms(1) uninstall_scopes_distinct r]
  show ?thesis
    using spec(1,2) unfolding eq uninstall_outcome_kind [symmetric] by blast
qed


section \<open>Installing\<close>

text \<open>The preconditions \<^verbatim>\<open>install\<close> settles before it writes anything.\<close>

definition may_install :: "'os host \<Rightarrow> scope_choice \<Rightarrow> bool" where
  "may_install h choice \<longleftrightarrow>
     (let s = resolve_scope choice (prefers_user_level h) (is_root h)
      in (h_platform h = Windows \<longrightarrow> h_net_session h)
         \<and> (h_platform h \<noteq> Windows \<and> s = SystemScope \<longrightarrow> h_euid h = 0)
         \<and> (\<exists>b. backend_new h s = Inr b) \<and> (\<exists>p. h_current_exe h = Inr p))"

lemma other_scope_neq [simp]: "other_scope s \<noteq> s" "s \<noteq> other_scope s"
  by (cases s; simp add: other_scope_def)+

lemma ensure_refuses: "\<exists>e. ensure_privilege_for_scope SystemScope True False = Inl e"
  by (simp add: ensure_privilege_for_scope_def)

lemma install_refuses:
  assumes "\<not> may_install h choice"
  shows "\<exists>e. install h c choice os = (Inl e, os)"
proof -
  let ?s = "resolve_scope choice (prefers_user_level h) (is_root h)"
  consider (scm) "h_platform h = Windows \<and> \<not> h_net_session h"
    | (priv) "h_platform h \<noteq> Windows \<and> ?s = SystemScope \<and> h_euid h \<noteq> 0"
    | (mgr) e where "backend_new h ?s = Inl e" | (exe) e where "h_current_exe h = Inl e"
    using assms unfolding may_install_def Let_def by (metis sum.exhaust)
  then show ?thesis
  proof cases
    case scm
    then show ?thesis by (simp add: install_def is_elevated_def)
  next
    case priv
    then have "prefers_user_level h" "\<not> is_root h"
      by (simp_all add: prefers_user_level_def is_root_def)
    with priv obtain e where "ensure_privilege_for_scope ?s (prefers_user_level h) (is_root h) = Inl e"
      using ensure_refuses by auto
    with priv show ?thesis by (simp add: install_def)
  next
    case mgr
    then show ?thesis by (simp add: install_def Let_def split: sum.split)
  next
    case exe
    then show ?thesis by (simp add: install_def Let_def split: sum.split)
  qed
qed

lemma install_proceeds:
  assumes "may_install h choice"
  defines "s \<equiv> resolve_scope choice (prefers_user_level h) (is_root h)"
  obtains target program fs where "backend_new h s = Inr target"
    "install h c choice os =
       (case install_at_scope target (sweep_target h s) (install_plan_of h program c) os of
          (Inl e, os') \<Rightarrow> (Inl e, os')
        | (Inr m, os') \<Rightarrow> (Inr \<lparr>o_summary = install_summary s program c m, o_result = fs m\<rparr>, os'))"
proof -
  from assms obtain target program where t: "backend_new h s = Inr target" "h_current_exe h = Inr program"
    by (auto simp: may_install_def Let_def)
  have pr: "ensure_privilege_for_scope s (prefers_user_level h) (is_root h) = Inr ()"
    using assms unfolding s_def may_install_def Let_def
    by (cases "resolve_scope choice (prefers_user_level h) (is_root h)")
       (auto simp: ensure_privilege_for_scope_def prefers_user_level_def is_root_def)
  have el: "\<not> (h_platform h = Windows \<and> \<not> is_elevated h)"
    using assms(1) by (auto simp: may_install_def is_elevated_def Let_def)
  show thesis
    using t pr by (intro that [of target program "\<lambda>migration. json_map
        [(''installed'', JBool True), (''registered'', JBool True), (''started'', JBool False),
         (''label'', JStr SERVICE_LABEL), (''scope'', JStr (scope_label s)), (''program'', JStr program),
         (''listen'', JStr (show_socket_addr (listen c))),
         (''health_listen'', JStr (show_socket_addr (health_listen c))),
         (''migration'', case migration of None \<Rightarrow> JNull | Some m \<Rightarrow> removal_to_json m)]"])
      (simp_all add: install_def if_not_P [OF el] s_def [symmetric] Let_def)
qed

lemma install_summary_warns:
  assumes "unresolved m" "\<not> sr_removed m"
  shows "sublist ''  WARNING: a '' (install_summary s program c (Some m))"
proof -
  have m: "sr_found m \<or> sr_indeterminate m" using assms(1) by (auto simp: unresolved_def)
  define rest where "rest = scope_label (sr_scope m)
    @ ''-level registration may still exist and could also bind these ports (''
    @ (case sr_error m of Some e \<Rightarrow> e | None \<Rightarrow> ''removal did not take effect'')
    @ ''). Remove it with: dig-relay uninstall --scope '' @ scope_label (sr_scope m)"
  have "\<exists>p. install_summary s program c (Some m) = p @ ''  WARNING: a '' @ rest"
    unfolding install_summary_def option.case if_not_P [OF assms(2)] if_P [OF m] rest_def
    by (simp only: append_assoc [symmetric]) blast
  then show ?thesis by (auto simp: sublist_def)
qed

lemma removed_resolved:
  assumes "remove_registration b s mode os = (r, os')" "sr_removed r"
  shows "\<not> unresolved r"
proof -
  obtain r1 os1 where st: "b_stop b os = (r1, os1)" by (rule prod.exhaust)
  obtain r2 os2 where de: "b_delete b os1 = (r2, os2)" by (rule prod.exhaust)
  have "r = fst (remove_registration b s mode os)" using assms(1) by simp
  with assms(2) st de show ?thesis
    by (cases mode; cases "b_registration b os"; cases r2)
       (simp_all add: remove_registration_def unresolved_def Let_def)
qed

text \<open>What the sweep of the other scope and the creation leave.\<close>

lemma install_at_scope_spec:
  assumes t: "honest_backend registered s target"
    and o: "\<forall>b t. other = Some (b, t) \<longrightarrow> t = other_scope s \<and> honest_backend registered t b"
    and run: "install_at_scope target other plan os = (result, os')"
  shows "(\<forall>m. result = Inr m \<longrightarrow> registered s os'
        \<and> ((other = None \<longrightarrow> \<not> registered (other_scope s) os) \<and> registered (other_scope s) os'
             \<longrightarrow> (\<exists>r. m = Some r \<and> unresolved r \<and> \<not> sr_removed r)))
    \<and> ((\<forall>b u. other = Some (b, u) \<longrightarrow> b_registration b os \<noteq> Present)
        \<longrightarrow> registered (other_scope s) os' = registered (other_scope s) os)"
proof -
  obtain m os1 where sweep: "(case other of None \<Rightarrow> (None, os) | Some (b, scope) \<Rightarrow>
      (let (m, os') = remove_registration b scope Swept os in (Some m, os'))) = (m, os1)"
    by (rule prod.exhaust)
  obtain r2 where cr: "b_create target plan os1 = (r2, os')" and res: "\<And>m'. result = Inr m' \<Longrightarrow> r2 = Inr () \<and> m' = m"
    using run sweep unfolding install_at_scope_def Let_def
    by (cases "b_create target plan os1"; cases "fst (b_create target plan os1)") auto
  note made = honest_create [OF t cr]
  have same: "registered (other_scope s) os' = registered (other_scope s) os1"
    by (rule made(2)) simp
  show ?thesis
  proof (cases other)
    case None
    then have "m = None" "os1 = os" using sweep by simp_all
    with None same made(1) res show ?thesis by blast
  next
    case (Some p)
    obtain b u where p: "p = (b, u)" by (rule prod.exhaust)
    with Some o have u: "u = other_scope s" "honest_backend registered u b" by auto
    obtain r where rm: "remove_registration b u Swept os = (r, os1)" and m: "m = Some r"
      using sweep Some p by (auto split: prod.splits)
    from remove_registration_spec [OF u(2) rm] removed_resolved [OF rm] u(1)
    have "\<not> unresolved r \<longrightarrow> \<not> registered (other_scope s) os1" "unresolved r \<longrightarrow> \<not> sr_removed r"
      "b_registration b os \<noteq> Present \<longrightarrow> registered (other_scope s) os1 = registered (other_scope s) os"
      by auto
    with Some p m same made(1) res show ?thesis by blast
  qed
qed

text \<open>C32. Installing on an honest host. Without the privilege, the manager or the program path it needs,
  an install fails and changes nothing. One that succeeds leaves a registration at the scope it
  resolved; if the other scope of a two-scope host still holds one, the summary warns of it. The
  other scope is only written to when its probe positively sees a registration there.\<close>

theorem install_exact:
  fixes h :: "'os host" and choice :: scope_choice
  defines "s \<equiv> resolve_scope choice (prefers_user_level h) (is_root h)"
  assumes "honest_host registered h" and "install h c choice os = (result, os')"
  shows "(\<not> may_install h choice \<longrightarrow> os' = os \<and> (\<exists>e. result = Inl e))
    \<and> (\<forall>out. result = Inr out \<longrightarrow> registered s os'
         \<and> (prefers_user_level h \<and> registered (other_scope s) os'
             \<longrightarrow> sublist ''  WARNING: a '' (o_summary out)))
    \<and> (\<forall>b. backend_new h (other_scope s) = Inr b \<and> b_registration b os \<noteq> Present
         \<longrightarrow> registered (other_scope s) os' = registered (other_scope s) os)"
proof (cases "may_install h choice")
  case False
  then obtain e where "install h c choice os = (Inl e, os)"
    using install_refuses [OF False] by blast
  with assms(3) have r: "result = Inl e" "os' = os" by simp_all
  show ?thesis unfolding r by simp
next
  case True
  from install_proceeds [OF True, of c os, folded s_def] obtain target program fs where
    t: "backend_new h s = Inr target" and i: "install h c choice os =
       (case install_at_scope target (sweep_target h s) (install_plan_of h program c) os of
          (Inl e, os') \<Rightarrow> (Inl e, os')
        | (Inr m, os') \<Rightarrow> (Inr \<lparr>o_summary = install_summary s program c m, o_result = fs m\<rparr>, os'))" .
  obtain res os2 where run: "install_at_scope target (sweep_target h s) (install_plan_of h program c) os = (res, os2)"
    by (rule prod.exhaust)
  have os2: "os2 = os'" and out: "\<And>out. result = Inr out \<Longrightarrow>
      \<exists>m. res = Inr m \<and> o_summary out = install_summary s program c m"
    using assms(3) i run by (auto split: sum.splits)
  have o: "\<forall>b u. sweep_target h s = Some (b, u) \<longrightarrow> u = other_scope s \<and> honest_backend registered u b"
    using backend_new_honest(1) [OF assms(2)] by (auto simp: sweep_target_def split: if_splits sum.splits)
  have n: "prefers_user_level h \<Longrightarrow> sweep_target h s = None \<Longrightarrow> \<not> registered (other_scope s) os"
    using backend_new_honest(2) [OF assms(2)] by (auto simp: sweep_target_def split: sum.splits)
  have b: "b = b'" if "backend_new h (other_scope s) = Inr b" "sweep_target h s = Some (b', u)" for b b' u
    using that by (simp add: sweep_target_def split: if_splits)
  note spec = install_at_scope_spec [OF backend_new_honest(1) [OF assms(2) t] o run [unfolded os2]]
  show ?thesis
  proof (intro conjI allI impI)
    fix out assume "result = Inr out"
    then obtain m where m: "res = Inr m" "o_summary out = install_summary s program c m" using out by blast
    with spec show "registered s os'" by blast
    assume "prefers_user_level h \<and> registered (other_scope s) os'"
    with spec m(1) n obtain r where r: "m = Some r" "unresolved r" "\<not> sr_removed r" by auto
    show "sublist ''  WARNING: a '' (o_summary out)" unfolding m(2) r(1) by (rule install_summary_warns [OF r(2,3)])
  next
    fix b' assume "backend_new h (other_scope s) = Inr b' \<and> b_registration b' os \<noteq> Present"
    with b spec show "registered (other_scope s) os' = registered (other_scope s) os" by blast
  qed (use True in simp_all)
qed

section \<open>A concrete host\<close>

text \<open>A Linux host run as root: the state says whether each scope holds a registration.\<close>

definition demo_registered :: "service_scope \<Rightarrow> (service_scope \<Rightarrow> bool) \<Rightarrow> bool" where
  "demo_registered s os = os s"

definition demo_manager :: "service_scope \<Rightarrow> (service_scope \<Rightarrow> bool) manager" where
  "demo_manager s =
     \<lparr>m_start = (\<lambda>_ os. (Inr (), os)), m_stop = (\<lambda>_ os. (Inr (), os)),
      m_uninstall = (\<lambda>_ os. (Inr (), os(s := False))),
      m_install = (\<lambda>_ _ os. (Inr (), os(s := True)))\<rparr>"

definition demo_host :: "(service_scope \<Rightarrow> bool) host" where
  "demo_host =
     \<lparr>h_platform = Linux, h_net_session = False, h_euid = 0, h_current_exe = Inr ''/usr/bin/dig-relay'',
      h_label = Inr \<lparr>sl_script_name = ''dignetwork-dig-relay'', sl_qualified_name = SERVICE_LABEL\<rparr>,
      h_native = Inr (demo_manager SystemScope), h_user_level = Inr (demo_manager UserScope),
      h_run = (\<lambda>_ args os.
        Inr \<lparr>po_success = demo_registered (if ''--user'' \<in> set args then UserScope else SystemScope) os,
             po_code = Some 1, po_stdout = [],
             po_stderr = as_bytes ''No files found for dignetwork-dig-relay.service.''\<rparr>)\<rparr>"

lemma demo_manager_honest: "honest_manager demo_registered s (demo_manager s)"
  by (auto simp: honest_manager_def demo_manager_def demo_registered_def)

lemma demo_manager_at: "manager_at demo_host s = Inr (demo_manager s)"
  by (cases s) (simp_all add: manager_at_def demo_host_def)

lemma not_user_scope: "s \<noteq> UserScope \<longleftrightarrow> s = SystemScope"
  by (cases s) simp_all

lemma demo_host_honest: "honest_host demo_registered demo_host"
  unfolding honest_host_def honest_tool_def
  by (auto simp: demo_manager_at demo_manager_honest)
     (auto simp: demo_host_def probe_command_def os_native_service_name_def not_user_scope split: if_splits)

lemmas demo_defs = demo_host_def demo_registered_def demo_manager_def backend_of_def with_label_def query_installed_def
  probe_command_def os_native_service_name_def classify_systemctl_probe_def prefers_user_level_def
  is_root_def is_elevated_def resolve_scope_def other_scope_def

lemma demo_backend: "backend_new demo_host s = Inr (backend_of demo_host (demo_manager s) s)"
  by (simp add: backend_new_def demo_manager_at)

lemma demo_present: "demo_registered s os \<Longrightarrow> b_registration (backend_of demo_host (demo_manager s) s) os = Present"
  by (cases s) (simp_all add: demo_defs)

abbreviation demo_b :: "service_scope \<Rightarrow> (service_scope \<Rightarrow> bool) backend" where
  "demo_b s \<equiv> backend_of demo_host (demo_manager s) s"

lemma demo_ops:
  "b_stop (demo_b s) os = (Inr (), os)" "b_delete (demo_b s) os = (Inr (), os(s := False))"
  "b_create (demo_b s) plan os = (Inr (), os(s := True))"
  by (simp_all add: demo_defs)

lemma demo_remove:
  "os s \<Longrightarrow> remove_registration (demo_b s) s mode os =
     (\<lparr>sr_scope = s, sr_found = True, sr_removed = True, sr_indeterminate = False, sr_error = None\<rparr>,
      os(s := False))"
  using demo_present [of s os] by (simp add: remove_registration_def demo_ops demo_registered_def)

lemma demo_facts: "h_platform demo_host = Linux" "prefers_user_level demo_host" "is_root demo_host"
  "is_elevated demo_host" "h_current_exe demo_host = Inr ''/usr/bin/dig-relay''"
  by (simp_all add: demo_defs)

theorem install_exact_witness:
  "\<exists>out. install demo_host default_config ChooseAuto (\<lambda>s. s = UserScope)
       = (Inr out, (\<lambda>s. s = UserScope)(UserScope := False, SystemScope := True))
     \<and> demo_registered SystemScope ((\<lambda>s. s = UserScope)(UserScope := False, SystemScope := True))"
proof -
  let ?os = "\<lambda>s. s = UserScope"
  have s: "resolve_scope ChooseAuto (prefers_user_level demo_host) (is_root demo_host) = SystemScope"
    by (simp add: demo_defs)
  have "\<exists>out. install demo_host default_config ChooseAuto ?os = (Inr out, ?os(UserScope := False, SystemScope := True))"
    by (simp add: install_def demo_facts resolve_scope_def ensure_privilege_for_scope_def demo_backend
        sweep_target_def other_scope_def install_at_scope_def demo_remove demo_ops)
  with install_exact [OF demo_host_honest, of default_config ChooseAuto ?os] s show ?thesis
    by auto
qed

theorem uninstall_complete_witness:
  "\<exists>out. uninstall demo_host ChooseAuto (\<lambda>_. True) = (Inr out, (\<lambda>_. True)(SystemScope := False, UserScope := False))
     \<and> \<not> demo_registered SystemScope ((\<lambda>_. True)(SystemScope := False, UserScope := False))"
proof -
  have ss: "uninstall_scopes ChooseAuto (prefers_user_level demo_host) (is_root demo_host) = [SystemScope, UserScope]"
    by (simp add: uninstall_scopes_def demo_facts resolve_scope_def other_scope_def)
  have "\<exists>out. uninstall demo_host ChooseAuto (\<lambda>_. True) = (Inr out, (\<lambda>_. True)(SystemScope := False, UserScope := False))"
    by (simp add: uninstall_def demo_facts(1) ss demo_backend demo_remove uninstall_outcome_def unresolved_def)
  with uninstall_complete [OF demo_host_honest, of ChooseAuto "\<lambda>_. True"] ss show ?thesis
    by (auto simp: demo_facts(1))
qed

end
