(* ===== verification/Startup.thy ===== *)
theory Startup
  imports Tls_Identity Service
begin

text \<open>
  Bringing the relay up: the dual-stack sockets of \<^verbatim>\<open>src/net.rs\<close>, \<^verbatim>\<open>serve_with_shutdown\<close> of \<^verbatim>\<open>src/lib.rs\<close> and
  the Windows service body of \<^verbatim>\<open>src/win_service.rs\<close>. System calls, files and the listeners' later life
  are fields of a record; a bind is the sequence of socket calls it makes, up to the first that
  fails. Shown: a configured TLS identity that cannot be loaded stops the start and never leaves a
  plain listener, and what decides the result of the process.
\<close>

section \<open>Sockets\<close>

datatype sock_call =
    NewSocket bool bool
  | SetOnlyV6 bool
  | SetReuseAddress bool
  | BindTo socket_addr
  | ListenOn nat
  | SetNonblocking bool
  | FromStd

text \<open>The first flag of \<^term>\<open>NewSocket\<close> is the IPv6 domain, the second the stream type. \<open>sys\<close> answers a call
  after those already made.\<close>

fun run_calls ::
  "(sock_call list \<Rightarrow> sock_call \<Rightarrow> unit io_result) \<Rightarrow> sock_call list \<Rightarrow> sock_call list \<Rightarrow> unit io_result \<times> sock_call list" where
  "run_calls sys made [] = (Inr (), made)"
| "run_calls sys made (c # cs) =
     (case sys made c of Inl e \<Rightarrow> (Inl e, made @ [c]) | Inr _ \<Rightarrow> run_calls sys (made @ [c]) cs)"

definition new_dual_stack_socket :: "socket_addr \<Rightarrow> bool \<Rightarrow> sock_call list" where
  "new_dual_stack_socket addr stream =
     (let v6 = \<not> ip_is_ipv4 (sa_ip addr)
      in [NewSocket v6 stream] @ (if v6 then [SetOnlyV6 False] else []) @ [SetReuseAddress True, BindTo addr])"

definition bind_tcp_dual_stack ::
  "(sock_call list \<Rightarrow> sock_call \<Rightarrow> unit io_result) \<Rightarrow> socket_addr \<Rightarrow> unit io_result \<times> sock_call list" where
  "bind_tcp_dual_stack sys addr =
     run_calls sys [] (new_dual_stack_socket addr True @ [ListenOn 128, SetNonblocking True, FromStd])"

definition bind_udp_dual_stack ::
  "(sock_call list \<Rightarrow> sock_call \<Rightarrow> unit io_result) \<Rightarrow> socket_addr \<Rightarrow> unit io_result \<times> sock_call list" where
  "bind_udp_dual_stack sys addr =
     run_calls sys [] (new_dual_stack_socket addr False @ [SetNonblocking True, FromStd])"

section \<open>Serving\<close>

datatype arm = RelayArm | HealthArm | StunArm | ShutdownArm

text \<open>The machine: reading files, the printed form of a path, socket calls, how a bound listener ends (the
  relay's and the STUN loop only end with the process), and which arm of the \<^verbatim>\<open>select!\<close> ends first.\<close>

record machine =
  mc_read :: "string \<Rightarrow> u8 list io_result"
  mc_show_path :: "string \<Rightarrow> string"
  mc_sys :: "socket_addr \<Rightarrow> sock_call list \<Rightarrow> sock_call \<Rightarrow> unit io_result"
  mc_ends :: "arm \<Rightarrow> unit io_result"
  mc_first :: arm

type_synonym tls_config = "u8 list list \<times> u8 list"

definition load_tls :: "tls_lib \<Rightarrow> machine \<Rightarrow> relay_server_config \<Rightarrow> tls_config option io_result" where
  "load_tls lib mc c =
     (case (tls_cert_path c, tls_key_path c) of
        (Some cert_path, Some key_path) \<Rightarrow>
          (case mc_read mc cert_path of
             Inl (k, e) \<Rightarrow> Inl (k, ''dig-relay: could not read tls_cert_path '' @ mc_show_path mc cert_path @ '': '' @ e)
           | Inr cert_pem \<Rightarrow>
               (case mc_read mc key_path of
                  Inl (k, e) \<Rightarrow> Inl (k, ''dig-relay: could not read tls_key_path '' @ mc_show_path mc key_path @ '': '' @ e)
                | Inr key_pem \<Rightarrow>
                    (case load_pem_identity lib cert_pem key_pem of
                       Inl e \<Rightarrow> Inl (InvalidData, e)
                     | Inr (chain, key) \<Rightarrow>
                         (case build_server_config lib chain key of
                            Inl e \<Rightarrow> Inl (InvalidData, e)
                          | Inr server_config \<Rightarrow> Inr (Some server_config)))))
      | _ \<Rightarrow> Inr None)"

definition run_arm :: "machine \<Rightarrow> relay_server_config \<Rightarrow> arm \<Rightarrow> unit io_result" where
  "run_arm mc c a =
     (let bound = (case a of
            RelayArm \<Rightarrow> fst (bind_tcp_dual_stack (mc_sys mc (listen c)) (listen c))
          | HealthArm \<Rightarrow> fst (bind_tcp_dual_stack (mc_sys mc (health_listen c)) (health_listen c))
          | StunArm \<Rightarrow> fst (bind_udp_dual_stack (mc_sys mc (stun_listen c)) (stun_listen c))
          | ShutdownArm \<Rightarrow> Inr ())
      in case bound of
           Inl e \<Rightarrow> Inl e
         | Inr _ \<Rightarrow> if a = ShutdownArm then Inr () else mc_ends mc a)"

text \<open>The result of serving, and the TLS setting it served with once it came to that.\<close>

definition serve_with_shutdown ::
  "tls_lib \<Rightarrow> machine \<Rightarrow> relay_server_config \<Rightarrow> unit io_result \<times> tls_config option option" where
  "serve_with_shutdown lib mc c =
     (case validate c of
        Inl e \<Rightarrow> (Inl (InvalidInput, e), None)
      | Inr _ \<Rightarrow>
          (case load_tls lib mc c of
             Inl e \<Rightarrow> (Inl e, None)
           | Inr tls \<Rightarrow> (run_arm mc c (mc_first mc), Some tls)))"

section \<open>The Windows service\<close>

datatype control = Interrogate | StopControl | OtherControl
datatype control_result = NoError | NotImplemented

text \<open>The control handler: its answer, and whether it signals the shutdown.\<close>

fun event_handler :: "control \<Rightarrow> control_result \<times> bool" where
  "event_handler Interrogate = (NoError, False)"
| "event_handler StopControl = (NoError, True)"
| "event_handler OtherControl = (NotImplemented, False)"

record scm_status =
  sc_running :: bool
  sc_accepts_stop :: bool
  sc_exit :: nat

definition run_service ::
  "unit io_result \<Rightarrow> unit io_result \<Rightarrow> unit io_result \<Rightarrow> unit io_result \<Rightarrow> unit io_result \<times> scm_status list" where
  "run_service registered set_running runtime served =
     (case registered of
        Inl e \<Rightarrow> (Inl e, [])
      | Inr _ \<Rightarrow>
          (case set_running of
             Inl e \<Rightarrow> (Inl e, [])
           | Inr _ \<Rightarrow>
               (let up = \<lparr>sc_running = True, sc_accepts_stop = True, sc_exit = 0\<rparr>
                in case runtime of
                     Inl e \<Rightarrow> (Inl e, [up])
                   | Inr _ \<Rightarrow>
                       (served, [up, \<lparr>sc_running = False, sc_accepts_stop = False,
                          sc_exit = (case served of Inr _ \<Rightarrow> 0 | Inl _ \<Rightarrow> 1)\<rparr>]))))"

section \<open>Coming up\<close>

lemma run_calls_prefix: "prefix (snd (run_calls sys made cs)) (made @ cs)"
proof (induction cs arbitrary: made)
  case (Cons c cs)
  then show ?case using Cons [of "made @ [c]"] by (auto split: sum.splits)
qed simp

text \<open>Whatever fails, an IPv6 socket is bound only after \<^verbatim>\<open>IPV6_V6ONLY\<close> was cleared on it, and an IPv4 one is
  never asked to.\<close>

lemma bound_dual_stack:
  assumes "snd (bind_tcp_dual_stack sys addr) = pre @ BindTo a # post"
  shows "a = addr \<and> (SetOnlyV6 False \<in> set pre \<longleftrightarrow> \<not> ip_is_ipv4 (sa_ip addr))"
proof -
  have "prefix (pre @ BindTo a # post)
      (new_dual_stack_socket addr True @ [ListenOn 128, SetNonblocking True, FromStd])"
    using run_calls_prefix [of sys "[]" "new_dual_stack_socket addr True @ [ListenOn 128, SetNonblocking True, FromStd]"]
      assms by (simp add: bind_tcp_dual_stack_def)
  then show ?thesis
    by (cases "ip_is_ipv4 (sa_ip addr)")
       (auto simp: new_dual_stack_socket_def prefix_def Cons_eq_append_conv append_eq_Cons_conv)
qed

lemma load_tls_paths:
  assumes "validate c = Inr ()" "load_tls lib mc c = Inr tls"
  shows "(tls = None \<longleftrightarrow> tls_cert_path c = None) \<and> (tls = None \<longleftrightarrow> tls_key_path c = None)"
proof -
  have "tls_cert_path c = None \<longleftrightarrow> tls_key_path c = None"
    using assms(1) by (auto simp: validate_def split: if_splits)
  with assms(2) show ?thesis
    by (auto simp: load_tls_def split: option.splits sum.splits)
qed

text \<open>C40. Starting the relay fails closed. Serving begins only on a valid configuration, and with mTLS
  exactly when a certificate and a key are configured: an identity that cannot be read, parsed or
  used ends the start with an error, never with a plain listener, and an invalid configuration is
  refused before a file is read. Once serving, the process ends well exactly when what ends first
  (a listener, whose failure to bind counts, or the shutdown) does.\<close>

theorem serve_fails_closed:
  "(\<forall>tls. snd (serve_with_shutdown lib mc c) = Some tls \<longrightarrow>
      validate c = Inr () \<and> (tls \<noteq> None \<longleftrightarrow> tls_cert_path c \<noteq> None) \<and> (tls \<noteq> None \<longleftrightarrow> tls_key_path c \<noteq> None)
      \<and> fst (serve_with_shutdown lib mc c) = run_arm mc c (mc_first mc))
   \<and> (snd (serve_with_shutdown lib mc c) = None \<longrightarrow> (\<exists>e. fst (serve_with_shutdown lib mc c) = Inl e))
   \<and> (\<forall>e. validate c = Inl e \<longrightarrow> serve_with_shutdown lib mc c = (Inl (InvalidInput, e), None))"
proof (intro conjI allI impI)
  fix tls assume s: "snd (serve_with_shutdown lib mc c) = Some tls"
  then have v: "validate c = Inr ()" and t: "load_tls lib mc c = Inr tls"
    by (auto simp: serve_with_shutdown_def split: sum.splits)
  from load_tls_paths [OF v t] show "tls \<noteq> None \<longleftrightarrow> tls_cert_path c \<noteq> None" "tls \<noteq> None \<longleftrightarrow> tls_key_path c \<noteq> None"
    by auto
  show "validate c = Inr ()" "fst (serve_with_shutdown lib mc c) = run_arm mc c (mc_first mc)"
    using v t by (simp_all add: serve_with_shutdown_def)
next
  assume "snd (serve_with_shutdown lib mc c) = None"
  then show "\<exists>e. fst (serve_with_shutdown lib mc c) = Inl e"
    by (auto simp: serve_with_shutdown_def split: sum.splits)
next
  show "serve_with_shutdown lib mc c = (Inl (InvalidInput, e), None)" if "validate c = Inl e" for e
    using that by (simp add: serve_with_shutdown_def)
qed

text \<open>A machine on which every call succeeds and the relay is shut down; one path of the identity is not there.\<close>

definition demo_machine :: machine where
  "demo_machine = \<lparr>mc_read = (\<lambda>p. if p = ''cert.pem'' then Inr [1] else Inl (NotFound, ''no such file'')),
     mc_show_path = id, mc_sys = (\<lambda>_ _ _. Inr ()), mc_ends = (\<lambda>_. Inr ()), mc_first = ShutdownArm\<rparr>"

theorem serve_fails_closed_witness:
  "\<exists>e. serve_with_shutdown demo_tls_lib demo_machine
         (default_config\<lparr>tls_cert_path := Some ''cert.pem'', tls_key_path := Some ''key.pem''\<rparr>) = (Inl e, None)"
proof -
  let ?c = "default_config\<lparr>tls_cert_path := Some ''cert.pem'', tls_key_path := Some ''key.pem''\<rparr>"
  have "\<exists>e. load_tls demo_tls_lib demo_machine ?c = Inl e"
    by (simp add: load_tls_def demo_machine_def)
  then have "snd (serve_with_shutdown demo_tls_lib demo_machine ?c) = None"
    by (auto simp: serve_with_shutdown_def split: sum.split)
  with serve_fails_closed [of demo_tls_lib demo_machine ?c] show ?thesis
    by (metis prod.collapse)
qed

end
