(* ===== verification/Relay_System.thy ===== *)
theory Relay_System
  imports Tls_Identity Http_Serve
begin

text \<open>
  The relay as a whole: the accept loop of \<^verbatim>\<open>run\<close>, one \<^verbatim>\<open>handle_connection\<close> task and one writer task
  per connection, the health sweep, the PEX housekeeping and the DHT sweep, all on one shared
  state. A task stops at every \<^verbatim>\<open>.await\<close> at which the source may let another task run; its phase says
  where it stopped and what it holds there. One event is one section between two such points, and
  \<open>step\<close> is what it does, or \<open>None\<close> where the task is not there. The lemmas \<open>frame_sections\<close>
  and \<open>deregister_sections\<close> say that sections run without interruption are the handlers of \<open>Server\<close>.
  The runs at the end are evaluated: they show what the checks between sections miss.
\<close>

section \<open>Tasks and events\<close>

type_synonym departure = "string \<times> string \<times> (string \<times> chan_id) list"

datatype phase =
    PAccepted
  | PGated
  | POpen conn_slot
  | PLoop conn
  | PAdmitted conn reg_request reg_slot
  | PCommitted conn reg_request reg_slot
  | PLeaving conn
  | PDeparting conn string string
  | PDraining conn
  | PDone

datatype writer = WNone | WRun | WSend | WClose | WEnd

record task =
  t_addr :: socket_addr
  t_verified :: "string option"
  t_phase :: phase
  t_writer :: writer

record ('e, 'm) system =
  sy_state :: "('e, 'm) relay_state"
  sy_tasks :: "task list"
  sy_pruned :: "departure list"
  sy_dht_asked :: bool

definition system_new :: "relay_server_config \<Rightarrow> ('e, 'm) system" where
  "system_new config =
     \<lparr>sy_state = relay_state_new config, sy_tasks = [], sy_pruned = [], sy_dht_asked = False\<rparr>"

text \<open>
  A connection is named by its position in the list of tasks. The clock readings of a section and
  what it receives from outside (the accepted stream, the request head, whether the WebSocket
  handshake and a write succeed) are arguments of its event.
\<close>

datatype event =
    EvAccept transport socket_addr bool
  | EvGate conn_id u64
  | EvSlot conn_id u64
  | EvHead conn_id "request_head option" bool u64 u64
  | EvFrame conn_id "u8 list" frame_clocks
  | EvCommit conn_id u64
  | EvMirror conn_id u64
  | EvLeave conn_id
  | EvDeregister conn_id
  | EvDepart conn_id
  | EvWrite conn_id
  | EvWritePex conn_id
  | EvSent conn_id bool
  | EvDrained conn_id
  | EvWriterEnd conn_id
  | EvFinish conn_id
  | EvSweep u64
  | EvPrune
  | EvTick u64
  | EvDhtAsk
  | EvDhtBuild u64

definition phase_of :: "('e, 'm) system \<Rightarrow> conn_id \<Rightarrow> phase" where
  "phase_of s c = (if c < length (sy_tasks s) then t_phase (sy_tasks s ! c) else PDone)"

definition writer_of :: "('e, 'm) system \<Rightarrow> conn_id \<Rightarrow> writer" where
  "writer_of s c = (if c < length (sy_tasks s) then t_writer (sy_tasks s ! c) else WNone)"

definition moved :: "('e, 'm) system \<Rightarrow> conn_id \<Rightarrow> ('e, 'm) relay_state \<Rightarrow> phase \<Rightarrow> ('e, 'm) system" where
  "moved s c st ph = s\<lparr>sy_state := st, sy_tasks := (sy_tasks s)[c := (sy_tasks s ! c)\<lparr>t_phase := ph\<rparr>]\<rparr>"

definition wrote :: "('e, 'm) system \<Rightarrow> conn_id \<Rightarrow> ('e, 'm) relay_state \<Rightarrow> writer \<Rightarrow> ('e, 'm) system" where
  "wrote s c st w = s\<lparr>sy_state := st, sy_tasks := (sy_tasks s)[c := (sy_tasks s ! c)\<lparr>t_writer := w\<rparr>]\<rparr>"

text \<open>Whether a sender of the outbound channel of \<open>c\<close> is still alive: the task's own, the ones in the
  registry, and the clones the sweep has yet to use.\<close>

fun holds_own_sender :: "phase \<Rightarrow> bool" where
  "holds_own_sender (PLoop _) = True"
| "holds_own_sender (PAdmitted _ _ _) = True"
| "holds_own_sender (PCommitted _ _ _) = True"
| "holds_own_sender (PLeaving _) = True"
| "holds_own_sender (PDeparting _ _ _) = True"
| "holds_own_sender _ = False"

definition sender_held :: "('e, 'm) system \<Rightarrow> conn_id \<Rightarrow> bool" where
  "sender_held s c \<longleftrightarrow> holds_own_sender (phase_of s c)
     \<or> c \<in> p_tx ` snd ` set (st_registry (sy_state s))
     \<or> (\<exists>(_, _, targets) \<in> set (sy_pruned s). c \<in> snd ` set targets)"

text \<open>The read loop up to the first lock of \<^verbatim>\<open>register_peer\<close>, for a frame that is a registration.\<close>

definition frame_request :: "('e, 'm) env \<Rightarrow> conn \<Rightarrow> u8 list \<Rightarrow> frame_clocks \<Rightarrow> reg_request option" where
  "frame_request env k frame clk =
     (if fst (admit (c_limiter k) (length frame) (fc_admit clk)) = Disconnect
        \<or> is_pex_frame (e_peek env) frame then None
      else (case e_decode env frame of
              Some (Register i n v addrs) \<Rightarrow>
                Some \<lparr>rq_peer_id = i, rq_network_id = n, rq_protocol_version = v, rq_listen_addrs = addrs\<rparr>
            | _ \<Rightarrow> None))"

definition stamp :: "('e, 'm) relay_state \<Rightarrow> conn_id \<Rightarrow> u64 \<Rightarrow> ('e, 'm) relay_state" where
  "stamp st c now = st\<lparr>cells := (cells st)(c := now)\<rparr>"

definition metered :: "conn \<Rightarrow> u8 list \<Rightarrow> frame_clocks \<Rightarrow> conn" where
  "metered k frame clk = k\<lparr>c_limiter := snd (admit (c_limiter k) (length frame) (fc_admit clk))\<rparr>"

definition frame_section ::
  "('e, 'm) env \<Rightarrow> ('e, 'm) relay_state \<Rightarrow> conn \<Rightarrow> u8 list \<Rightarrow> frame_clocks \<Rightarrow> ('e, 'm) relay_state \<times> phase" where
  "frame_section env st k frame clk =
     (case frame_request env k frame clk of
        Some rq \<Rightarrow>
          (let k1 = metered k frame clk in
           case register_admit (stamp st (c_id k) (fc_live clk)) (c_id k) (sa_ip (c_addr k))
                  (rc_rate (fc_reg clk)) (rc_strike (fc_reg clk)) of
             (None, st1) \<Rightarrow> (st1, PLeaving k1)
           | (Some slot, st1) \<Rightarrow> (st1, PAdmitted k1 rq slot))
      | None \<Rightarrow>
          (case handle_frame env st k frame clk of
             (cont, st1, k1) \<Rightarrow> (st1, if cont then PLoop k1 else PLeaving k1)))"

definition commit_section ::
  "('e, 'm) env \<Rightarrow> ('e, 'm) relay_state \<Rightarrow> conn \<Rightarrow> reg_request \<Rightarrow> reg_slot \<Rightarrow> u64 \<Rightarrow> ('e, 'm) relay_state \<times> phase" where
  "commit_section env st k rq slot now =
     (case register_commit env st (c_id k) (rq_peer_id rq) (rq_network_id rq) (rq_protocol_version rq)
             (rq_listen_addrs rq) (sa_ip (c_addr k)) (c_verified k) now of
        (False, st1) \<Rightarrow> (st1\<lparr>st_abuse := drop_reg_slot slot (st_abuse st1)\<rparr>, PLeaving k)
      | (True, st1) \<Rightarrow> (st1, PCommitted k rq slot))"

definition mirror_section ::
  "('e, 'm) env \<Rightarrow> ('e, 'm) relay_state \<Rightarrow> conn \<Rightarrow> reg_request \<Rightarrow> reg_slot \<Rightarrow> u64 \<Rightarrow> ('e, 'm) relay_state \<times> phase" where
  "mirror_section env st k rq slot now =
     (case register_mirror env st (c_session k) (c_id k) (rq_peer_id rq) (rq_network_id rq) (c_addr k)
             (c_reg_slot k) slot now of
        (st1, s, held) \<Rightarrow> (st1, PLoop (k\<lparr>c_session := s, c_reg_slot := held\<rparr>)))"

text \<open>\<^verbatim>\<open>deregister\<close> up to the PEX lock, and from there.\<close>

definition deregister_section :: "('e, 'm) relay_state \<Rightarrow> conn \<Rightarrow> ('e, 'm) relay_state \<times> phase" where
  "deregister_section st k =
     (case (s_peer_id (c_session k), s_network_id (c_session k)) of
        (Some i, Some n) \<Rightarrow>
          (case remove_locked st i n of
             (None, st1) \<Rightarrow> (st1, PDraining k)
           | (Some targets, st1) \<Rightarrow> (notify st1 targets (PeerDisconnected i), PDeparting k i n))
      | _ \<Rightarrow> (st, PDraining k))"

definition depart_section :: "('e, 'm) env \<Rightarrow> ('e, 'm) relay_state \<Rightarrow> string \<Rightarrow> string \<Rightarrow> ('e, 'm) relay_state" where
  "depart_section env st i n = st\<lparr>st_pex := on_unregister (e_engine env) (st_pex st) i n\<rparr>"

text \<open>What comes of an opened connection: a WebSocket, or an answer to an HTTP request and the end.\<close>

definition head_section ::
  "('e, 'm) system \<Rightarrow> conn_id \<Rightarrow> conn_slot \<Rightarrow> request_head option \<Rightarrow> bool \<Rightarrow> u64 \<Rightarrow> u64 \<Rightarrow> ('e, 'm) system" where
  "head_section s c slot head handshake_ok now_live now =
     (if (case head of Some h \<Rightarrow> is_websocket_upgrade h | None \<Rightarrow> False) \<and> handshake_ok then
        (let t = sy_tasks s ! c;
             (st1, k) = ws_start (sy_state s) c (t_addr t) (t_verified t) slot now_live now
         in wrote (moved s c st1 (PLoop k)) c st1 WRun)
      else moved s c (release_conn (sy_state s) slot) PDone)"

record 't front =
  fr_lib :: tls_lib
  fr_acceptor :: "'t acceptor option"

fun step :: "('e, 'm) env \<Rightarrow> 't front \<Rightarrow> ('e, 'm) system \<Rightarrow> event \<Rightarrow> ('e, 'm) system option" where
  "step env fr s (EvAccept stream addr timed_out) =
     (case connection_start (st_config (sy_state s)) (fr_lib fr) (fr_acceptor fr) stream addr timed_out of
        None \<Rightarrow> Some s
      | Some (_, a, v) \<Rightarrow>
          Some (s\<lparr>sy_tasks := sy_tasks s @
            [\<lparr>t_addr = a, t_verified = v, t_phase = PAccepted, t_writer = WNone\<rparr>]\<rparr>))"
| "step env fr s (EvGate c now) =
     (case phase_of s c of
        PAccepted \<Rightarrow>
          (case accept_gate (sy_state s) (sa_ip (t_addr (sy_tasks s ! c))) now of
             (ok, st1) \<Rightarrow> Some (moved s c st1 (if ok then PGated else PDone)))
      | _ \<Rightarrow> None)"
| "step env fr s (EvSlot c now) =
     (case phase_of s c of
        PGated \<Rightarrow>
          (case accept_slot (sy_state s) (sa_ip (t_addr (sy_tasks s ! c))) now of
             (Some slot, st1) \<Rightarrow> Some (moved s c st1 (POpen slot))
           | (None, st1) \<Rightarrow> Some (moved s c st1 PDone))
      | _ \<Rightarrow> None)"
| "step env fr s (EvHead c head handshake_ok now_live now) =
     (case phase_of s c of
        POpen slot \<Rightarrow> Some (head_section s c slot head handshake_ok now_live now)
      | _ \<Rightarrow> None)"
| "step env fr s (EvFrame c frame clk) =
     (case phase_of s c of
        PLoop k \<Rightarrow> (case frame_section env (sy_state s) k frame clk of (st1, ph) \<Rightarrow> Some (moved s c st1 ph))
      | _ \<Rightarrow> None)"
| "step env fr s (EvCommit c now) =
     (case phase_of s c of
        PAdmitted k rq slot \<Rightarrow>
          (case commit_section env (sy_state s) k rq slot now of (st1, ph) \<Rightarrow> Some (moved s c st1 ph))
      | _ \<Rightarrow> None)"
| "step env fr s (EvMirror c now) =
     (case phase_of s c of
        PCommitted k rq slot \<Rightarrow>
          (case mirror_section env (sy_state s) k rq slot now of (st1, ph) \<Rightarrow> Some (moved s c st1 ph))
      | _ \<Rightarrow> None)"
| "step env fr s (EvLeave c) =
     (case phase_of s c of PLoop k \<Rightarrow> Some (moved s c (sy_state s) (PLeaving k)) | _ \<Rightarrow> None)"
| "step env fr s (EvDeregister c) =
     (case phase_of s c of
        PLeaving k \<Rightarrow> (case deregister_section (sy_state s) k of (st1, ph) \<Rightarrow> Some (moved s c st1 ph))
      | _ \<Rightarrow> None)"
| "step env fr s (EvDepart c) =
     (case phase_of s c of
        PDeparting k i n \<Rightarrow> Some (moved s c (depart_section env (sy_state s) i n) (PDraining k))
      | _ \<Rightarrow> None)"
| "step env fr s (EvWrite c) =
     (case (writer_of s c, chan_recv (outs (sy_state s)) c) of
        (WRun, (Some _, cs)) \<Rightarrow> Some (wrote s c ((sy_state s)\<lparr>outs := cs\<rparr>) WSend)
      | _ \<Rightarrow> None)"
| "step env fr s (EvWritePex c) =
     (case (writer_of s c, chan_recv (pexs (sy_state s)) c) of
        (WRun, (Some _, cs)) \<Rightarrow> Some (wrote s c ((sy_state s)\<lparr>pexs := cs\<rparr>) WSend)
      | _ \<Rightarrow> None)"
| "step env fr s (EvSent c ok) =
     (case writer_of s c of
        WSend \<Rightarrow> Some (wrote s c (sy_state s) (if ok then WRun else WClose))
      | _ \<Rightarrow> None)"
| "step env fr s (EvDrained c) =
     (case writer_of s c of
        WRun \<Rightarrow>
          if ch_queue (outs (sy_state s) c) = [] \<and> \<not> sender_held s c
          then Some (wrote s c (sy_state s) WClose) else None
      | _ \<Rightarrow> None)"
| "step env fr s (EvWriterEnd c) =
     (case writer_of s c of
        WClose \<Rightarrow> Some (wrote s c ((sy_state s)\<lparr>outs := chan_close (outs (sy_state s)) c,
                                               pexs := chan_close (pexs (sy_state s)) c\<rparr>) WEnd)
      | _ \<Rightarrow> None)"
| "step env fr s (EvFinish c) =
     (case (phase_of s c, writer_of s c) of
        (PDraining k, WEnd) \<Rightarrow> Some (moved s c (finish_conn (sy_state s) k) PDone)
      | _ \<Rightarrow> None)"
| "step env fr s (EvSweep now) =
     (if sy_pruned s = [] then
        (case sweep_registry (sy_state s) now of
           (pruned, st1) \<Rightarrow> Some (s\<lparr>sy_state := st1, sy_pruned := pruned\<rparr>))
      else None)"
| "step env fr s EvPrune =
     (case sy_pruned s of
        [] \<Rightarrow> None
      | d # ds \<Rightarrow> Some (s\<lparr>sy_state := mirror_departure env (sy_state s) d, sy_pruned := ds\<rparr>))"
| "step env fr s (EvTick now) = Some (s\<lparr>sy_state := pex_housekeeping_tick env (sy_state s) now\<rparr>)"
| "step env fr s EvDhtAsk =
     (if sy_dht_asked s then None
      else Some (s\<lparr>sy_state := dht_sweep_ask (sy_state s), sy_dht_asked := True\<rparr>))"
| "step env fr s (EvDhtBuild now) =
     (if sy_dht_asked s
      then Some (s\<lparr>sy_state := dht_sweep_build (sy_state s) now, sy_dht_asked := False\<rparr>) else None)"

fun runs :: "('e, 'm) env \<Rightarrow> 't front \<Rightarrow> ('e, 'm) system \<Rightarrow> event list \<Rightarrow> ('e, 'm) system option" where
  "runs env fr s [] = Some s"
| "runs env fr s (e # es) = (case step env fr s e of None \<Rightarrow> None | Some s1 \<Rightarrow> runs env fr s1 es)"

inductive reachable ::
  "('e, 'm) env \<Rightarrow> 't front \<Rightarrow> relay_server_config \<Rightarrow> ('e, 'm) system \<Rightarrow> bool" for env fr config where
  start: "reachable env fr config (system_new config)"
| progress: "reachable env fr config s \<Longrightarrow> step env fr s e = Some s' \<Longrightarrow> reachable env fr config s'"

lemma runs_reachable: "runs env fr s es = Some s' \<Longrightarrow> reachable env fr config s \<Longrightarrow> reachable env fr config s'"
  by (induction es arbitrary: s) (auto intro: reachable.intros split: option.splits)

text \<open>The steps a connection's own tasks take once it has left its read loop.\<close>

definition own_events :: "conn_id \<Rightarrow> event list" where
  "own_events c = [EvDeregister c, EvDepart c, EvWrite c, EvWritePex c, EvSent c True, EvSent c False,
     EvDrained c, EvWriterEnd c, EvFinish c]"

section \<open>Uninterrupted sections are the handlers\<close>

definition settle :: "('e, 'm) env \<Rightarrow> reg_clocks \<Rightarrow> ('e, 'm) relay_state \<times> phase \<Rightarrow> ('e, 'm) relay_state \<times> phase" where
  "settle env clk x =
     (case x of
        (st, PAdmitted k rq slot) \<Rightarrow>
          (case commit_section env st k rq slot (rc_unix clk) of
             (st1, PCommitted k1 rq1 slot1) \<Rightarrow> mirror_section env st1 k1 rq1 slot1 (rc_pex clk)
           | y \<Rightarrow> y)
      | y \<Rightarrow> y)"

lemma handle_frame_request:
  assumes "frame_request env k frame clk = Some rq"
  shows "handle_frame env st k frame clk =
    (case register_peer env (stamp st (c_id k) (fc_live clk)) (c_session k) (c_id k) rq (c_addr k)
            (c_verified k) (c_reg_slot k) (fc_reg clk) of
       (ok, st1, s, slot) \<Rightarrow> (ok, st1, (metered k frame clk)\<lparr>c_session := s, c_reg_slot := slot\<rparr>))"
proof -
  obtain verdict l where adm: "admit (c_limiter k) (length frame) (fc_admit clk) = (verdict, l)" by force
  with assms obtain i n v addrs where m: "e_decode env frame = Some (Register i n v addrs)"
    "verdict \<noteq> Disconnect" "\<not> is_pex_frame (e_peek env) frame"
    "rq = \<lparr>rq_peer_id = i, rq_network_id = n, rq_protocol_version = v, rq_listen_addrs = addrs\<rparr>"
    by (auto simp: frame_request_def split: if_splits option.splits relay_message.splits)
  with adm show ?thesis
    by (simp add: handle_frame_def handle_message_def perform_def dispatch_def record_dht_answer_def
        stamp_def metered_def split: prod.splits)
qed

lemma frame_sections:
  assumes "handle_frame env st k frame clk = (cont, st', k')"
  shows "settle env (fc_reg clk) (frame_section env st k frame clk) = (st', if cont then PLoop k' else PLeaving k')"
proof (cases "frame_request env k frame clk")
  case None
  with assms show ?thesis by (simp add: frame_section_def settle_def)
next
  case (Some rq)
  let ?k = "metered k frame clk"
  have k: "c_session ?k = c_session k" "c_id ?k = c_id k" "c_addr ?k = c_addr k"
    "c_verified ?k = c_verified k" "c_reg_slot ?k = c_reg_slot k"
    by (simp_all add: metered_def)
  have same: "?k\<lparr>c_session := c_session k, c_reg_slot := c_reg_slot k\<rparr> = ?k" by (simp add: metered_def)
  obtain a st1 where adm: "register_admit (stamp st (c_id k) (fc_live clk)) (c_id k) (sa_ip (c_addr k))
      (rc_rate (fc_reg clk)) (rc_strike (fc_reg clk)) = (a, st1)" by force
  show ?thesis
  proof (cases a)
    case None
    with assms Some adm same show ?thesis
      by (simp add: frame_section_def settle_def handle_frame_request [OF Some] register_peer_def)
  next
    case (Some slot)
    obtain ok st2 where com: "register_commit env st1 (c_id k) (rq_peer_id rq) (rq_network_id rq)
        (rq_protocol_version rq) (rq_listen_addrs rq) (sa_ip (c_addr k)) (c_verified k) (rc_unix (fc_reg clk)) = (ok, st2)"
      by force
    have "frame_section env st k frame clk = (st1, PAdmitted ?k rq slot)"
      using \<open>frame_request env k frame clk = Some rq\<close> adm Some by (simp add: frame_section_def Let_def)
    moreover note assms [unfolded handle_frame_request [OF \<open>frame_request env k frame clk = Some rq\<close>]]
    ultimately show ?thesis using adm Some com k same
      by (cases ok) (auto simp: settle_def commit_section_def mirror_section_def register_peer_def split: prod.splits)
  qed
qed

lemma deregister_sections:
  "(case deregister_section st k of
      (st1, PDeparting _ i n) \<Rightarrow> depart_section env st1 i n
    | (st1, _) \<Rightarrow> st1) = deregister env st (c_session k)"
  by (auto simp: deregister_section_def depart_section_def deregister_def mirror_departure_def Let_def
      split: option.splits prod.splits)

section \<open>Runs\<close>

definition sys_env :: "(string list, nat) env" where
  "sys_env = demo_env\<lparr>e_decode := (\<lambda>f. if f = [1] then Some (Register ''a'' ''net'' 1 [])
     else if f = [2] then Some (Register ''b'' ''net'' 1 []) else None)\<rparr>"

definition sys_front :: "unit front" where
  "sys_front = \<lparr>fr_lib = demo_tls_lib, fr_acceptor = None\<rparr>"

definition sys_clk :: "u64 \<Rightarrow> frame_clocks" where
  "sys_clk t = \<lparr>fc_live = t, fc_admit = t, fc_strike = t, fc_pex = t, fc_reg = demo_clk\<rparr>"

definition upgrade_head :: request_head where
  "upgrade_head = \<lparr>rh_method = ''GET'', rh_target = ''/'', rh_host = None, is_websocket_upgrade = True\<rparr>"

definition open_events :: "conn_id \<Rightarrow> event list" where
  "open_events c = [EvAccept [] (mk_sa (V4 7) 1) False, EvGate c 1, EvSlot c 1, EvHead c (Some upgrade_head) True 1 1]"

definition register_events :: "conn_id \<Rightarrow> u8 \<Rightarrow> event list" where
  "register_events c b = [EvFrame c [b] (sys_clk 1), EvCommit c 1, EvMirror c 1]"

definition sys_config :: relay_server_config where
  "sys_config = default_config\<lparr>max_connections_per_ip := 0, registrations_per_ip_per_sec := 0,
     max_registrations_per_ip := 0, messages_per_conn_per_sec := 0, bytes_per_conn_per_sec := 0,
     max_relayed_bytes_per_conn := 0, ban_threshold := 0\<rparr>"

lemmas run_defs = sys_env_def demo_env_def sys_front_def sys_clk_def upgrade_head_def demo_clk_def
  system_new_def relay_state_new_def abuse_policy_new_def registry_new_def pex_relay_new_def
  connection_start_def resolve_source_def trusts_def phase_of_def writer_of_def moved_def wrote_def Let_def
  accept_gate_def is_banned_def accept_slot_def open_guard_acquire_def open_guard_drop_def try_acquire_conn_def
  head_section_def ws_start_def frame_section_def frame_request_def admit_def is_pex_frame_def
  per_conn_limiter_new_def metered_def stamp_def register_admit_def allow_registration_def
  try_acquire_registration_def commit_section_def register_commit_def register_def registry_len_def
  resolve_dialable_def reply_def notify_def broadcast_targets_def mirror_section_def register_mirror_def
  on_register_def engine_for_def list_engine_def


lemmas run_simps = open_events_def register_events_def run_defs sys_config_def default_config_def default_defs
  deregister_section_def remove_locked_def unregister_def sweep_registry_def dead_or_stale_def is_closed_def
  mirror_departure_def on_unregister_def chan_new_def no_chans_def try_send_def as_secs_def from_secs_def sat_sub_def chan_recv_def depart_section_def sender_held_def

text \<open>The sweep removes a peer whose connection has been silent for too long. The peer reconnects and
  registers its id anew; then its first connection ends, and takes the new registration with it.\<close>

lemma teardown_evicts_successor:
  "\<exists>s s' p. reachable sys_env sys_front sys_config s
     \<and> map_of (st_registry (sy_state s)) ''a'' = Some p \<and> p_tx p = 1 \<and> \<not> is_closed (outs (sy_state s)) 1
     \<and> step sys_env sys_front s (EvDeregister 0) = Some s'
     \<and> st_registry (sy_state s') = [] \<and> (\<exists>k. phase_of s' 1 = PLoop k \<and> s_peer_id (c_session k) = Some ''a'')"
proof -
  let ?es = "open_events 0 @ register_events 0 1 @ [EvSweep 1000, EvPrune] @ open_events 1 @ register_events 1 1
    @ [EvLeave 0]"
  have "\<exists>s s' p. runs sys_env sys_front (system_new sys_config) ?es = Some s
     \<and> map_of (st_registry (sy_state s)) ''a'' = Some p \<and> p_tx p = 1 \<and> \<not> is_closed (outs (sy_state s)) 1
     \<and> step sys_env sys_front s (EvDeregister 0) = Some s'
     \<and> st_registry (sy_state s') = [] \<and> (\<exists>k. phase_of s' 1 = PLoop k \<and> s_peer_id (c_session k) = Some ''a'')"
    by (simp add: run_simps)
  then show ?thesis using runs_reachable reachable.start by blast
qed

text \<open>A connection registers two ids and ends. Only the second is removed; the first stays in the
  registry with a sender of the connection's channel, so its writer waits and its slots stay taken.\<close>

lemma second_id_blocks_teardown:
  "\<exists>s k. reachable sys_env sys_front sys_config s \<and> phase_of s 0 = PDraining k
     \<and> map fst (st_registry (sy_state s)) = [''a''] \<and> open_connections (sy_state s) = 1
     \<and> list_all (\<lambda>e. step sys_env sys_front s e = None) (own_events 0)"
proof -
  let ?es = "open_events 0 @ register_events 0 1 @ register_events 0 2 @ [EvLeave 0, EvDeregister 0, EvDepart 0]
    @ [EvWrite 0, EvSent 0 True, EvWrite 0, EvSent 0 True, EvWrite 0, EvSent 0 True, EvWrite 0, EvSent 0 True]"
  have "\<exists>s k. runs sys_env sys_front (system_new sys_config) ?es = Some s \<and> phase_of s 0 = PDraining k
     \<and> map fst (st_registry (sy_state s)) = [''a''] \<and> open_connections (sy_state s) = 1
     \<and> list_all (\<lambda>e. step sys_env sys_front s e = None) (own_events 0)"
    by (simp add: run_simps own_events_def)
  then show ?thesis by (elim exE conjE) (intro exI conjI, rule runs_reachable [OF _ reachable.start])
qed

text \<open>The open-connection counter is read in one section and moved in the next: two connections that
  both read it first are both admitted, above the cap.\<close>

lemma open_cap_overrun:
  "\<exists>s. reachable sys_env sys_front (sys_config\<lparr>max_connections := 1\<rparr>) s \<and> open_connections (sy_state s) = 2"
proof -
  let ?es = "[EvAccept [] (mk_sa (V4 7) 1) False, EvAccept [] (mk_sa (V4 8) 1) False, EvGate 0 1, EvGate 1 1,
    EvSlot 0 1, EvSlot 1 1]"
  have "\<exists>s. runs sys_env sys_front (system_new (sys_config\<lparr>max_connections := 1\<rparr>)) ?es = Some s
     \<and> open_connections (sy_state s) = 2"
    by (simp add: run_simps)
  then show ?thesis by (elim exE conjE) (intro exI conjI, rule runs_reachable [OF _ reachable.start])
qed

end
