(* ===== verification/Relay_Invariants.thy ===== *)
theory Relay_Invariants
  imports Relay_System
begin

text \<open>
  What holds in every state the relay can reach, whatever the clients send and however the tasks are
  interleaved: the counters and the per-source slots are exact, the queues are bounded, an id is only
  ever held by a connection that may hold it, and a live registration is displaced only by the sweep
  or by a connection that was itself entitled to the id. A section is either quiet (it moves neither
  the registry nor a counter nor a slot) or has a lemma of its own; \<open>moved_ok\<close> and \<open>moved_quiet\<close>
  carry the invariant over a section of one task, whatever the others hold.
\<close>

section \<open>Sections that leave the books alone\<close>

definition queues_ok :: "nat \<Rightarrow> 'a chans \<Rightarrow> bool" where
  "queues_ok n cs \<longleftrightarrow> (\<forall>d. length (ch_queue (cs d)) \<le> ch_cap (cs d) \<and> ch_cap (cs d) \<le> n)"

lemma queues_ok_try_send [simp]: "queues_ok n cs \<Longrightarrow> queues_ok n (try_send cs c m)"
  by (auto simp: queues_ok_def try_send_def)

lemma queues_ok_send_each [simp]: "queues_ok n cs \<Longrightarrow> queues_ok n (send_each cs ms)"
proof (induction ms arbitrary: cs)
  case (Cons m ms)
  then show ?case by (cases m) simp
qed simp

lemma queues_ok_close [simp]: "queues_ok n cs \<Longrightarrow> queues_ok n (chan_close cs c)"
  by (simp add: queues_ok_def chan_close_def)

lemma queues_ok_new [simp]: "queues_ok n cs \<Longrightarrow> queues_ok n (chan_new cs c n)"
  by (simp add: queues_ok_def chan_new_def)

lemma queues_ok_recv: "queues_ok n cs \<Longrightarrow> chan_recv cs c = (x, cs') \<Longrightarrow> queues_ok n cs'"
  unfolding queues_ok_def chan_recv_def
  by (auto split: list.splits) (metis Suc_leD length_Cons)

text \<open>A quiet section moves neither the registry nor a counter nor a slot, and only sends.\<close>

definition quiet :: "('e, 'm) relay_state \<Rightarrow> ('e, 'm) relay_state \<Rightarrow> bool" where
  "quiet st st' \<longleftrightarrow> st_registry st' = st_registry st \<and> connected st' = connected st
     \<and> open_connections st' = open_connections st \<and> st_config st' = st_config st \<and> st_policy st' = st_policy st
     \<and> conns_per_ip (st_abuse st') = conns_per_ip (st_abuse st)
     \<and> regs_per_ip (st_abuse st') = regs_per_ip (st_abuse st)
     \<and> (\<forall>n. queues_ok n (outs st) \<longrightarrow> queues_ok n (outs st'))
     \<and> (\<forall>n. queues_ok n (pexs st) \<longrightarrow> queues_ok n (pexs st'))
     \<and> (\<forall>d. ch_open (outs st' d) \<longrightarrow> ch_open (outs st d))"

named_theorems quiet

lemma quiet_refl [simp]: "quiet st st"
  by (simp add: quiet_def)

lemma quiet_trans: "quiet a b \<Longrightarrow> quiet b c \<Longrightarrow> quiet a c"
  by (simp add: quiet_def)

lemma quiet_reply [quiet]: "quiet st0 st \<Longrightarrow> quiet st0 (reply st c m)"
  by (simp add: quiet_def)

lemma quiet_notify [quiet]: "quiet st0 st \<Longrightarrow> quiet st0 (notify st ts m)"
  by (simp add: quiet_def)

lemma quiet_refuse [quiet]: "quiet st0 st \<Longrightarrow> quiet st0 (refuse_register st c code t n)"
  by (simp add: refuse_register_def quiet_reply)

lemma quiet_outs [quiet]: "quiet st0 st \<Longrightarrow> quiet st0 (st\<lparr>outs := send_each (outs st) ms\<rparr>)"
  by (simp add: quiet_def)

lemma quiet_pex_replies [quiet]: "quiet st0 st \<Longrightarrow> quiet st0 (pex_replies st c ms)"
  by (simp add: quiet_def pex_replies_def)

lemma quiet_pex [quiet]: "quiet st0 st \<Longrightarrow> quiet st0 (st\<lparr>st_pex := p\<rparr>)"
  by (simp add: quiet_def)

lemma quiet_cells [quiet]: "quiet st0 st \<Longrightarrow> quiet st0 (st\<lparr>cells := f\<rparr>)"
  by (simp add: quiet_def)

lemma quiet_strike [quiet]:
  "quiet st0 st \<Longrightarrow> quiet st0 (st\<lparr>st_abuse := record_strike p (st_abuse st) ip now\<rparr>)"
  by (simp add: quiet_def)

lemma quiet_relayed [quiet]: "quiet st0 st \<Longrightarrow> quiet st0 (record_relayed st msg)"
  by (simp add: quiet_def)

lemma quiet_dht_answer [quiet]: "quiet st0 st \<Longrightarrow> quiet st0 (record_dht_answer st s msg)"
  by (simp add: quiet_def)

lemma quiet_forward [quiet]: "quiet st0 st \<Longrightarrow> quiet st0 (forward_to st s c to msg)"
  by (auto simp: forward_to_def intro: quiet split: option.splits)

lemma quiet_broadcast [quiet]: "quiet st0 st \<Longrightarrow> quiet st0 (broadcast st s f ex msg)"
  by (auto simp: broadcast_def intro: quiet split: option.splits)

lemma quiet_departure [quiet]: "quiet st0 st \<Longrightarrow> quiet st0 (mirror_departure env st d)"
  by (auto simp: mirror_departure_def Let_def intro!: quiet split: prod.splits)

lemma quiet_tick [quiet]: "quiet st0 st \<Longrightarrow> quiet st0 (pex_housekeeping_tick env st now)"
  by (simp add: quiet_def pex_housekeeping_tick_def split: prod.splits)

lemma quiet_dht [quiet]:
  "quiet st0 st \<Longrightarrow> quiet st0 (dht_sweep_ask st)" "quiet st0 st \<Longrightarrow> quiet st0 (dht_sweep_build st now)"
  by (simp_all add: dht_sweep_ask_def quiet_notify) (simp add: dht_sweep_build_def quiet_def)

lemma quiet_pex_frame:
  assumes "quiet st0 st" "handle_pex_frame env st s c addr frame now = (st', s')"
  shows "quiet st0 st' \<and> s_peer_id s' = s_peer_id s"
  using assms by (auto simp: handle_pex_frame_def Let_def intro!: quiet
      split: pex_action.splits prod.splits)

text \<open>What a section keeps of the connection it runs for.\<close>

definition same_conn :: "conn \<Rightarrow> conn \<Rightarrow> bool" where
  "same_conn k k' \<longleftrightarrow> c_id k' = c_id k \<and> c_addr k' = c_addr k \<and> c_verified k' = c_verified k
     \<and> c_ip_slot k' = c_ip_slot k \<and> c_reg_slot k' = c_reg_slot k
     \<and> s_peer_id (c_session k') = s_peer_id (c_session k)"

lemma same_conn_refl [simp]: "same_conn k k"
  by (simp add: same_conn_def)

lemma quiet_perform:
  assumes "quiet st0 st" "perform env st k act clk = (cont, st', k')" "\<nexists>i n v a. act = ActRegister i n v a"
  shows "quiet st0 st' \<and> same_conn k k'"
  using assms by (cases act) (auto simp: perform_def intro: quiet)

lemma dispatch_register: "dispatch s msg = ActRegister i n v a \<Longrightarrow> msg = Register i n v a"
  by (cases msg) (auto simp: dispatch_def dispatch_registered_def split: if_splits)

lemma quiet_message:
  assumes "quiet st0 st" "handle_message env st k msg clk = (cont, st', k')" "\<nexists>i n v a. msg = Register i n v a"
  shows "quiet st0 st' \<and> same_conn k k'"
proof (cases "\<exists>x. msg = GetPeers x")
  case True
  with assms show ?thesis by (auto simp: handle_message_def Let_def intro!: quiet)
next
  case False
  let ?st1 = "record_dht_answer (record_relayed st msg) (c_session k) msg"
  have "handle_message env st k msg clk = perform env ?st1 k (dispatch (c_session k) msg) clk"
    using False by (cases msg) (auto simp: handle_message_def Let_def)
  moreover have "quiet st0 ?st1" using assms(1) by (intro quiet)
  ultimately show ?thesis
    using assms(2,3) dispatch_register quiet_perform [of st0 ?st1] by metis
qed

lemma quiet_frame:
  assumes "handle_frame env st k frame clk = (cont, st', k')" "frame_request env k frame clk = None"
  shows "quiet st st' \<and> same_conn k k'"
proof -
  obtain verdict l where adm: "admit (c_limiter k) (length frame) (fc_admit clk) = (verdict, l)" by force
  let ?st1 = "st\<lparr>cells := (cells st)(c_id k := fc_live clk)\<rparr>" and ?k1 = "k\<lparr>c_limiter := l\<rparr>"
  have q: "quiet st ?st1" and k: "same_conn k ?k1" by (simp_all add: quiet_cells same_conn_def)
  consider (flood) "verdict = Disconnect" | (pex) "verdict \<noteq> Disconnect" "is_pex_frame (e_peek env) frame"
    | (bad) "verdict \<noteq> Disconnect" "\<not> is_pex_frame (e_peek env) frame" "e_decode env frame = None"
    | (msg) msg where "verdict \<noteq> Disconnect" "\<not> is_pex_frame (e_peek env) frame" "e_decode env frame = Some msg"
    by force
  then show ?thesis
  proof cases
    case flood
    with assms(1) adm show ?thesis
      using quiet_strike [OF q] by (auto simp: handle_frame_def same_conn_def)
  next
    case pex
    with assms(1) adm quiet_pex_frame [OF q] show ?thesis
      by (auto simp: handle_frame_def same_conn_def split: prod.splits)
  next
    case bad
    with assms(1) adm show ?thesis
      using quiet_reply [OF q] by (auto simp: handle_frame_def same_conn_def)
  next
    case msg
    then have "\<nexists>i n v a. msg = Register i n v a"
      using assms(2) adm by (auto simp: frame_request_def)
    moreover have "handle_message env ?st1 ?k1 msg (fc_reg clk) = (cont, st', k')"
      using assms(1) adm msg by (simp add: handle_frame_def)
    ultimately have "quiet st st' \<and> same_conn ?k1 k'" by (intro quiet_message [OF q])
    then show ?thesis by (simp add: same_conn_def)
  qed
qed

section \<open>The invariant\<close>

text \<open>The slots a task holds, by its phase. A task holds its guard of the open-connection counter
  exactly as long as its connection slot.\<close>

fun phase_conn :: "phase \<Rightarrow> conn option" where
  "phase_conn (PLoop k) = Some k"
| "phase_conn (PAdmitted k _ _) = Some k"
| "phase_conn (PCommitted k _ _) = Some k"
| "phase_conn (PLeaving k) = Some k"
| "phase_conn (PDeparting k _ _) = Some k"
| "phase_conn (PDraining k) = Some k"
| "phase_conn _ = None"

fun conn_slots_of :: "phase \<Rightarrow> conn_slot list" where
  "conn_slots_of (POpen slot) = [slot]"
| "conn_slots_of ph = (case phase_conn ph of Some k \<Rightarrow> [c_ip_slot k] | None \<Rightarrow> [])"

fun pending_slot :: "phase \<Rightarrow> reg_slot list" where
  "pending_slot (PAdmitted _ _ slot) = [slot]"
| "pending_slot (PCommitted _ _ slot) = [slot]"
| "pending_slot _ = []"

definition held_slot :: "conn \<Rightarrow> reg_slot list" where
  "held_slot k = (case c_reg_slot k of Some slot \<Rightarrow> [slot] | None \<Rightarrow> [])"

definition reg_slots_of :: "phase \<Rightarrow> reg_slot list" where
  "reg_slots_of ph = pending_slot ph @ (case phase_conn ph of Some k \<Rightarrow> held_slot k | None \<Rightarrow> [])"

definition live_conns :: "task list \<Rightarrow> conn_slot list" where
  "live_conns ts = concat (map (\<lambda>t. conn_slots_of (t_phase t)) ts)"

definition live_regs :: "task list \<Rightarrow> reg_slot list" where
  "live_regs ts = concat (map (\<lambda>t. reg_slots_of (t_phase t)) ts)"

definition counted :: "('e, 'm) relay_state \<Rightarrow> conn_slot list \<Rightarrow> reg_slot list \<Rightarrow> bool" where
  "counted st cs rs \<longleftrightarrow> cp.accounted (st_policy st) (st_abuse st) cs
     \<and> rp.accounted (st_policy st) (st_abuse st) rs \<and> open_connections st = of_nat (length cs)"

definition books_ok :: "('e, 'm) relay_state \<Rightarrow> task list \<Rightarrow> bool" where
  "books_ok st ts \<longleftrightarrow> counted st (live_conns ts) (live_regs ts)"

definition state_ok :: "relay_server_config \<Rightarrow> ('e, 'm) relay_state \<Rightarrow> bool" where
  "state_ok config st \<longleftrightarrow> st_config st = config \<and> st_policy st = fst (abuse_policy_new config)
     \<and> registry_wf (st_registry st) \<and> registry_len (st_registry st) \<le> max_connections config
     \<and> unat (connected st) = registry_len (st_registry st)
     \<and> queues_ok (outbound_queue_capacity config) (outs st)
     \<and> queues_ok (outbound_queue_capacity config) (pexs st)"

text \<open>An id may be held by a connection whose certificate, if it showed one, has that id.\<close>

definition may_hold :: "task list \<Rightarrow> conn_id \<Rightarrow> string \<Rightarrow> bool" where
  "may_hold ts c i \<longleftrightarrow> c < length ts \<and> t_verified (ts ! c) \<in> {None, Some i}"

definition holders_ok :: "registry \<Rightarrow> task list \<Rightarrow> bool" where
  "holders_ok r ts \<longleftrightarrow> (\<forall>i p. map_of r i = Some p \<longrightarrow> may_hold ts (p_tx p) i \<and> p_last_activity p = p_tx p)"

fun claims :: "phase \<Rightarrow> string option" where
  "claims (PCommitted _ rq _) = Some (rq_peer_id rq)"
| "claims (PDeparting _ i _) = Some i"
| "claims _ = None"

definition task_ok :: "conn_id \<Rightarrow> task \<Rightarrow> bool" where
  "task_ok c t \<longleftrightarrow> (\<forall>k. phase_conn (t_phase t) = Some k \<longrightarrow>
       c_id k = c \<and> c_addr k = t_addr t \<and> c_verified k = t_verified t \<and> t_writer t \<noteq> WNone
       \<and> (\<forall>i. s_peer_id (c_session k) = Some i \<longrightarrow> t_verified t \<in> {None, Some i}))
     \<and> (\<forall>i. claims (t_phase t) = Some i \<longrightarrow> t_verified t \<in> {None, Some i})"

definition sys_ok :: "relay_server_config \<Rightarrow> ('e, 'm) system \<Rightarrow> bool" where
  "sys_ok config s \<longleftrightarrow> state_ok config (sy_state s) \<and> books_ok (sy_state s) (sy_tasks s)
     \<and> holders_ok (st_registry (sy_state s)) (sy_tasks s) \<and> (\<forall>c < length (sy_tasks s). task_ok c (sy_tasks s ! c))"

section \<open>Moving one task\<close>

lemma live_split:
  assumes "c < length ts"
  shows "live_conns (ts[c := t]) = live_conns (take c ts) @ conn_slots_of (t_phase t) @ live_conns (drop (Suc c) ts)"
    "live_regs (ts[c := t]) = live_regs (take c ts) @ reg_slots_of (t_phase t) @ live_regs (drop (Suc c) ts)"
    "live_conns ts = live_conns (take c ts) @ conn_slots_of (t_phase (ts ! c)) @ live_conns (drop (Suc c) ts)"
    "live_regs ts = live_regs (take c ts) @ reg_slots_of (t_phase (ts ! c)) @ live_regs (drop (Suc c) ts)"
  using assms id_take_nth_drop [OF assms]
  by (simp_all add: live_conns_def live_regs_def upd_conv_take_nth_drop)
    (metis concat.simps(2) concat_append list.simps(9) map_append)+

lemma quiet_state: "quiet st st' \<Longrightarrow> state_ok config st \<Longrightarrow> state_ok config st'"
  by (simp add: quiet_def state_ok_def)

lemma quiet_books: "quiet st st' \<Longrightarrow> books_ok st ts \<Longrightarrow> books_ok st' ts"
  unfolding quiet_def books_ok_def counted_def by (metis cp_frame rp_frame)

lemma books_same:
  "books_ok st ts \<Longrightarrow> live_conns ts' = live_conns ts \<Longrightarrow> live_regs ts' = live_regs ts \<Longrightarrow> books_ok st ts'"
  by (simp add: books_ok_def)

lemma phase_ofD:
  assumes "phase_of s c = ph" "ph \<noteq> PDone"
  shows "c < length (sy_tasks s)" "t_phase (sy_tasks s ! c) = ph"
  using assms by (auto simp: phase_of_def split: if_splits)

lemma writer_ofD:
  assumes "writer_of s c = w" "w \<noteq> WNone"
  shows "c < length (sy_tasks s)" "t_writer (sy_tasks s ! c) = w"
  using assms by (auto simp: writer_of_def split: if_splits)

lemma may_hold_update [simp]:
  "t_verified t = t_verified (ts ! c) \<Longrightarrow> may_hold (ts[c := t]) d i \<longleftrightarrow> may_hold ts d i"
  by (cases "d = c"; cases "c < length ts") (auto simp: may_hold_def)

lemma holders_update [simp]:
  "t_verified t = t_verified (ts ! c) \<Longrightarrow> holders_ok r (ts[c := t]) \<longleftrightarrow> holders_ok r ts"
  by (simp add: holders_ok_def)

text \<open>The general move, and the two common ones: a quiet section, and a step of the writer.\<close>

lemma sys_ok_update:
  assumes "sys_ok config s" "c < length (sy_tasks s)" "state_ok config st'"
    and "holders_ok (st_registry st') (sy_tasks s)" "t_verified t = t_verified (sy_tasks s ! c)"
    and "books_ok st' ((sy_tasks s)[c := t])" "task_ok c t"
  shows "sys_ok config (s\<lparr>sy_state := st', sy_tasks := (sy_tasks s)[c := t]\<rparr>)"
  using assms by (auto simp: sys_ok_def nth_list_update)

lemma moved_quiet:
  assumes ok: "sys_ok config s" and c: "c < length (sy_tasks s)" and q: "quiet (sy_state s) st'"
    and slots: "conn_slots_of ph = conn_slots_of (t_phase (sy_tasks s ! c))"
      "reg_slots_of ph = reg_slots_of (t_phase (sy_tasks s ! c))"
    and t: "task_ok c ((sy_tasks s ! c)\<lparr>t_phase := ph\<rparr>)"
  shows "sys_ok config (moved s c st' ph)"
  unfolding moved_def
proof (rule sys_ok_update [OF ok c])
  show "state_ok config st'" using ok quiet_state [OF q] by (simp add: sys_ok_def)
  show "holders_ok (st_registry st') (sy_tasks s)" using ok q by (simp add: sys_ok_def quiet_def)
  have "books_ok st' (sy_tasks s)" using ok quiet_books [OF q] by (simp add: sys_ok_def)
  then show "books_ok st' ((sy_tasks s)[c := (sy_tasks s ! c)\<lparr>t_phase := ph\<rparr>])"
    by (rule books_same) (simp_all add: live_split(1,2) [OF c] live_split(3,4) [OF c, symmetric] slots)
qed (simp_all add: t)

lemma wrote_quiet:
  assumes ok: "sys_ok config s" and c: "c < length (sy_tasks s)" and q: "quiet (sy_state s) st'"
    and w: "w \<noteq> WNone"
  shows "sys_ok config (wrote s c st' w)"
  unfolding wrote_def
proof (rule sys_ok_update [OF ok c])
  show "state_ok config st'" using ok quiet_state [OF q] by (simp add: sys_ok_def)
  show "holders_ok (st_registry st') (sy_tasks s)" using ok q by (simp add: sys_ok_def quiet_def)
  have "books_ok st' (sy_tasks s)" using ok quiet_books [OF q] by (simp add: sys_ok_def)
  then show "books_ok st' ((sy_tasks s)[c := (sy_tasks s ! c)\<lparr>t_writer := w\<rparr>])"
    by (rule books_same) (simp_all add: live_split(1,2) [OF c] live_split(3,4) [OF c, symmetric])
  show "task_ok c ((sy_tasks s ! c)\<lparr>t_writer := w\<rparr>)" using ok c w by (simp add: sys_ok_def task_ok_def)
qed simp

lemma sys_ok_quiet: "sys_ok config s \<Longrightarrow> quiet (sy_state s) st' \<Longrightarrow> sys_ok config (s\<lparr>sy_state := st'\<rparr>)"
  using quiet_state [of "sy_state s" st' config] quiet_books [of "sy_state s" st' "sy_tasks s"]
  by (auto simp: sys_ok_def) (simp add: quiet_def)

section \<open>Sections that move slots\<close>

text \<open>A section keeps the books when the slots of its task change from those of one phase to those of
  another, whatever the other tasks hold.\<close>

definition books_move :: "('e, 'm) relay_state \<Rightarrow> phase \<Rightarrow> ('e, 'm) relay_state \<Rightarrow> phase \<Rightarrow> bool" where
  "books_move st ph st' ph' \<longleftrightarrow> (\<forall>C C' R R'.
     counted st (C @ conn_slots_of ph @ C') (R @ reg_slots_of ph @ R') \<longrightarrow>
     counted st' (C @ conn_slots_of ph' @ C') (R @ reg_slots_of ph' @ R'))"

lemma moved_ok:
  assumes ok: "sys_ok config s" and c: "c < length (sy_tasks s)" and ph: "t_phase (sy_tasks s ! c) = ph"
    and "state_ok config st'" "holders_ok (st_registry st') (sy_tasks s)"
    and bm: "books_move (sy_state s) ph st' ph'" and "task_ok c ((sy_tasks s ! c)\<lparr>t_phase := ph'\<rparr>)"
  shows "sys_ok config (moved s c st' ph')"
  unfolding moved_def
proof (rule sys_ok_update [OF ok c])
  let ?ts = "sy_tasks s"
  have "books_ok (sy_state s) ?ts" using ok by (simp add: sys_ok_def)
  then have "counted (sy_state s) (live_conns (take c ?ts) @ conn_slots_of ph @ live_conns (drop (Suc c) ?ts))
      (live_regs (take c ?ts) @ reg_slots_of ph @ live_regs (drop (Suc c) ?ts))"
    by (simp add: books_ok_def live_split(3,4) [OF c, symmetric] flip: ph)
  with bm have "counted st' (live_conns (take c ?ts) @ conn_slots_of ph' @ live_conns (drop (Suc c) ?ts))
      (live_regs (take c ?ts) @ reg_slots_of ph' @ live_regs (drop (Suc c) ?ts))"
    unfolding books_move_def by blast
  then show "books_ok st' (?ts[c := (?ts ! c)\<lparr>t_phase := ph'\<rparr>])"
    by (simp add: books_ok_def live_split(1,2) [OF c])
qed (use assms in simp_all)

lemma counted_frame:
  assumes "counted st cs rs" "st_policy st' = st_policy st" "open_connections st' = open_connections st"
    "conns_per_ip (st_abuse st') = conns_per_ip (st_abuse st)" "regs_per_ip (st_abuse st') = regs_per_ip (st_abuse st)"
  shows "counted st' cs rs"
  using assms unfolding counted_def by (metis cp_frame rp_frame)

lemma books_move_frame:
  assumes "st_policy st' = st_policy st" "open_connections st' = open_connections st"
    "conns_per_ip (st_abuse st') = conns_per_ip (st_abuse st)" "regs_per_ip (st_abuse st') = regs_per_ip (st_abuse st)"
    "conn_slots_of ph' = conn_slots_of ph" "reg_slots_of ph' = reg_slots_of ph"
  shows "books_move st ph st' ph'"
  using assms counted_frame by (auto simp: books_move_def)

lemma slots_of_conn [simp]:
  "phase_conn ph = Some k \<Longrightarrow> conn_slots_of ph = [c_ip_slot k]"
  "phase_conn ph = Some k \<Longrightarrow> reg_slots_of ph = pending_slot ph @ held_slot k"
  by (cases ph; simp add: reg_slots_of_def)+

lemma slots_of_none [simp]:
  "reg_slots_of PGated = []" "reg_slots_of (POpen slot) = []" "reg_slots_of PDone = []" "reg_slots_of PAccepted = []"
  by (simp_all add: reg_slots_of_def)

lemma accept_gate_quiet:
  assumes "accept_gate st ip now = (ok, st')"
  shows "quiet st st'"
proof -
  obtain b a where a: "is_banned (st_policy st) (st_abuse st) ip now = (b, a)" by force
  then have "conns_per_ip a = conns_per_ip (st_abuse st)" "regs_per_ip a = regs_per_ip (st_abuse st)"
    by (metis conns_frame(4) snd_conv, metis regs_frame(4) snd_conv)
  with assms a show ?thesis by (auto simp: accept_gate_def quiet_def Let_def split: if_splits)
qed

lemma accept_slot_Some:
  assumes "accept_slot st ip now = (Some slot, st')"
  shows "books_move st PGated st' (POpen slot)"
proof -
  from assms obtain a where a: "try_acquire_conn (st_policy st) (st_abuse st) ip = (Some slot, a)"
    "st' = st\<lparr>open_connections := open_connections st + 1, st_abuse := a\<rparr>"
    by (auto simp: accept_slot_def open_guard_acquire_def Let_def split: prod.splits option.splits)
  have "regs_per_ip a = regs_per_ip (st_abuse st)"
    using regs_frame(1) [of "st_policy st" "st_abuse st" ip] a(1) by simp
  then show ?thesis
    by (auto simp: books_move_def counted_def a(2) intro: cp.accounted_acquire_at [OF _ a(1)] rp_frame)
qed

lemma accept_slot_None:
  assumes "accept_slot st ip now = (None, st')"
  shows "books_move st PGated st' PDone"
proof -
  from assms obtain a where a: "try_acquire_conn (st_policy st) (st_abuse st) ip = (None, a)"
    "st' = st\<lparr>st_abuse := record_strike (st_policy st) a ip now\<rparr>"
    by (auto simp: accept_slot_def open_guard_acquire_def open_guard_drop_def Let_def split: prod.splits option.splits)
  have "regs_per_ip a = regs_per_ip (st_abuse st)"
    using regs_frame(1) [of "st_policy st" "st_abuse st" ip] a(1) by simp
  then show ?thesis
    by (auto simp: books_move_def counted_def a(2)
        intro: cp_frame [OF cp.accounted_refused(1) [OF _ a(1)]] rp_frame)
qed

lemma release_conn_books: "books_move st (POpen slot) (release_conn st slot) PDone"
  by (auto simp: books_move_def counted_def release_conn_def open_guard_drop_def
      intro: cp.accounted_release rp_frame)

lemma register_admit_books:
  assumes "register_admit st c ip t1 t2 = (x, st')" "phase_conn ph = Some k" "phase_conn ph' = Some k'"
    "same_conn k k'" "pending_slot ph = []" "pending_slot ph' = (case x of Some slot \<Rightarrow> [slot] | None \<Rightarrow> [])"
  shows "books_move st ph st' ph'"
proof -
  obtain al a1 where al: "allow_registration (st_policy st) (st_abuse st) ip t1 = (al, a1)" by force
  have fr: "regs_per_ip a1 = regs_per_ip (st_abuse st)" "conns_per_ip a1 = conns_per_ip (st_abuse st)"
    using regs_frame(3) [of "st_policy st" "st_abuse st" ip t1] conns_frame(3) [of "st_policy st" "st_abuse st" ip t1] al
    by simp_all
  obtain y a2 where ta: "try_acquire_registration (st_policy st) a1 ip = (y, a2)" by force
  have fr2: "conns_per_ip a2 = conns_per_ip (st_abuse st)"
    using conns_frame(1) [of "st_policy st" a1 ip] ta fr(2) by simp
  have slots: "conn_slots_of ph' = conn_slots_of ph" "held_slot k' = held_slot k"
    using assms by (simp_all add: same_conn_def held_slot_def)
  have r: "rp.accounted (st_policy st) a1 rs" if "counted st cs rs" for cs rs
    using that fr rp_frame by (auto simp: counted_def)
  show ?thesis
  proof (cases "al \<and> y \<noteq> None")
    case True
    then obtain slot where y: "y = Some slot" by auto
    with True assms(1) al ta have x: "x = Some slot" "st' = st\<lparr>st_abuse := a2\<rparr>"
      by (auto simp: register_admit_def Let_def)
    have "counted st' (C @ conn_slots_of ph' @ C') (R @ slot # held_slot k' @ R')"
      if b: "counted st (C @ conn_slots_of ph @ C') (R @ held_slot k @ R')" for C C' R R'
      using b rp.accounted_acquire_at [OF r [OF b] ta [unfolded y]] fr2 cp_frame
      by (auto simp: counted_def x slots)
    with assms x(1) show ?thesis by (simp add: books_move_def)
  next
    case False
    obtain a code t n where a: "st' = refuse_register (st\<lparr>st_abuse := a\<rparr>) c code t n" "x = None"
      "a = record_strike (st_policy st) (if al then a2 else a1) ip t2"
      using False assms(1) al ta by (cases al) (auto simp: register_admit_def Let_def)
    have "counted st' (C @ conn_slots_of ph' @ C') (R @ held_slot k' @ R')"
      if b: "counted st (C @ conn_slots_of ph @ C') (R @ held_slot k @ R')" for C C' R R'
    proof -
      have "rp.accounted (st_policy st) (if al then a2 else a1) (R @ held_slot k @ R')"
        using False r [OF b] rp.accounted_refused(1) [OF r [OF b]] ta by (cases al) auto
      then show ?thesis using b fr(2) fr2
        by (auto simp: counted_def a slots intro: cp_frame rp_frame)
    qed
    with assms a(2) show ?thesis by (simp add: books_move_def)
  qed
qed

lemma drop_reg_books:
  assumes "conns_per_ip (st_abuse st') = conns_per_ip (st_abuse st)" "st_policy st' = st_policy st"
    "regs_per_ip (st_abuse st') = regs_per_ip (drop_reg_slot slot (st_abuse st))"
    "open_connections st' = open_connections st"
    "conn_slots_of ph' = conn_slots_of ph" "reg_slots_of ph = A @ slot # B" "reg_slots_of ph' = A @ B"
  shows "books_move st ph st' ph'"
proof -
  have "rp.accounted (st_policy st') (st_abuse st') (R @ (A @ B) @ R')"
    if "rp.accounted (st_policy st) (st_abuse st) (R @ (A @ slot # B) @ R')" for R R'
    using that rp.accounted_release [of "st_policy st" "st_abuse st" "R @ A" slot "B @ R'"] rp_frame assms(2,3)
    by simp
  then show ?thesis using assms cp_frame by (auto simp: books_move_def counted_def)
qed

section \<open>Sections on the registry\<close>

lemma state_ok_abuse [simp]: "state_ok config (st\<lparr>st_abuse := a\<rparr>) = state_ok config st"
  by (simp add: state_ok_def)

lemma register_commit_books [simp]:
  "st_abuse (snd (register_commit env st c i n v addrs ip verified now)) = st_abuse st"
  "open_connections (snd (register_commit env st c i n v addrs ip verified now)) = open_connections st"
  "st_policy (snd (register_commit env st c i n v addrs ip verified now)) = st_policy st"
  by (auto simp: register_commit_def Let_def split: prod.splits register_outcome.splits option.splits)

lemma register_commit_True:
  assumes com: "register_commit env st c i n v addrs ip verified now = (True, st')"
    and ok: "state_ok config st" and max: "max_connections config < 2 ^ 64"
  obtains p where "state_ok config st'" "map_of (st_registry st') = (map_of (st_registry st))(i \<mapsto> p)"
    "p_tx p = c" "p_last_activity p = c" "verified \<in> {None, Some i}" "\<not> live_incumbent st i"
    "outs st' = send_each (outs st) ((c, RegisterAck True ''registered'' (registry_len (st_registry st')))
       # map (\<lambda>(_, tx). (tx, PeerConnected (p_info p))) (broadcast_targets (st_registry st') i n []))"
proof -
  have cok: "commit_ok st i verified"
    using register_commit_iff [of env st c i n v addrs ip verified now] com by simp
  define p where "p = registrant env c i n v addrs ip now"
  obtain out reg' where
    r: "register (is_closed (outs st)) (st_registry st) i n (p_info p) c c = (out, reg')" "out \<noteq> Occupied"
    and st': "st' = notify (reply (st\<lparr>st_registry := reg',
         connected := (if out = Registered then connected st + 1 else connected st)\<rparr>)
         c (RegisterAck True ''registered'' (registry_len reg')))
         (broadcast_targets reg' i n []) (PeerConnected (p_info p))"
    using register_commit_accepted [OF cok, of n c env v addrs ip now] com unfolding p_def by auto
  have wf: "registry_wf (st_registry st)" "hm_wf (st_registry st)"
    and len: "registry_len (st_registry st) < max_connections config" "unat (connected st) = registry_len (st_registry st)"
    using ok cok by (auto simp: state_ok_def registry_wf_def commit_ok_def)
  have len': "registry_len reg' = registry_len (st_registry st) + (if out = Registered then 1 else 0)"
    by (rule register_len [OF wf(2) r(1)])
  have "registry_wf reg'"
    using registry_wf_register [OF wf(1), of "p_info p" i n "is_closed (outs st)" c c] r(1)
    by (simp add: p_def registrant_def relay_peer_info_new_def)
  moreover have "unat (if out = Registered then connected st + 1 else connected st) = registry_len reg'"
    using len len' max by (auto simp: unat_word_ariths)
  ultimately have "state_ok config st'"
    using ok len len' by (simp add: state_ok_def st')
  moreover have "map_of (st_registry st') = (map_of (st_registry st))(i \<mapsto> p)"
    using r by (cases rule: register_cases [of "st_registry st" i "is_closed (outs st)" n "p_info p" c c];
        auto simp: st' hm_simps p_def registrant_def)+
  moreover have "outs st' = send_each (outs st) ((c, RegisterAck True ''registered'' (registry_len (st_registry st')))
       # map (\<lambda>(_, tx). (tx, PeerConnected (p_info p))) (broadcast_targets (st_registry st') i n []))"
    by (simp add: st')
  ultimately show thesis
    using that [of p] cok by (simp add: commit_ok_def p_def registrant_def)
qed

lemma register_commit_False:
  assumes "register_commit env st c i n v addrs ip verified now = (False, st')"
  shows "quiet st st'"
proof -
  have "\<not> commit_ok st i verified"
    using register_commit_iff [of env st c i n v addrs ip verified now] assms by simp
  with register_commit_refused [OF this, of env c n v addrs ip now] assms show ?thesis
    using quiet_refuse [of st st] by auto
qed

lemma holders_insert:
  "holders_ok r ts \<Longrightarrow> map_of r' = (map_of r)(i \<mapsto> p) \<Longrightarrow> may_hold ts (p_tx p) i \<Longrightarrow>
     p_last_activity p = p_tx p \<Longrightarrow> holders_ok r' ts"
  by (simp add: holders_ok_def)

lemma holders_remove:
  "holders_ok r ts \<Longrightarrow> (\<And>i p. map_of r' i = Some p \<Longrightarrow> map_of r i = Some p) \<Longrightarrow> holders_ok r' ts"
  unfolding holders_ok_def by blast

text \<open>A removal keeps the state in order, and removes the named peers.\<close>

lemma state_counted: "state_ok config st \<Longrightarrow> registry_counted st"
  by (simp add: state_ok_def registry_counted_def registry_wf_def)

lemma removal_ok:
  assumes ok: "state_ok config st" and cnt: "registry_counted st'"
    and same: "st_config st' = st_config st" "st_policy st' = st_policy st" "outs st' = outs st" "pexs st' = pexs st"
    and sub: "\<And>i p. map_of (st_registry st') i = Some p \<Longrightarrow> map_of (st_registry st) i = Some p"
  shows "state_ok config st'"
proof -
  have wf: "hm_wf (st_registry st)" "hm_wf (st_registry st')"
    using ok cnt by (auto simp: state_ok_def registry_wf_def registry_counted_def)
  have "hm_keys (st_registry st') \<subseteq> hm_keys (st_registry st)"
    using sub by (metis map_of_None_key not_Some_eq subsetI)
  then have "card (hm_keys (st_registry st')) \<le> card (hm_keys (st_registry st))"
    by (intro card_mono) auto
  moreover have "card (hm_keys r) = registry_len r" if "hm_wf r" for r :: registry
    using that distinct_card [of "map fst r"] by (simp add: hm_wf_def registry_len_def)
  ultimately have "registry_len (st_registry st') \<le> registry_len (st_registry st)" using wf by metis
  moreover have "registry_wf (st_registry st')"
    using ok sub wf(2) unfolding state_ok_def registry_wf_iff by blast
  ultimately show ?thesis using ok cnt same by (simp add: state_ok_def registry_counted_def)
qed

lemma prune_sub:
  assumes "hm_wf (st_registry st)"
  shows "map_of (st_registry (snd (prune st vs))) j = (if j \<in> fst ` set vs then None else map_of (st_registry st) j)"
  by (simp add: prune_state pt.del_all_get [OF assms])

lemma sweep_state:
  assumes ok: "state_ok config st" and sw: "sweep_registry st now = (pruned, st')"
  shows "state_ok config st'" "st_abuse st' = st_abuse st" "open_connections st' = open_connections st"
    "st_policy st' = st_policy st" "outs st' = outs st"
    "map_of (st_registry st') i = (case map_of (st_registry st) i of
       Some p \<Rightarrow> if expired_at st now p then None else Some p | None \<Rightarrow> None)"
proof -
  define vs where "vs = dead_or_stale (is_closed (outs st)) (cells st) (st_registry st) now
    (of_nat (as_secs (liveness_deadline (st_config st))))"
  have wf: "hm_wf (st_registry st)" using state_counted [OF ok] by (simp add: registry_counted_def)
  have st': "st' = snd (prune st vs)" using sw by (simp add: sweep_registry_def vs_def)
  have ids: "j \<in> fst ` set vs \<longleftrightarrow> (\<exists>p. map_of (st_registry st) j = Some p \<and> expired_at st now p)" for j
    using dead_or_stale_mem [OF wf, of _ _ "is_closed (outs st)" "cells st" now
      "of_nat (as_secs (liveness_deadline (st_config st)))", folded vs_def] by force
  show "map_of (st_registry st') i = (case map_of (st_registry st) i of
       Some p \<Rightarrow> if expired_at st now p then None else Some p | None \<Rightarrow> None)"
    using ids [of i] unfolding st' prune_sub [OF wf] by (auto split: option.splits)
  show "st_abuse st' = st_abuse st" "open_connections st' = open_connections st"
    "st_policy st' = st_policy st" "outs st' = outs st"
    by (simp_all add: st' prune_state)
  show "state_ok config st'"
  proof (rule removal_ok [OF ok])
    show "registry_counted st'" unfolding st' by (rule prune_counted [OF state_counted [OF ok]])
    show "map_of (st_registry st') i = Some p \<Longrightarrow> map_of (st_registry st) i = Some p" for i p
      unfolding st' prune_sub [OF wf] by (simp split: if_splits)
  qed (simp_all add: st' prune_state)
qed

lemma remove_locked_state:
  assumes ok: "state_ok config st" and rm: "remove_locked st i n = (x, st')"
  shows "state_ok config st'" "st_abuse st' = st_abuse st" "open_connections st' = open_connections st"
    "st_policy st' = st_policy st" "outs st' = outs st" "pexs st' = pexs st"
    "map_of (st_registry st') = (map_of (st_registry st))(i := None)"
proof -
  have st': "st' = snd (remove_locked st i n)" by (simp add: rm)
  show m: "map_of (st_registry st') = (map_of (st_registry st))(i := None)"
    by (auto simp: st' remove_locked_def unregister_def hm_simps split: option.splits)
  show "st_abuse st' = st_abuse st" "open_connections st' = open_connections st"
    "st_policy st' = st_policy st" "outs st' = outs st" "pexs st' = pexs st"
    by (auto simp: st' remove_locked_def split: prod.splits option.splits)
  show "state_ok config st'"
  proof (rule removal_ok [OF ok])
    show "registry_counted st'" unfolding st' by (rule remove_locked_counted [OF state_counted [OF ok]])
    show "map_of (st_registry st') j = Some p \<Longrightarrow> map_of (st_registry st) j = Some p" for j p
      by (simp add: m split: if_splits)
  qed (auto simp: st' remove_locked_def split: prod.splits option.splits)
qed

section \<open>Every step keeps the invariant\<close>

lemma sys_okD:
  assumes "sys_ok config s"
  shows "state_ok config (sy_state s)" "holders_ok (st_registry (sy_state s)) (sy_tasks s)"
  using assms by (simp_all add: sys_ok_def)

lemma conn_of:
  assumes "sys_ok config s" "phase_of s c = ph" "phase_conn ph = Some k"
  shows "c < length (sy_tasks s)" "t_phase (sy_tasks s ! c) = ph" "c_id k = c"
    "c_addr k = t_addr (sy_tasks s ! c)" "c_verified k = t_verified (sy_tasks s ! c)"
    "t_writer (sy_tasks s ! c) \<noteq> WNone" "task_ok c (sy_tasks s ! c)"
    "s_peer_id (c_session k) = Some i \<Longrightarrow> may_hold (sy_tasks s) c i"
    "claims ph = Some i \<Longrightarrow> may_hold (sy_tasks s) c i"
proof -
  have "ph \<noteq> PDone" using assms(3) by auto
  note ph = phase_ofD [OF assms(2) this]
  have "task_ok c (sy_tasks s ! c)" using assms(1) ph(1) by (simp add: sys_ok_def)
  with ph assms(3) show "c < length (sy_tasks s)" "t_phase (sy_tasks s ! c) = ph" "c_id k = c"
    "c_addr k = t_addr (sy_tasks s ! c)" "c_verified k = t_verified (sy_tasks s ! c)"
    "t_writer (sy_tasks s ! c) \<noteq> WNone" "task_ok c (sy_tasks s ! c)"
    "s_peer_id (c_session k) = Some i \<Longrightarrow> may_hold (sy_tasks s) c i"
    "claims ph = Some i \<Longrightarrow> may_hold (sy_tasks s) c i"
    by (auto simp: task_ok_def may_hold_def)
qed

lemma task_ok_move:
  assumes "task_ok c t" "phase_conn (t_phase t) = Some k" "phase_conn ph = Some k'" "same_conn k k'"
    "\<And>i. claims ph = Some i \<Longrightarrow> t_verified t \<in> {None, Some i}"
  shows "task_ok c (t\<lparr>t_phase := ph\<rparr>)"
  using assms by (auto simp: task_ok_def same_conn_def)

lemma task_ok_none: "phase_conn ph = None \<Longrightarrow> claims ph = None \<Longrightarrow> task_ok c (t\<lparr>t_phase := ph\<rparr>)"
  by (simp add: task_ok_def)

lemma claims_None: "phase_conn ph = None \<Longrightarrow> claims ph = None"
  by (cases ph) simp_all

text \<open>A quiet section of a connection that keeps its slots.\<close>

lemma moved_conn:
  assumes ok: "sys_ok config s" and ph: "phase_of s c = ph" "phase_conn ph = Some k"
    and q: "quiet (sy_state s) st'" and ph': "phase_conn ph' = Some k'" "same_conn k k'"
      "pending_slot ph' = pending_slot ph" "\<And>i. claims ph' = Some i \<Longrightarrow> may_hold (sy_tasks s) c i"
  shows "sys_ok config (moved s c st' ph')"
proof (rule moved_quiet [OF ok _ q])
  note k = conn_of [OF ok ph]
  show "c < length (sy_tasks s)" by (rule k(1))
  show "conn_slots_of ph' = conn_slots_of (t_phase (sy_tasks s ! c))"
    "reg_slots_of ph' = reg_slots_of (t_phase (sy_tasks s ! c))"
    using ph(2) ph' by (simp_all add: k(2) same_conn_def held_slot_def)
  show "task_ok c ((sy_tasks s ! c)\<lparr>t_phase := ph'\<rparr>)"
    using k ph ph' by (intro task_ok_move [of _ _ k]) (auto simp: may_hold_def)
qed

lemma accept_ok:
  assumes ok: "sys_ok config s" and e: "step env fr s (EvAccept stream addr to) = Some s'"
  shows "sys_ok config s'"
proof (cases "connection_start (st_config (sy_state s)) (fr_lib fr) (fr_acceptor fr) stream addr to")
  case None
  with assms show ?thesis by simp
next
  case (Some x)
  obtain t where s': "s' = s\<lparr>sy_tasks := sy_tasks s @ [t]\<rparr>" and t: "t_phase t = PAccepted"
    using Some e by (auto split: prod.splits)
  have "live_conns (sy_tasks s @ [t]) = live_conns (sy_tasks s)" "live_regs (sy_tasks s @ [t]) = live_regs (sy_tasks s)"
    by (simp_all add: live_conns_def live_regs_def t)
  moreover have "may_hold (sy_tasks s @ [t]) c i" if "may_hold (sy_tasks s) c i" for c i
    using that by (simp add: may_hold_def nth_append)
  moreover have "task_ok c ((sy_tasks s @ [t]) ! c)" if "c < Suc (length (sy_tasks s))" for c
    using that ok t by (cases "c = length (sy_tasks s)") (auto simp: sys_ok_def nth_append task_ok_def)
  ultimately show ?thesis using ok by (simp add: sys_ok_def s' books_ok_def holders_ok_def)
qed

lemma gate_ok:
  assumes ok: "sys_ok config s" and e: "step env fr s (EvGate c now) = Some s'"
  shows "sys_ok config s'"
proof -
  from e have ph: "phase_of s c = PAccepted" by (cases "phase_of s c") auto
  note c = phase_ofD [OF ph, simplified]
  obtain b st1 where g: "accept_gate (sy_state s) (sa_ip (t_addr (sy_tasks s ! c))) now = (b, st1)" by force
  with e ph have "s' = moved s c st1 (if b then PGated else PDone)" by simp
  then show ?thesis
    using moved_quiet [OF ok c(1) accept_gate_quiet [OF g], of "if b then PGated else PDone"]
    by (simp add: c(2) task_ok_none split: if_splits)
qed

lemma accept_slot_state:
  assumes "accept_slot st ip now = (x, st')" "state_ok config st"
  shows "state_ok config st' \<and> st_registry st' = st_registry st"
  using assms by (auto simp: accept_slot_def open_guard_acquire_def open_guard_drop_def state_ok_def Let_def
      split: prod.splits option.splits)

lemma slot_ok:
  assumes ok: "sys_ok config s" and e: "step env fr s (EvSlot c now) = Some s'"
  shows "sys_ok config s'"
proof -
  from e have ph: "phase_of s c = PGated" by (cases "phase_of s c") auto
  note c = phase_ofD [OF ph, simplified]
  obtain x st1 where g: "accept_slot (sy_state s) (sa_ip (t_addr (sy_tasks s ! c))) now = (x, st1)" by force
  note st1 = accept_slot_state [OF g sys_okD(1) [OF ok]]
  show ?thesis
  proof (cases x)
    case None
    with e ph g have "s' = moved s c st1 PDone" by simp
    with None show ?thesis
      using moved_ok [OF ok c, of st1 PDone] st1 sys_okD(2) [OF ok] accept_slot_None [OF g [unfolded None]]
      by (simp add: task_ok_none)
  next
    case (Some slot)
    with e ph g have "s' = moved s c st1 (POpen slot)" by simp
    with Some show ?thesis
      using moved_ok [OF ok c, of st1 "POpen slot"] st1 sys_okD(2) [OF ok] accept_slot_Some [OF g [unfolded Some]]
      by (simp add: task_ok_none)
  qed
qed

lemma head_ok:
  assumes ok: "sys_ok config s" and e: "step env fr s (EvHead c head hs now now') = Some s'"
  shows "sys_ok config s'"
proof -
  from e obtain slot where ph: "phase_of s c = POpen slot" by (cases "phase_of s c") auto
  note c = phase_ofD [OF ph, simplified]
  have s': "s' = head_section s c slot head hs now now'" using e ph by simp
  note st = sys_okD [OF ok]
  show ?thesis
  proof (cases "(case head of Some h \<Rightarrow> is_websocket_upgrade h | None \<Rightarrow> False) \<and> hs")
    case False
    then have s'': "s' = moved s c (release_conn (sy_state s) slot) PDone"
      unfolding s' head_section_def by (intro if_not_P) simp
    have "state_ok config (release_conn (sy_state s) slot)" "st_registry (release_conn (sy_state s) slot) = st_registry (sy_state s)"
      using st(1) by (auto simp: release_conn_def open_guard_drop_def state_ok_def)
    then show ?thesis unfolding s''
      using moved_ok [OF ok c, of "release_conn (sy_state s) slot" PDone] st(2) release_conn_books [of "sy_state s" slot]
      by (simp add: task_ok_none)
  next
    case True
    let ?t = "sy_tasks s ! c"
    obtain st1 k where w: "ws_start (sy_state s) c (t_addr ?t) (t_verified ?t) slot now now' = (st1, k)" by force
    have s'': "s' = s\<lparr>sy_state := st1, sy_tasks := (sy_tasks s)[c := ?t\<lparr>t_phase := PLoop k, t_writer := WRun\<rparr>]\<rparr>"
      using True c(1) by (simp add: s' head_section_def w moved_def wrote_def)
    have k: "c_ip_slot k = slot" "c_reg_slot k = None" "c_id k = c" "c_addr k = t_addr ?t"
      "c_verified k = t_verified ?t" "s_peer_id (c_session k) = None"
      using w by (auto simp: ws_start_def session_default_def Let_def)
    have st1: "state_ok config st1" "st_registry st1 = st_registry (sy_state s)" "st_abuse st1 = st_abuse (sy_state s)"
      "st_policy st1 = st_policy (sy_state s)" "open_connections st1 = open_connections (sy_state s)"
      using w st(1) by (auto simp: ws_start_def state_ok_def Let_def)
    have "books_ok (sy_state s) (sy_tasks s)" using ok by (simp add: sys_ok_def)
    moreover have "live_conns ((sy_tasks s)[c := ?t\<lparr>t_phase := PLoop k, t_writer := WRun\<rparr>]) = live_conns (sy_tasks s)"
      "live_regs ((sy_tasks s)[c := ?t\<lparr>t_phase := PLoop k, t_writer := WRun\<rparr>]) = live_regs (sy_tasks s)"
      using live_split [OF c(1)] k by (simp_all add: c(2) held_slot_def)
    ultimately have "books_ok st1 ((sy_tasks s)[c := ?t\<lparr>t_phase := PLoop k, t_writer := WRun\<rparr>])"
      using counted_frame [of "sy_state s" "live_conns (sy_tasks s)" "live_regs (sy_tasks s)" st1] st1
      by (simp add: books_ok_def)
    then show ?thesis unfolding s'' using st st1 k
      by (intro sys_ok_update [OF ok c(1)]) (simp_all add: task_ok_def)
  qed
qed

lemma frame_ok:
  assumes ok: "sys_ok config s" and e: "step env fr s (EvFrame c frame clk) = Some s'"
  shows "sys_ok config s'"
proof -
  from e obtain k where ph: "phase_of s c = PLoop k" by (cases "phase_of s c") auto
  note k = conn_of [OF ok ph, of k, simplified]
  show ?thesis
  proof (cases "frame_request env k frame clk")
    case None
    obtain cont st1 k1 where h: "handle_frame env (sy_state s) k frame clk = (cont, st1, k1)"
      by (metis prod_cases3)
    with None e ph have "s' = moved s c st1 (if cont then PLoop k1 else PLeaving k1)"
      by (simp add: frame_section_def)
    with quiet_frame [OF h None] ok ph show ?thesis by (auto intro!: moved_conn)
  next
    case (Some rq)
    let ?k = "metered k frame clk" and ?st = "stamp (sy_state s) (c_id k) (fc_live clk)"
    obtain x st1 where adm: "register_admit ?st (c_id k) (sa_ip (c_addr k)) (rc_rate (fc_reg clk))
        (rc_strike (fc_reg clk)) = (x, st1)" by force
    define ph' where "ph' = (case x of None \<Rightarrow> PLeaving ?k | Some slot \<Rightarrow> PAdmitted ?k rq slot)"
    have s': "s' = moved s c st1 ph'"
      using Some e ph adm by (auto simp: frame_section_def ph'_def Let_def split: option.splits)
    have sk: "same_conn k ?k" by (simp add: same_conn_def metered_def)
    have ph'_k: "phase_conn ph' = Some ?k" "claims ph' = None" "pending_slot ph' = (case x of Some slot \<Rightarrow> [slot] | None \<Rightarrow> [])"
      by (simp_all add: ph'_def split: option.splits)
    have "quiet (sy_state s) ?st" by (simp add: stamp_def quiet_cells)
    then have "state_ok config ?st" using sys_okD(1) [OF ok] by (rule quiet_state)
    then have st1: "state_ok config st1 \<and> st_registry st1 = st_registry (sy_state s)"
      using adm by (auto simp: register_admit_def state_ok_def Let_def stamp_def split: if_splits prod.splits option.splits)
    have "books_move ?st (PLoop k) st1 ph'"
      using register_admit_books [OF adm, of "PLoop k" k ph' ?k] sk ph'_k by simp
    then have "books_move (sy_state s) (PLoop k) st1 ph'"
      by (simp add: books_move_def stamp_def counted_def)
    then show ?thesis unfolding s'
      using moved_ok [OF ok k(1,2), of st1 ph'] st1 sys_okD(2) [OF ok] sk ph'_k
        task_ok_move [OF k(7), of k ph' ?k] k(2) by simp
  qed
qed

lemma commit_ok_step:
  assumes ok: "sys_ok config s" and max: "max_connections config < 2 ^ 64"
    and e: "step env fr s (EvCommit c now) = Some s'"
  shows "sys_ok config s'"
proof -
  from e obtain k rq slot where ph: "phase_of s c = PAdmitted k rq slot" by (cases "phase_of s c") auto
  note k = conn_of [OF ok ph, of k, simplified]
  obtain b st1 where com: "register_commit env (sy_state s) (c_id k) (rq_peer_id rq) (rq_network_id rq)
      (rq_protocol_version rq) (rq_listen_addrs rq) (sa_ip (c_addr k)) (c_verified k) now = (b, st1)" by force
  have same: "st_abuse st1 = st_abuse (sy_state s)" "open_connections st1 = open_connections (sy_state s)"
    "st_policy st1 = st_policy (sy_state s)"
    using com register_commit_books by (metis snd_conv)+
  show ?thesis
  proof (cases b)
    case True
    then have com: "register_commit env (sy_state s) (c_id k) (rq_peer_id rq) (rq_network_id rq)
      (rq_protocol_version rq) (rq_listen_addrs rq) (sa_ip (c_addr k)) (c_verified k) now = (True, st1)"
      using com by simp
    with e ph have s': "s' = moved s c st1 (PCommitted k rq slot)" by (simp add: commit_section_def)
    obtain p where p: "state_ok config st1" "map_of (st_registry st1) = (map_of (st_registry (sy_state s)))(rq_peer_id rq \<mapsto> p)"
      "p_tx p = c_id k" "p_last_activity p = c_id k" "c_verified k \<in> {None, Some (rq_peer_id rq)}"
      using register_commit_True [OF com sys_okD(1) [OF ok] max] by metis
    have "holders_ok (st_registry st1) (sy_tasks s)"
      using p k by (intro holders_insert [OF sys_okD(2) [OF ok] p(2)]) (simp_all add: may_hold_def)
    moreover have "books_move (sy_state s) (PAdmitted k rq slot) st1 (PCommitted k rq slot)"
      using same by (intro books_move_frame) simp_all
    ultimately show ?thesis unfolding s'
      using moved_ok [OF ok k(1,2), of st1 "PCommitted k rq slot"] p k
        task_ok_move [OF k(7), of k "PCommitted k rq slot" k] by simp
  next
    case False
    then have com: "register_commit env (sy_state s) (c_id k) (rq_peer_id rq) (rq_network_id rq)
      (rq_protocol_version rq) (rq_listen_addrs rq) (sa_ip (c_addr k)) (c_verified k) now = (False, st1)"
      using com by simp
    let ?st = "st1\<lparr>st_abuse := drop_reg_slot slot (st_abuse st1)\<rparr>"
    from com e ph have s': "s' = moved s c ?st (PLeaving k)" by (simp add: commit_section_def)
    note q = register_commit_False [OF com]
    have "books_move (sy_state s) (PAdmitted k rq slot) ?st (PLeaving k)"
      using same by (intro drop_reg_books [of _ _ slot _ _ "[]"]) simp_all
    then show ?thesis unfolding s'
      using moved_ok [OF ok k(1,2), of ?st "PLeaving k"] quiet_state [OF q sys_okD(1) [OF ok]] sys_okD(2) [OF ok]
        q k task_ok_move [OF k(7), of k "PLeaving k" k] by (simp add: quiet_def)
  qed
qed

lemma mirror_ok:
  assumes ok: "sys_ok config s" and e: "step env fr s (EvMirror c now) = Some s'"
  shows "sys_ok config s'"
proof -
  from e obtain k rq slot where ph: "phase_of s c = PCommitted k rq slot" by (cases "phase_of s c") auto
  note k = conn_of [OF ok ph, of k, simplified]
  obtain st1 ss held where m: "register_mirror env (sy_state s) (c_session k) (c_id k) (rq_peer_id rq)
      (rq_network_id rq) (c_addr k) (c_reg_slot k) slot now = (st1, ss, held)" by (metis prod_cases3)
  let ?k = "k\<lparr>c_session := ss, c_reg_slot := held\<rparr>"
  have s': "s' = moved s c st1 (PLoop ?k)" using e ph m by (simp add: mirror_section_def)
  have h: "held = Some slot" "s_peer_id ss = Some (rq_peer_id rq)"
    using m by (auto simp: register_mirror_def Let_def)
  have st1: "state_ok config st1" "st_registry st1 = st_registry (sy_state s)"
    "open_connections st1 = open_connections (sy_state s)" "st_policy st1 = st_policy (sy_state s)"
    using m sys_okD(1) [OF ok] by (auto simp: register_mirror_def state_ok_def Let_def split: option.splits)
  have bm: "books_move (sy_state s) (PCommitted k rq slot) st1 (PLoop ?k)"
  proof (cases "c_reg_slot k")
    case None
    with m h st1 show ?thesis
      by (intro books_move_frame) (auto simp: register_mirror_def held_slot_def Let_def)
  next
    case (Some old)
    with m h st1 show ?thesis
      by (intro drop_reg_books [of _ _ old _ _ "[slot]" "[]"]) (auto simp: register_mirror_def held_slot_def Let_def)
  qed
  have "task_ok c ((sy_tasks s ! c)\<lparr>t_phase := PLoop ?k\<rparr>)"
    using k h by (auto simp: task_ok_def)
  with bm st1 sys_okD(2) [OF ok] show ?thesis unfolding s'
    using moved_ok [OF ok k(1,2), of st1 "PLoop ?k"] by simp
qed

lemma deregister_ok:
  assumes ok: "sys_ok config s" and e: "step env fr s (EvDeregister c) = Some s'"
  shows "sys_ok config s'"
proof -
  from e obtain k where ph: "phase_of s c = PLeaving k" by (cases "phase_of s c") auto
  note k = conn_of [OF ok ph, of k, simplified]
  show ?thesis
  proof (cases "\<exists>i n. s_peer_id (c_session k) = Some i \<and> s_network_id (c_session k) = Some n")
    case False
    then have "s' = moved s c (sy_state s) (PDraining k)"
      using e ph by (auto simp: deregister_section_def split: option.splits)
    with ok ph show ?thesis by (auto intro!: moved_conn)
  next
    case True
    then obtain i n where ids: "s_peer_id (c_session k) = Some i" "s_network_id (c_session k) = Some n" by blast
    obtain x st1 where rm: "remove_locked (sy_state s) i n = (x, st1)" by force
    note st1 = remove_locked_state [OF sys_okD(1) [OF ok] rm]
    define ph' where "ph' = (case x of None \<Rightarrow> PDraining k | Some _ \<Rightarrow> PDeparting k i n)"
    define st2 where "st2 = (case x of None \<Rightarrow> st1 | Some ts \<Rightarrow> notify st1 ts (PeerDisconnected i))"
    have s': "s' = moved s c st2 ph'"
      using e ph ids rm by (auto simp: deregister_section_def ph'_def st2_def split: option.splits)
    have q: "quiet st1 st2" by (simp add: st2_def quiet_notify split: option.splits)
    have "holders_ok (st_registry st1) (sy_tasks s)"
      using st1(7) by (intro holders_remove [OF sys_okD(2) [OF ok]]) (simp split: if_splits)
    then have "holders_ok (st_registry st2) (sy_tasks s)" using q by (simp add: quiet_def)
    moreover have "books_move (sy_state s) (PLeaving k) st2 ph'"
      using q st1 by (intro books_move_frame) (auto simp: quiet_def ph'_def split: option.splits)
    moreover have "task_ok c ((sy_tasks s ! c)\<lparr>t_phase := ph'\<rparr>)"
      using k ids by (intro task_ok_move [OF k(7), of k _ k]) (auto simp: ph'_def may_hold_def split: option.splits)
    ultimately show ?thesis unfolding s'
      using moved_ok [OF ok k(1,2), of st2 ph'] quiet_state [OF q st1(1)] by simp
  qed
qed

lemma finish_ok:
  assumes ok: "sys_ok config s" and e: "step env fr s (EvFinish c) = Some s'"
  shows "sys_ok config s'"
proof -
  from e obtain k where ph: "phase_of s c = PDraining k" and s': "s' = moved s c (finish_conn (sy_state s) k) PDone"
    by (auto split: phase.splits writer.splits)
  note k = conn_of [OF ok ph, of k, simplified]
  let ?st = "finish_conn (sy_state s) k"
  have "state_ok config ?st" "st_registry ?st = st_registry (sy_state s)"
    using sys_okD(1) [OF ok]
    by (auto simp: finish_conn_def release_conn_def open_guard_drop_def state_ok_def Let_def split: option.splits)
  moreover have "books_move (sy_state s) (PDraining k) ?st PDone"
    unfolding books_move_def
  proof (intro allI impI)
    fix C C' R R'
    assume b: "counted (sy_state s) (C @ conn_slots_of (PDraining k) @ C') (R @ reg_slots_of (PDraining k) @ R')"
    let ?p = "st_policy (sy_state s)"
    define a where "a = (case c_reg_slot k of None \<Rightarrow> st_abuse (sy_state s)
      | Some slot \<Rightarrow> drop_reg_slot slot (st_abuse (sy_state s)))"
    have st: "st_abuse ?st = drop_conn_slot (c_ip_slot k) a" "st_policy ?st = ?p"
      "open_connections ?st = open_connections (sy_state s) - 1"
      by (auto simp: a_def finish_conn_def release_conn_def open_guard_drop_def Let_def split: option.splits)
    have "rp.accounted ?p a (R @ R')"
      using b by (auto simp: a_def counted_def held_slot_def split: option.splits intro: rp.accounted_release)
    moreover have "cp.accounted ?p a (C @ c_ip_slot k # C')"
      using b by (auto simp: a_def counted_def split: option.splits intro: cp_frame)
    then have "cp.accounted ?p (drop_conn_slot (c_ip_slot k) a) (C @ C')" by (rule cp.accounted_release)
    ultimately show "counted ?st (C @ conn_slots_of PDone @ C') (R @ reg_slots_of PDone @ R')"
      using b by (auto simp: counted_def st intro: rp_frame)
  qed
  ultimately show ?thesis unfolding s'
    using moved_ok [OF ok k(1,2), of ?st PDone] sys_okD(2) [OF ok] by (simp add: task_ok_none)
qed

lemma sweep_ok:
  assumes ok: "sys_ok config s" and e: "step env fr s (EvSweep now) = Some s'"
  shows "sys_ok config s'"
proof -
  from e obtain pruned st1 where sw: "sweep_registry (sy_state s) now = (pruned, st1)"
    and s': "s' = s\<lparr>sy_state := st1, sy_pruned := pruned\<rparr>"
    by (auto split: if_splits prod.splits)
  note st1 = sweep_state [OF sys_okD(1) [OF ok] sw]
  have "holders_ok (st_registry st1) (sy_tasks s)"
    by (rule holders_remove [OF sys_okD(2) [OF ok]]) (simp add: st1(6) split: option.splits if_splits)
  moreover have "books_ok st1 (sy_tasks s)"
    using ok st1(2-4) counted_frame [of "sy_state s" "live_conns (sy_tasks s)" "live_regs (sy_tasks s)" st1]
    by (simp add: sys_ok_def books_ok_def)
  ultimately show ?thesis using ok st1(1) by (simp add: sys_ok_def s')
qed

lemma quiet_chan:
  "chan_recv (outs st) c = (x, cs) \<Longrightarrow> quiet st (st\<lparr>outs := cs\<rparr>)"
  "chan_recv (pexs st) c = (y, cs') \<Longrightarrow> quiet st (st\<lparr>pexs := cs'\<rparr>)"
  "quiet st (st\<lparr>outs := chan_close (outs st) c, pexs := chan_close (pexs st) c\<rparr>)"
proof -
  have "ch_open (cs d) = ch_open (outs st d)" if "chan_recv (outs st) c = (x, cs)" for d
    using that by (cases "d = c") (auto simp: chan_recv_def split: list.splits)
  then show "chan_recv (outs st) c = (x, cs) \<Longrightarrow> quiet st (st\<lparr>outs := cs\<rparr>)"
    by (simp add: quiet_def queues_ok_recv)
  show "chan_recv (pexs st) c = (y, cs') \<Longrightarrow> quiet st (st\<lparr>pexs := cs'\<rparr>)"
    by (simp add: quiet_def queues_ok_recv)
  show "quiet st (st\<lparr>outs := chan_close (outs st) c, pexs := chan_close (pexs st) c\<rparr>)"
    by (simp add: quiet_def) (simp add: chan_close_def)
qed

lemma writer_event:
  assumes "step env fr s e = Some s'" "e \<in> {EvWrite c, EvWritePex c, EvSent c b, EvDrained c, EvWriterEnd c}"
  obtains st' w where "s' = wrote s c st' w" "quiet (sy_state s) st'" "w \<noteq> WNone" "c < length (sy_tasks s)"
proof -
  have "writer_of s c \<noteq> WNone" using assms by (auto split: prod.splits)
  then have c: "c < length (sy_tasks s)" by (auto simp: writer_of_def split: if_splits)
  from assms(2) consider "e = EvWrite c" | "e = EvWritePex c" | "e = EvSent c b" | "e = EvDrained c" | "e = EvWriterEnd c"
    by auto
  then show thesis
  proof cases
    case 1
    with assms(1) obtain m cs where "chan_recv (outs (sy_state s)) c = (Some m, cs)"
      "s' = wrote s c ((sy_state s)\<lparr>outs := cs\<rparr>) WSend"
      by (auto split: prod.splits writer.splits option.splits)
    with that [OF _ quiet_chan(1) _ c] show thesis by blast
  next
    case 2
    with assms(1) obtain m cs where "chan_recv (pexs (sy_state s)) c = (Some m, cs)"
      "s' = wrote s c ((sy_state s)\<lparr>pexs := cs\<rparr>) WSend"
      by (auto split: prod.splits writer.splits option.splits)
    with that [OF _ quiet_chan(2) _ c] show thesis by blast
  next
    case 3
    with assms(1) that [OF _ quiet_refl _ c] show thesis by (auto split: writer.splits if_splits)
  next
    case 4
    with assms(1) that [OF _ quiet_refl _ c] show thesis by (auto split: writer.splits if_splits)
  next
    case 5
    with assms(1) that [OF _ quiet_chan(3) _ c] show thesis by (auto split: writer.splits)
  qed
qed

lemma writer_event_ok:
  assumes "sys_ok config s" "step env fr s e = Some s'"
    and "e \<in> {EvWrite c, EvWritePex c, EvSent c b, EvDrained c, EvWriterEnd c}"
  shows "sys_ok config s'"
  using assms(1) writer_event [OF assms(2,3)] wrote_quiet by metis

lemma background_ok:
  assumes "sys_ok config s" "step env fr s e = Some s'" "e \<in> {EvPrune, EvTick now, EvDhtAsk, EvDhtBuild now}"
  shows "sys_ok config s'"
proof -
  have "quiet (sy_state s) (sy_state s')" "sy_tasks s' = sy_tasks s"
    using assms(2,3) by (auto split: list.splits if_splits intro!: quiet)
  with sys_ok_quiet [OF assms(1)] show ?thesis by (simp add: sys_ok_def)
qed

lemma step_ok:
  assumes ok: "sys_ok config s" and max: "max_connections config < 2 ^ 64" and e: "step env fr s e = Some s'"
  shows "sys_ok config s'"
proof (cases e)
  case (EvLeave c)
  with e obtain k where "phase_of s c = PLoop k" "s' = moved s c (sy_state s) (PLeaving k)"
    by (auto split: phase.splits)
  with ok show ?thesis by (auto intro!: moved_conn)
next
  case (EvDepart c)
  with e obtain k i n where "phase_of s c = PDeparting k i n"
    "s' = moved s c (depart_section env (sy_state s) i n) (PDraining k)"
    by (auto split: phase.splits)
  with ok show ?thesis by (auto intro!: moved_conn quiet simp: depart_section_def)
next
  case (EvAccept x y z)
  show ?thesis by (rule accept_ok [OF ok e [unfolded EvAccept]])
next
  case (EvGate c n)
  show ?thesis by (rule gate_ok [OF ok e [unfolded EvGate]])
next
  case (EvSlot c n)
  show ?thesis by (rule slot_ok [OF ok e [unfolded EvSlot]])
next
  case (EvHead c h b n m)
  show ?thesis by (rule head_ok [OF ok e [unfolded EvHead]])
next
  case (EvFrame c f clk)
  show ?thesis by (rule frame_ok [OF ok e [unfolded EvFrame]])
next
  case (EvMirror c n)
  show ?thesis by (rule mirror_ok [OF ok e [unfolded EvMirror]])
next
  case (EvDeregister c)
  show ?thesis by (rule deregister_ok [OF ok e [unfolded EvDeregister]])
next
  case (EvFinish c)
  show ?thesis by (rule finish_ok [OF ok e [unfolded EvFinish]])
next
  case (EvSweep n)
  show ?thesis by (rule sweep_ok [OF ok e [unfolded EvSweep]])
next
  case (EvCommit c n)
  show ?thesis by (rule commit_ok_step [OF ok max e [unfolded EvCommit]])
qed (rule writer_event_ok [OF ok e] background_ok [OF ok e], simp)+

lemma system_new_ok: "sys_ok config (system_new config)"
proof -
  have "state_ok config (relay_state_new config)"
    by (simp add: state_ok_def relay_state_new_def registry_len_def registry_new_def registry_wf_def
        queues_ok_def no_chans_def)
  moreover have "counted (relay_state_new config) [] []"
    using abuse_reach_accounted [OF abuse_reach.init, of "fst (abuse_policy_new config)"]
    by (simp add: counted_def relay_state_new_def abuse_policy_new_def)
  ultimately show ?thesis
    by (simp add: sys_ok_def system_new_def books_ok_def live_conns_def live_regs_def holders_ok_def
        relay_state_new_def registry_new_def)
qed

lemma reachable_ok:
  assumes "reachable env fr config s" "max_connections config < 2 ^ 64"
  shows "sys_ok config s"
  using assms(1) by induction (use assms(2) system_new_ok step_ok in blast)+



section \<open>Who can displace whom\<close>

lemma verified_moved [simp]:
  "map t_verified (sy_tasks (moved s c st ph)) = map t_verified (sy_tasks s)"
  "map t_verified (sy_tasks (wrote s c st w)) = map t_verified (sy_tasks s)"
  "map t_verified (sy_tasks (head_section s c slot head hs now now')) = map t_verified (sy_tasks s)"
proof -
  have upd: "map t_verified ((ts :: task list)[c := t]) = map t_verified ts"
    if "t_verified t = t_verified (ts ! c)" for ts t
  proof (rule nth_equalityI)
    show "map t_verified (ts[c := t]) ! j = map t_verified ts ! j" if "j < length (map t_verified (ts[c := t]))" for j
      using that \<open>t_verified t = t_verified (ts ! c)\<close> by (cases "j = c") simp_all
  qed simp
  show 1: "map t_verified (sy_tasks (moved s c st ph)) = map t_verified (sy_tasks s)" for s st ph
    by (simp add: moved_def upd)
  show 2: "map t_verified (sy_tasks (wrote s c st w)) = map t_verified (sy_tasks s)" for s st w
    by (simp add: wrote_def upd)
  show "map t_verified (sy_tasks (head_section s c slot head hs now now')) = map t_verified (sy_tasks s)"
    by (simp add: head_section_def 1 2 Let_def split: prod.splits option.splits)
qed

lemma verified_step:
  assumes "step env fr s e = Some s'" "\<nexists>stream addr to. e = EvAccept stream addr to"
  shows "map t_verified (sy_tasks s') = map t_verified (sy_tasks s)"
  using assms by (cases e) (auto split: phase.splits writer.splits prod.splits option.splits if_splits list.splits)

text \<open>With mTLS on, every connection has proved an id.\<close>

lemma tasks_verified:
  assumes "reachable env fr config s" "fr_acceptor fr = Some acc" "honest_acceptor (fr_lib fr) acc"
  shows "None \<notin> set (map t_verified (sy_tasks s))"
  using assms(1)
proof induction
  case start
  then show ?case by (simp add: system_new_def)
next
  case (progress s e s')
  show ?case
  proof (cases "\<exists>stream addr to. e = EvAccept stream addr to")
    case False
    with progress verified_step show ?thesis by metis
  next
    case True
    then obtain stream addr to where e: "e = EvAccept stream addr to" by blast
    have "v \<noteq> None" if c: "connection_start (st_config (sy_state s)) (fr_lib fr) (Some acc) stream addr to = Some (x, a, v)"
      for x a v
    proof -
      from c obtain src t where "tls_accept acc src = Inr t" "v = extract_client_peer_id (fr_lib fr) acc t"
        by (auto simp: connection_start_def split: option.splits sum.splits)
      with assms(3) show ?thesis
        by (fastforce simp: honest_acceptor_def client_auth_mandatory_def verify_client_cert_def
            extract_client_peer_id_def peer_id_from_client_cert_der_def split: if_splits)
    qed
    with progress e assms(2) show ?thesis by (auto split: option.splits prod.splits)
  qed
qed

text \<open>Only three sections write to the registry.\<close>

lemma moved_simps [simp]: "sy_state (moved s c st ph) = st" "sy_state (wrote s c st w) = st"
  by (simp_all add: moved_def wrote_def)

lemma register_admit_registry: "st_registry (snd (register_admit st c ip t t')) = st_registry st"
  by (simp add: register_admit_def Let_def split: prod.splits option.splits)

lemma frame_section_registry: "frame_section env st k frame clk = (st', ph) \<Longrightarrow> st_registry st' = st_registry st"
proof (cases "frame_request env k frame clk")
  case None
  assume "frame_section env st k frame clk = (st', ph)"
  with None quiet_frame [of env st k frame clk] show ?thesis
    by (auto simp: frame_section_def quiet_def split: prod.splits)
next
  case (Some rq)
  assume "frame_section env st k frame clk = (st', ph)"
  moreover obtain x st1 where adm: "register_admit (stamp st (c_id k) (fc_live clk)) (c_id k) (sa_ip (c_addr k))
      (rc_rate (fc_reg clk)) (rc_strike (fc_reg clk)) = (x, st1)" by force
  ultimately have "st' = st1" using Some by (auto simp: frame_section_def Let_def split: option.splits)
  moreover have "st_registry st1 = st_registry st"
    using register_admit_registry [of "stamp st (c_id k) (fc_live clk)" "c_id k" "sa_ip (c_addr k)"
        "rc_rate (fc_reg clk)" "rc_strike (fc_reg clk)"] unfolding adm by (simp add: stamp_def)
  ultimately show ?thesis by simp
qed

lemma registry_step:
  assumes e: "step env fr s e = Some s'"
    and other: "\<nexists>c now. e = EvCommit c now" "\<nexists>c. e = EvDeregister c" "\<nexists>now. e = EvSweep now"
  shows "st_registry (sy_state s') = st_registry (sy_state s)"
proof (cases e)
  case (EvGate c now)
  with e show ?thesis by (auto split: phase.splits prod.splits dest!: accept_gate_quiet simp: quiet_def)
next
  case (EvSlot c now)
  with e show ?thesis
    by (auto simp: accept_slot_def open_guard_acquire_def open_guard_drop_def Let_def
        split: phase.splits prod.splits option.splits)
next
  case (EvHead c head hs now now')
  with e show ?thesis
    by (auto simp: head_section_def release_conn_def open_guard_drop_def ws_start_def Let_def split: phase.splits)
next
  case (EvFrame c frame clk)
  with e show ?thesis by (auto split: phase.splits prod.splits dest: frame_section_registry)
next
  case (EvMirror c now)
  with e show ?thesis
    by (auto simp: mirror_section_def register_mirror_def Let_def split: phase.splits option.splits)
next
  case (EvFinish c)
  with e show ?thesis
    by (auto simp: finish_conn_def release_conn_def open_guard_drop_def Let_def split: phase.splits writer.splits option.splits)
qed (use e other in \<open>auto simp: depart_section_def pex_housekeeping_tick_def dht_sweep_ask_def dht_sweep_build_def
    split: phase.splits writer.splits prod.splits option.splits list.splits if_splits\<close>)

text \<open>What one step does to one live registration.\<close>

lemma registration_step:
  assumes ok: "sys_ok config s" and max: "max_connections config < 2 ^ 64" and e: "step env fr s e = Some s'"
    and p: "map_of (st_registry (sy_state s)) i = Some p" "\<not> is_closed (outs (sy_state s)) (p_tx p)"
    and gone: "map_of (st_registry (sy_state s')) i \<noteq> Some p"
  shows "map_of (st_registry (sy_state s')) i = None
    \<and> ((\<exists>now. e = EvSweep now \<and> expired_at (sy_state s) now p)
      \<or> (\<exists>c k. e = EvDeregister c \<and> phase_of s c = PLeaving k \<and> s_peer_id (c_session k) = Some i
            \<and> may_hold (sy_tasks s) c i))"
proof -
  consider c now where "e = EvCommit c now" | c where "e = EvDeregister c" | now where "e = EvSweep now"
    using registry_step [OF e] p gone by metis
  then show ?thesis
  proof cases
    case 1
    with e obtain k rq slot where ph: "phase_of s c = PAdmitted k rq slot" by (cases "phase_of s c") auto
    obtain b st1 where com: "register_commit env (sy_state s) (c_id k) (rq_peer_id rq) (rq_network_id rq)
        (rq_protocol_version rq) (rq_listen_addrs rq) (sa_ip (c_addr k)) (c_verified k) now = (b, st1)" by force
    have reg: "st_registry (sy_state s') = st_registry st1"
      using e 1 ph com by (cases b) (auto simp: commit_section_def)
    have live: "live_incumbent (sy_state s) i" using p by (auto simp: live_incumbent_def)
    show ?thesis
    proof (cases b)
      case True
      then obtain q where "map_of (st_registry st1) = (map_of (st_registry (sy_state s)))(rq_peer_id rq \<mapsto> q)"
        "\<not> live_incumbent (sy_state s) (rq_peer_id rq)"
        using com register_commit_True [OF _ sys_okD(1) [OF ok] max] by metis
      with live p gone reg show ?thesis by (auto split: if_splits)
    next
      case False
      then have "quiet (sy_state s) st1" using com register_commit_False by metis
      with p gone reg show ?thesis by (simp add: quiet_def)
    qed
  next
    case 2
    with e obtain k where ph: "phase_of s c = PLeaving k" by (cases "phase_of s c") auto
    obtain st1 ph' where d: "deregister_section (sy_state s) k = (st1, ph')" by force
    then have reg: "st_registry (sy_state s') = st_registry st1" using e 2 ph by auto
    obtain j n where j: "s_peer_id (c_session k) = Some j" "s_network_id (c_session k) = Some n"
      using d reg p gone by (auto simp: deregister_section_def split: option.splits)
    obtain x st2 where rm: "remove_locked (sy_state s) j n = (x, st2)" by force
    have "st_registry st1 = st_registry st2"
      using d j rm by (auto simp: deregister_section_def split: option.splits)
    then have "i = j" "map_of (st_registry (sy_state s')) i = None"
      using remove_locked_state(7) [OF sys_okD(1) [OF ok] rm] reg p gone by (auto split: if_splits)
    then show ?thesis using 2 ph j conn_of(8) [OF ok ph, of k i] by simp
  next
    case 3
    with e obtain pruned where "sweep_registry (sy_state s) now = (pruned, sy_state s')"
      by (auto split: if_splits prod.splits)
    from sweep_state(6) [OF sys_okD(1) [OF ok] this, of i] 3 p gone show ?thesis by (auto split: if_splits)
  qed
qed

text \<open>C3. In every reachable state an id is registered to a connection that may hold it: with mTLS on,
  one that proved it by its certificate. A registration whose channel is open never changes hands
  in one step. It can only disappear, and only in two ways: the sweep finds it silent for longer
  than the liveness deadline, or a connection that registered the id itself tears down; with mTLS
  on, that connection too has proved the id.\<close>

theorem registration_displaced_by_owner:
  assumes "reachable env fr config s" "max_connections config < 2 ^ 64"
    and "map_of (st_registry (sy_state s)) i = Some p"
  shows "may_hold (sy_tasks s) (p_tx p) i
    \<and> (fr_acceptor fr = Some acc \<and> honest_acceptor (fr_lib fr) acc \<longrightarrow>
         t_verified (sy_tasks s ! p_tx p) = Some i)
    \<and> (\<forall>e s'. step env fr s e = Some s' \<and> \<not> is_closed (outs (sy_state s)) (p_tx p)
         \<and> map_of (st_registry (sy_state s')) i \<noteq> Some p \<longrightarrow>
         map_of (st_registry (sy_state s')) i = None
         \<and> ((\<exists>now. e = EvSweep now \<and> expired_at (sy_state s) now p)
           \<or> (\<exists>c k. e = EvDeregister c \<and> phase_of s c = PLeaving k \<and> s_peer_id (c_session k) = Some i
                \<and> (fr_acceptor fr = Some acc \<and> honest_acceptor (fr_lib fr) acc \<longrightarrow>
                     t_verified (sy_tasks s ! c) = Some i))))"
proof -
  note ok = reachable_ok [OF assms(1,2)]
  have hold: "may_hold (sy_tasks s) (p_tx p) i" using sys_okD(2) [OF ok] assms(3) by (simp add: holders_ok_def)
  have proved: "t_verified (sy_tasks s ! c) = Some i"
    if "fr_acceptor fr = Some acc \<and> honest_acceptor (fr_lib fr) acc" "may_hold (sy_tasks s) c i" for c
  proof -
    have "c < length (sy_tasks s)" "t_verified (sy_tasks s ! c) \<in> {None, Some i}"
      using that(2) by (simp_all add: may_hold_def)
    moreover have "t_verified (sy_tasks s ! c) \<noteq> None"
      using tasks_verified [OF assms(1), of acc] that(1) \<open>c < length (sy_tasks s)\<close>
      by (metis length_map nth_map nth_mem)
    ultimately show ?thesis by blast
  qed
  from hold proved registration_step [OF ok assms(2) _ assms(3)] show ?thesis by blast
qed

text \<open>A connection with a client certificate registers its id and, being silent, is swept.\<close>

definition cert_id :: string where "cert_id = hex_lower (sha256 demo_tls_lib [0xAB])"

definition tls_front :: "unit front" where
  "tls_front = \<lparr>fr_lib = demo_tls_lib, fr_acceptor = Some demo_acceptor\<rparr>"

definition tls_env :: "(string list, nat) env" where
  "tls_env = demo_env\<lparr>e_decode := (\<lambda>_. Some (Register cert_id ''net'' 1 []))\<rparr>"

lemma demo_identity: "extract_client_peer_id demo_tls_lib demo_acceptor x = Some cert_id" "tls_accept demo_acceptor y = Inr ()"
  by (simp_all add: extract_client_peer_id_def peer_id_from_client_cert_der_def demo_acceptor_def demo_tls_lib_def cert_id_def)

theorem registration_displaced_by_owner_witness:
  "\<exists>s s'. runs tls_env tls_front (system_new sys_config) (open_events 0 @ register_events 0 1) = Some s
     \<and> t_verified (sy_tasks s ! 0) = Some cert_id
     \<and> step tls_env tls_front s (EvSweep 1000) = Some s' \<and> map_of (st_registry (sy_state s')) cert_id = None"
proof -
  have "\<exists>s s' p. runs tls_env tls_front (system_new sys_config) (open_events 0 @ register_events 0 1) = Some s
     \<and> map_of (st_registry (sy_state s)) cert_id = Some p \<and> p_tx p = 0 \<and> \<not> is_closed (outs (sy_state s)) 0
     \<and> step tls_env tls_front s (EvSweep 1000) = Some s' \<and> map_of (st_registry (sy_state s')) cert_id \<noteq> Some p"
    by (simp add: run_simps tls_env_def tls_front_def demo_identity)
  then obtain s s' p where s: "runs tls_env tls_front (system_new sys_config) (open_events 0 @ register_events 0 1) = Some s"
    "map_of (st_registry (sy_state s)) cert_id = Some p" "p_tx p = 0" "\<not> is_closed (outs (sy_state s)) 0"
    "step tls_env tls_front s (EvSweep 1000) = Some s'" "map_of (st_registry (sy_state s')) cert_id \<noteq> Some p" by blast
  have "reachable tls_env tls_front sys_config s" by (rule runs_reachable [OF s(1) reachable.start])
  moreover have "max_connections sys_config < 2 ^ 64" by (simp add: sys_config_def default_config_def default_defs)
  moreover have "fr_acceptor tls_front = Some demo_acceptor \<and> honest_acceptor (fr_lib tls_front) demo_acceptor"
    by (simp add: tls_front_def honest_acceptor_def demo_acceptor_def verify_client_cert_def demo_tls_lib_def)
  ultimately have "t_verified (sy_tasks s ! 0) = Some cert_id" "map_of (st_registry (sy_state s')) cert_id = None"
    using registration_displaced_by_owner [of tls_env tls_front sys_config s cert_id p demo_acceptor] s by metis+
  with s show ?thesis by blast
qed

end
