(* ===== verification/Relay_Teardown.thy ===== *)
theory Relay_Teardown
  imports Relay_Invariants
begin

text \<open>
  The end of one connection in the running relay: once it has left its read loop, every step of its
  own tasks brings it closer to its end, by a measure bounded by the capacity of its queues, and there
  always is such a step unless somebody else still holds a sender of its channel.
\<close>

fun phase_rank :: "phase \<Rightarrow> nat" where
  "phase_rank (PLeaving _) = 3"
| "phase_rank (PDeparting _ _ _) = 2"
| "phase_rank (PDraining _) = 1"
| "phase_rank _ = 0"

fun writer_weight :: "writer \<Rightarrow> nat \<Rightarrow> nat" where
  "writer_weight WSend q = 4 + 2 * q"
| "writer_weight WRun q = 3 + 2 * q"
| "writer_weight WClose q = 2"
| "writer_weight WEnd q = 1"
| "writer_weight WNone q = 0"

text \<open>A bound on the steps the tasks of a connection can still take without further input.\<close>

definition steps_left :: "('e, 'm) system \<Rightarrow> conn_id \<Rightarrow> nat" where
  "steps_left s c = phase_rank (phase_of s c) * (4 * outbound_queue_capacity (st_config (sy_state s)) + 5)
     + writer_weight (writer_of s c) (length (ch_queue (outs (sy_state s) c)) + length (ch_queue (pexs (sy_state s) c)))"

lemma writer_weight_le: "q \<le> 2 * n \<Longrightarrow> writer_weight w q \<le> 4 * n + 4"
  by (cases w) simp_all

lemma queues_le:
  assumes "state_ok config st"
  shows "length (ch_queue (outs st c)) + length (ch_queue (pexs st c)) \<le> 2 * outbound_queue_capacity config"
proof -
  have "length (ch_queue (outs st c)) \<le> outbound_queue_capacity config"
    "length (ch_queue (pexs st c)) \<le> outbound_queue_capacity config"
    using assms unfolding state_ok_def queues_ok_def by (meson order_trans)+
  then show ?thesis by simp
qed

lemma phase_moved [simp]:
  "c < length (sy_tasks s) \<Longrightarrow> phase_of (moved s c st ph) c = ph"
  "writer_of (moved s c st ph) d = writer_of s d"
  "phase_of (wrote s c st w) d = phase_of s d"
  "c < length (sy_tasks s) \<Longrightarrow> writer_of (wrote s c st w) c = w"
  by (cases "d = c"; simp add: phase_of_def writer_of_def moved_def wrote_def)+

text \<open>A step of the task itself: the rank goes down.\<close>

lemma steps_left_moved:
  assumes ok: "state_ok config (sy_state s)" "state_ok config st'" and c: "c < length (sy_tasks s)"
    and rank: "phase_rank ph < phase_rank (phase_of s c)"
  shows "steps_left (moved s c st' ph) c < steps_left s c"
proof -
  let ?n = "4 * outbound_queue_capacity config + 5"
  let ?w = "\<lambda>st. writer_weight (writer_of s c) (length (ch_queue (outs st c)) + length (ch_queue (pexs st c)))"
  have cfg: "st_config (sy_state s) = config" "st_config st' = config" using ok by (simp_all add: state_ok_def)
  have "?w st' < ?n" using writer_weight_le [OF queues_le [OF ok(2), of c], of "writer_of s c"] by linarith
  then have "phase_rank ph * ?n + ?w st' < Suc (phase_rank ph) * ?n" by simp
  also have "\<dots> \<le> phase_rank (phase_of s c) * ?n" using rank by (intro mult_le_mono1) simp
  finally show ?thesis using c by (simp add: steps_left_def cfg)
qed

lemma own_step_decreases:
  assumes ok: "sys_ok config s" and max: "max_connections config < 2 ^ 64"
    and e: "step env fr s e = Some s'" "e \<in> set (own_events c)"
  shows "steps_left s' c < steps_left s c"
proof -
  have ok': "sys_ok config s'" by (rule step_ok [OF ok max e(1)])
  note st = sys_okD(1) [OF ok] sys_okD(1) [OF ok']
  have down: "steps_left s' c < steps_left s c"
    if "s' = moved s c st' ph" "phase_rank ph < phase_rank (phase_of s c)" for st' ph
  proof -
    have "c < length (sy_tasks s)" using that(2) by (auto simp: phase_of_def split: if_splits)
    then show ?thesis using steps_left_moved [of config s st' c ph] st that by simp
  qed
  have len: "writer_of s c = w \<Longrightarrow> w \<noteq> WNone \<Longrightarrow> c < length (sy_tasks s)" for w
    by (auto simp: writer_of_def split: if_splits)
  from e(2) consider "e = EvDeregister c" | "e = EvDepart c" | "e = EvWrite c" | "e = EvWritePex c"
    | b where "e = EvSent c b" | "e = EvDrained c" | "e = EvWriterEnd c" | "e = EvFinish c"
    by (auto simp: own_events_def)
  then show ?thesis
  proof cases
    case 1
    with e obtain k where ph: "phase_of s c = PLeaving k" by (cases "phase_of s c") auto
    obtain st1 ph' where "deregister_section (sy_state s) k = (st1, ph')" by force
    then show ?thesis using 1 e(1) ph
      by (intro down [of st1 ph']) (auto simp: deregister_section_def split: option.splits prod.splits)
  next
    case 2
    with e(1) obtain k i n where "phase_of s c = PDeparting k i n"
      "s' = moved s c (depart_section env (sy_state s) i n) (PDraining k)"
      by (auto split: phase.splits)
    then show ?thesis using down [of "depart_section env (sy_state s) i n" "PDraining k"] by simp
  next
    case 3
    with e(1) len show ?thesis
      by (auto simp: steps_left_def chan_recv_def split: writer.splits prod.splits option.splits list.splits)
  next
    case 4
    with e(1) len show ?thesis
      by (auto simp: steps_left_def chan_recv_def split: writer.splits prod.splits option.splits list.splits)
  next
    case 5
    with e(1) len show ?thesis by (auto simp: steps_left_def split: writer.splits)
  next
    case 6
    with e(1) len show ?thesis by (auto simp: steps_left_def split: writer.splits if_splits)
  next
    case 7
    with e(1) len show ?thesis by (auto simp: steps_left_def split: writer.splits)
  next
    case 8
    with e(1) obtain k where "phase_of s c = PDraining k" "s' = moved s c (finish_conn (sy_state s) k) PDone"
      by (auto split: phase.splits writer.splits)
    then show ?thesis using down [of "finish_conn (sy_state s) k" PDone] by simp
  qed
qed

lemma own_run_bounded:
  assumes "sys_ok config s" "max_connections config < 2 ^ 64"
    and "runs env fr s es = Some s'" "set es \<subseteq> set (own_events c)"
  shows "sys_ok config s' \<and> length es + steps_left s' c \<le> steps_left s c"
  using assms
proof (induction es arbitrary: s)
  case (Cons e es)
  then obtain s1 where s1: "step env fr s e = Some s1" "runs env fr s1 es = Some s'"
    by (auto split: option.splits)
  have "e \<in> set (own_events c)" "set es \<subseteq> set (own_events c)" using Cons.prems(4) by simp_all
  moreover have "steps_left s1 c < steps_left s c"
    by (rule own_step_decreases [OF Cons.prems(1,2) s1(1)]) fact
  moreover have "sys_ok config s1" by (rule step_ok [OF Cons.prems(1,2) s1(1)])
  ultimately show ?case using Cons.IH [OF _ Cons.prems(2) s1(2)] by fastforce
qed simp

lemma steps_left_le:
  assumes ok: "sys_ok config s"
  shows "steps_left s c \<le> 16 * outbound_queue_capacity config + 19"
proof -
  have "phase_rank (phase_of s c) \<le> 3" by (cases "phase_of s c") simp_all
  then have "phase_rank (phase_of s c) * (4 * outbound_queue_capacity config + 5) \<le> 3 * (4 * outbound_queue_capacity config + 5)"
    by (rule mult_le_mono1)
  moreover have "st_config (sy_state s) = config" using sys_okD(1) [OF ok] by (simp add: state_ok_def)
  ultimately show ?thesis
    using writer_weight_le [OF queues_le [OF sys_okD(1) [OF ok], of c], of "writer_of s c"] by (simp add: steps_left_def)
qed

text \<open>Once out of the read loop, a connection's own steps keep it out, and it has a next step unless it
  is done or its writer waits for a sender that somebody else holds.\<close>

definition leaving :: "phase \<Rightarrow> bool" where
  "leaving ph \<longleftrightarrow> 0 < phase_rank ph \<or> ph = PDone"

lemma own_step_leaving:
  assumes "step env fr s e = Some s'" "e \<in> set (own_events c)" "leaving (phase_of s c)"
  shows "leaving (phase_of s' c)"
proof (cases "c < length (sy_tasks s)")
  case True
  with assms show ?thesis
    by (auto simp: own_events_def leaving_def deregister_section_def
        split: phase.splits writer.splits prod.splits option.splits if_splits)
next
  case False
  with assms show ?thesis by (auto simp: own_events_def phase_of_def writer_of_def)
qed

lemma own_run_leaving:
  "runs env fr s es = Some s' \<Longrightarrow> set es \<subseteq> set (own_events c) \<Longrightarrow> leaving (phase_of s c) \<Longrightarrow> leaving (phase_of s' c)"
  by (induction es arbitrary: s) (auto split: option.splits dest: own_step_leaving)

lemma own_step_enabled:
  assumes ok: "sys_ok config s" and ph: "leaving (phase_of s c)"
    and stuck: "\<And>e. e \<in> set (own_events c) \<Longrightarrow> step env fr s e = None"
  shows "phase_of s c = PDone \<or>
    (\<exists>k. phase_of s c = PDraining k) \<and> ch_queue (outs (sy_state s) c) = []
      \<and> ((\<exists>i p. map_of (st_registry (sy_state s)) i = Some p \<and> p_tx p = c)
         \<or> (\<exists>(_, _, targets) \<in> set (sy_pruned s). c \<in> snd ` set targets))"
proof -
  note none = stuck [unfolded own_events_def, simplified]
  consider "phase_of s c = PDone" | k where "phase_of s c = PLeaving k"
    | k i n where "phase_of s c = PDeparting k i n" | k where "phase_of s c = PDraining k"
    using ph by (cases "phase_of s c") (auto simp: leaving_def)
  then show ?thesis
  proof cases
    case 2
    then show ?thesis using none [of "EvDeregister c"] by (auto split: prod.splits)
  next
    case 3
    then show ?thesis using none [of "EvDepart c"] by auto
  next
    case (4 k)
    have w: "writer_of s c \<noteq> WNone"
      using conn_of(1,6) [OF ok 4, of k] by (simp add: writer_of_def)
    have "writer_of s c = WRun"
      using w none [of "EvSent c True"] none [of "EvWriterEnd c"] none [of "EvFinish c"] 4
      by (cases "writer_of s c") auto
    moreover from this have "ch_queue (outs (sy_state s) c) = []"
      using none [of "EvWrite c"] by (auto simp: chan_recv_def split: list.splits)
    ultimately have "sender_held s c" using none [of "EvDrained c"] by (simp split: if_splits)
    moreover have "map_of (st_registry (sy_state s)) i = Some p" if "(i, p) \<in> set (st_registry (sy_state s))" for i p
      using that state_counted [OF sys_okD(1) [OF ok]] by (simp add: registry_counted_def hm_wf_map_of)
    ultimately show ?thesis
      using 4 \<open>ch_queue (outs (sy_state s) c) = []\<close> by (fastforce simp: sender_held_def)
  qed simp
qed



end
