(* ===== verification/Continuation_Guard.thy ===== *)
theory Continuation_Guard
  imports Rust_Str "HOL-Library.Multiset"
begin

text \<open>
  \<^verbatim>\<open>src/continuation_guard.rs\<close>: the check, run with the unit tests, that no string literal of the source
  lost its line continuation. The source tree is a tree of named files and directories (a directory
  or file that cannot be read is \<open>None\<close>); the walk with its explicit stack, the scan of a line and the
  verdict are as in the source. Shown: the walk visits every readable Rust file exactly once, in whatever
  order the directories list them, and the verdict is exactly that enough files were read and that no
  line of code has a control character or a long run of blanks before something other than a comment.
\<close>

definition EXCLUDED_DIRS :: "string list" where "EXCLUDED_DIRS = []"

definition EXCLUDED_LINE_RANGES :: "(string \<times> u32 \<times> u32) list" where "EXCLUDED_LINE_RANGES = []"

definition CLI_COLUMN_FILES :: "string list" where "CLI_COLUMN_FILES = []"

definition MIN_DEFECT_RUN :: nat where "MIN_DEFECT_RUN = 10"

definition MIN_FILES_SCANNED :: nat where "MIN_FILES_SCANNED = 15"

record offense =
  of_file :: string
  of_line :: u32
  of_fragment :: string

definition is_excluded_line :: "string \<Rightarrow> u32 \<Rightarrow> bool" where
  "is_excluded_line file_name line_no \<longleftrightarrow>
     (\<exists>(f, a, b) \<in> set EXCLUDED_LINE_RANGES. f = file_name \<and> a \<le> line_no \<and> line_no \<le> b)"

definition is_excluded_dir :: "string list \<Rightarrow> bool" where
  "is_excluded_dir rel_path \<longleftrightarrow> (\<exists>c \<in> set rel_path. c \<in> set EXCLUDED_DIRS)"

section \<open>One line\<close>

text \<open>The byte offset of the first control character: below a blank, \<^verbatim>\<open>DEL\<close>, or one of
  \<^verbatim>\<open>U+0080\<close> to \<^verbatim>\<open>U+009F\<close>, which are encoded in two bytes.\<close>

fun first_control :: "string \<Rightarrow> nat option" where
  "first_control [] = None"
| "first_control (c # s) =
     (if of_char c < (0x20 :: nat) \<or> of_char c = (0x7F :: nat)
        \<or> of_char c = (0xC2 :: nat) \<and> s \<noteq> [] \<and> of_char (hd s) \<le> (0x9F :: nat)
      then Some 0 else map_option Suc (first_control s))"

function long_run :: "string \<Rightarrow> bool" where
  "long_run s =
     (if s = [] then False
      else if hd s \<noteq> CHR '' '' then long_run (tl s)
      else let run = takeWhile (\<lambda>c. c = CHR '' '') s; rest = dropWhile (\<lambda>c. c = CHR '' '') s
           in if length run < MIN_DEFECT_RUN then long_run rest
              else if prefix ''//'' rest then long_run rest
              else True)"
  by pat_completeness auto

termination
proof (relation "measure length")
  fix s :: string and run rest
  assume "s \<noteq> []" "\<not> hd s \<noteq> CHR '' ''" "rest = dropWhile (\<lambda>c. c = CHR '' '') s"
  then have "length rest < length s"
    by (cases s) (auto simp: le_imp_less_Suc length_dropWhile_le)
  then show "(rest, s) \<in> measure length" "(rest, s) \<in> measure length" by simp_all
qed auto

declare long_run.simps [simp del]

definition scan_line :: "string \<Rightarrow> u32 \<Rightarrow> string \<Rightarrow> offense option" where
  "scan_line file_name line_no raw_line =
     (if is_excluded_line file_name line_no then None
      else let t = trim_start raw_line in
        if t = [] then None
        else if prefix ''//'' t then None
        else (case first_control t of
                Some pos \<Rightarrow> Some \<lparr>of_file = file_name, of_line = line_no,
                              of_fragment = ''<control char at byte '' @ show_nat pos @ ''>''\<rparr>
              | None \<Rightarrow>
                  if file_name \<in> set CLI_COLUMN_FILES \<and> sublist [CHR 0x5C, CHR ''n''] t then None
                  else if long_run t then Some \<lparr>of_file = file_name, of_line = line_no, of_fragment = t\<rparr>
                  else None))"

definition scan_file :: "string \<Rightarrow> string \<Rightarrow> offense list" where
  "scan_file file_name contents =
     List.map_filter (\<lambda>(idx, raw_line). scan_line file_name (of_nat (idx + 1)) raw_line)
       (enumerate 0 (str_lines contents))"

section \<open>The tree\<close>

datatype node = FileNode string "string option" | DirNode string "node list option"

text \<open>\<^verbatim>\<open>Path::extension\<close> of a file name: after its last dot, unless that dot is the first character.\<close>

definition extension :: "string \<Rightarrow> string option" where
  "extension name =
     (let after = rev (takeWhile (\<lambda>c. c \<noteq> CHR ''.'') (rev name))
      in if CHR ''.'' \<notin> set name \<or> Suc (length after) = length name \<or> name = ''..'' then None else Some after)"

type_synonym scan = "nat \<times> offense list"

definition visit_file :: "string list \<Rightarrow> string \<Rightarrow> string option \<Rightarrow> scan \<Rightarrow> scan" where
  "visit_file rel name contents acc =
     (if extension name \<noteq> Some ''rs'' then acc
      else if is_excluded_dir rel then acc
      else (case contents of
              None \<Rightarrow> acc
            | Some text \<Rightarrow> (fst acc + 1, snd acc @ scan_file (if is_utf8 name then name else []) text)))"

text \<open>The entries of one directory: directories are pushed, files are scanned.\<close>

type_synonym pending = "(string list \<times> node list option) list"

fun visit_entries :: "string list \<Rightarrow> node list \<Rightarrow> pending \<Rightarrow> scan \<Rightarrow> pending \<times> scan" where
  "visit_entries rel [] stack acc = (stack, acc)"
| "visit_entries rel (FileNode name contents # es) stack acc =
     visit_entries rel es stack (visit_file (rel @ [name]) name contents acc)"
| "visit_entries rel (DirNode name sub # es) stack acc =
     (if is_excluded_dir (rel @ [name]) then visit_entries rel es stack acc
      else visit_entries rel es (stack @ [(rel @ [name], sub)]) acc)"

definition node_weight :: "node list option \<Rightarrow> nat" where
  "node_weight d = size_option (size_list size) d"

definition stack_weight :: "pending \<Rightarrow> nat" where
  "stack_weight st = sum_list (map (\<lambda>(_, d). Suc (node_weight d)) st)"

lemma visit_entries_weight:
  "stack_weight (fst (visit_entries rel es stack acc)) \<le> stack_weight stack + size_list size es"
proof (induction rel es stack acc rule: visit_entries.induct)
  case (3 rel name sub es stack acc)
  have "node_weight sub \<le> size (DirNode name sub)" by (simp add: node_weight_def)
  with 3 show ?case by (auto simp: stack_weight_def)
qed (simp_all add: le_SucI trans_le_add2)

lemma stack_weight_pop: "stack \<noteq> [] \<Longrightarrow> stack_weight stack = stack_weight (butlast stack) + Suc (node_weight (snd (last stack)))"
  by (cases stack rule: rev_cases) (simp_all add: stack_weight_def split_def)

function walk :: "pending \<Rightarrow> scan \<Rightarrow> scan" where
  "walk stack acc =
     (if stack = [] then acc
      else (case last stack of
              (_, None) \<Rightarrow> walk (butlast stack) acc
            | (rel, Some es) \<Rightarrow>
                walk (fst (visit_entries rel es (butlast stack) acc)) (snd (visit_entries rel es (butlast stack) acc))))"
  by pat_completeness auto

termination
proof (relation "measure (\<lambda>(stack, _). stack_weight stack)")
  fix stack :: pending and acc :: scan and rel and d :: "node list option" and es
  assume st: "stack \<noteq> []" "(rel, d) = last stack"
  note pop = stack_weight_pop [OF st(1)]
  show "((butlast stack, acc), stack, acc) \<in> measure (\<lambda>(stack, _). stack_weight stack)"
    using pop by simp
  show "((fst (visit_entries rel es (butlast stack) acc), snd (visit_entries rel es (butlast stack) acc)), stack, acc)
      \<in> measure (\<lambda>(stack, _). stack_weight stack)" if "d = Some es"
    using pop st(2) [symmetric] that visit_entries_weight [of rel es "butlast stack" acc]
    by (simp add: node_weight_def split_def)
qed simp

declare walk.simps [simp del]

definition scan_source_tree :: "node list option \<Rightarrow> scan" where
  "scan_source_tree src_root = walk [([], src_root)] (0, [])"

definition guard_passes :: "node list option \<Rightarrow> bool" where
  "guard_passes src_root \<longleftrightarrow>
     (let (files_scanned, offenses) = scan_source_tree src_root
      in files_scanned > MIN_FILES_SCANNED \<and> offenses = [])"

section \<open>What is scanned\<close>

text \<open>The Rust files of a tree, with the name under which offenses are reported.\<close>

fun rust_files :: "string list \<Rightarrow> node \<Rightarrow> (string \<times> string) list" where
  "rust_files rel (FileNode name contents) =
     (case contents of
        Some text \<Rightarrow>
          if extension name = Some ''rs'' \<and> \<not> is_excluded_dir (rel @ [name])
          then [(if is_utf8 name then name else [], text)] else []
      | None \<Rightarrow> [])"
| "rust_files rel (DirNode name sub) =
     (case sub of
        Some es \<Rightarrow> if is_excluded_dir (rel @ [name]) then [] else concat (map (rust_files (rel @ [name])) es)
      | None \<Rightarrow> [])"

definition dir_files :: "string list \<times> node list option \<Rightarrow> (string \<times> string) list" where
  "dir_files x = (case x of (rel, Some es) \<Rightarrow> concat (map (rust_files rel) es) | _ \<Rightarrow> [])"

definition scan_all :: "(string \<times> string) list \<Rightarrow> offense list" where
  "scan_all fs = concat (map (\<lambda>(name, text). scan_file name text) fs)"

definition scanned :: "scan \<Rightarrow> (string \<times> string) list \<Rightarrow> scan \<Rightarrow> bool" where
  "scanned acc fs acc' \<longleftrightarrow> fst acc' = fst acc + length fs \<and> mset (snd acc') = mset (snd acc) + mset (scan_all fs)"

lemma scan_all_append [simp]: "scan_all (a @ b) = scan_all a @ scan_all b"
  by (simp add: scan_all_def)

lemma scanned_trans: "scanned a fs b \<Longrightarrow> scanned b gs c \<Longrightarrow> scanned a (fs @ gs) c"
  by (simp add: scanned_def)

lemma scanned_perm: "scanned a fs b \<Longrightarrow> mset fs = mset gs \<Longrightarrow> scanned a gs b"
proof -
  assume s: "scanned a fs b" and eq: "mset fs = mset gs"
  have "mset (scan_all hs) = \<Sum>\<^sub># (image_mset (\<lambda>(n, t). mset (scan_file n t)) (mset hs))" for hs
    by (induction hs) (auto simp: scan_all_def)
  with s eq show ?thesis unfolding scanned_def by (metis size_mset)
qed

lemma visit_file_scanned: "scanned acc (rust_files rel (FileNode name c)) (visit_file (rel @ [name]) name c acc)"
  by (simp add: scanned_def visit_file_def scan_all_def split: option.splits)

lemma visit_entries_scanned:
  assumes "visit_entries rel es stack acc = (stack', acc')"
  shows "\<exists>new seen. stack' = stack @ new \<and> scanned acc seen acc'
    \<and> mset (seen @ concat (map dir_files new)) = mset (concat (map (rust_files rel) es))"
  using assms
proof (induction rel es stack acc arbitrary: stack' acc' rule: visit_entries.induct)
  case (1 rel stack acc)
  then show ?case by (intro exI [of _ "[]"]) (simp add: scanned_def scan_all_def)
next
  case (2 rel name contents es stack acc)
  let ?acc = "visit_file (rel @ [name]) name contents acc"
  obtain new seen where n: "stack' = stack @ new" "scanned ?acc seen acc'"
    "mset (seen @ concat (map dir_files new)) = mset (concat (map (rust_files rel) es))"
    using 2 by auto
  with scanned_trans [OF visit_file_scanned n(2)] show ?case
    by (intro exI [of _ new] exI [of _ "rust_files rel (FileNode name contents) @ seen"]) simp
next
  case (3 rel name sub es stack acc)
  show ?case
  proof (cases "is_excluded_dir (rel @ [name])")
    case True
    moreover from this have "rust_files rel (DirNode name sub) = []" by (simp split: option.splits)
    ultimately show ?thesis using 3(1) [OF True] 3(3) by simp
  next
    case False
    then have d: "rust_files rel (DirNode name sub) = dir_files (rel @ [name], sub)"
      by (simp add: dir_files_def split: option.splits)
    obtain new seen where n: "stack' = (stack @ [(rel @ [name], sub)]) @ new" "scanned acc seen acc'"
      "mset (seen @ concat (map dir_files new)) = mset (concat (map (rust_files rel) es))"
      using 3(2) [OF False] 3(3) False by auto
    then show ?thesis
      by (intro exI [of _ "(rel @ [name], sub) # new"] exI [of _ seen]) (simp add: d del: rust_files.simps)
  qed
qed

lemma walk_scanned: "scanned acc (concat (map dir_files stack)) (walk stack acc)"
proof (induction stack acc rule: walk.induct)
  case (1 stack acc)
  show ?case
  proof (cases "stack = []")
    case True
    then show ?thesis by (simp add: walk.simps scanned_def scan_all_def)
  next
    case False
    obtain rel d where l: "last stack = (rel, d)" by force
    have st: "stack = butlast stack @ [(rel, d)]" using False l by (metis append_butlast_last_id)
    show ?thesis
    proof (cases d)
      case None
      with 1(1) False l have "scanned acc (concat (map dir_files (butlast stack))) (walk (butlast stack) acc)" by simp
      moreover have "walk stack acc = walk (butlast stack) acc" using False l None by (subst walk.simps) simp
      moreover have "concat (map dir_files stack) = concat (map dir_files (butlast stack))"
        using None by (subst st) (simp add: dir_files_def)
      ultimately show ?thesis by simp
    next
      case (Some es)
      obtain stack' acc' where v: "visit_entries rel es (butlast stack) acc = (stack', acc')" by (rule prod.exhaust)
      obtain new seen where n: "stack' = butlast stack @ new" "scanned acc seen acc'"
        "mset (seen @ concat (map dir_files new)) = mset (concat (map (rust_files rel) es))"
        using visit_entries_scanned [OF v] by blast
      have "scanned acc' (concat (map dir_files stack')) (walk stack' acc')"
        using 1(2) [OF False l [symmetric] Some] v by simp
      from scanned_trans [OF n(2) this]
      have "scanned acc (concat (map dir_files stack)) (walk stack' acc')"
      proof (rule scanned_perm)
        have "concat (map dir_files stack) = concat (map dir_files (butlast stack)) @ concat (map (rust_files rel) es)"
          using Some by (subst st) (simp add: dir_files_def)
        with n(1,3) show "mset (seen @ concat (map dir_files stack')) = mset (concat (map dir_files stack))" by simp
      qed
      moreover have "walk stack acc = walk stack' acc'" using False l Some v by (subst walk.simps) simp
      ultimately show ?thesis by simp
    qed
  qed
qed

lemma scan_source_tree_exact:
  "fst (scan_source_tree root_dir) = length (dir_files ([], root_dir))
   \<and> mset (snd (scan_source_tree root_dir)) = mset (scan_all (dir_files ([], root_dir)))"
  using walk_scanned [of "(0, [])" "[([], root_dir)]"] by (simp add: scan_source_tree_def scanned_def)

section \<open>What is reported\<close>

lemma first_control_None:
  "first_control s = None \<longleftrightarrow> \<not> (\<exists>a c b. s = a @ c # b \<and> (of_char c < (0x20 :: nat) \<or> of_char c = (0x7F :: nat)
     \<or> of_char c = (0xC2 :: nat) \<and> b \<noteq> [] \<and> of_char (hd b) \<le> (0x9F :: nat)))"
  (is "_ \<longleftrightarrow> \<not> (\<exists>a c b. s = a @ c # b \<and> ?bad c b)")
proof (induction s)
  case (Cons x s)
  have "(\<exists>a c b. x # s = a @ c # b \<and> P c b) \<longleftrightarrow> P x s \<or> (\<exists>a c b. s = a @ c # b \<and> P c b)" for P
    by (metis append_Cons append_Nil list.inject neq_Nil_conv)
  with Cons show ?case by simp
qed simp

text \<open>A maximal run of at least ten blanks that does not lead up to a comment.\<close>

definition torn :: "string \<Rightarrow> bool" where
  "torn s \<longleftrightarrow> (\<exists>a k b. s = a @ replicate k (CHR '' '') @ b \<and> MIN_DEFECT_RUN \<le> k
     \<and> (a = [] \<or> last a \<noteq> CHR '' '') \<and> (b = [] \<or> hd b \<noteq> CHR '' '') \<and> \<not> prefix ''//'' b)"

lemma torn_skip:
  assumes "x \<noteq> CHR '' ''"
  shows "torn (x # s) \<longleftrightarrow> torn s"
proof
  assume "torn (x # s)"
  then obtain a k b where t: "x # s = a @ replicate k (CHR '' '') @ b" "MIN_DEFECT_RUN \<le> k"
    "a = [] \<or> last a \<noteq> CHR '' ''" "b = [] \<or> hd b \<noteq> CHR '' ''" "\<not> prefix ''//'' b" unfolding torn_def by blast
  have "k \<noteq> 0" using t(2) by (simp add: MIN_DEFECT_RUN_def)
  with t(1) assms obtain a' where a: "a = x # a'" by (cases a; cases k) auto
  with t show "torn s" unfolding torn_def by (intro exI [of _ a'] exI [of _ k] exI [of _ b]) auto
next
  assume "torn s"
  then obtain a k b where "s = a @ replicate k (CHR '' '') @ b" "MIN_DEFECT_RUN \<le> k"
    "a = [] \<or> last a \<noteq> CHR '' ''" "b = [] \<or> hd b \<noteq> CHR '' ''" "\<not> prefix ''//'' b" unfolding torn_def by blast
  with assms show "torn (x # s)" unfolding torn_def
    by (intro exI [of _ "x # a"] exI [of _ k] exI [of _ b]) auto
qed

lemma blanks_split:
  assumes "replicate m c @ s = a @ replicate k c @ b" "a = [] \<or> last a \<noteq> c" "b = [] \<or> hd b \<noteq> c"
    "s = [] \<or> hd s \<noteq> c" "0 < k"
  shows "(a = [] \<and> k = m \<and> b = s) \<or> (\<exists>a'. a = replicate m c @ a' \<and> s = a' @ replicate k c @ b)"
  using assms
proof (induction m arbitrary: a k)
  case 0
  then show ?case by auto
next
  case (Suc m)
  show ?case
  proof (cases a)
    case Nil
    with Suc.prems have k: "replicate m c @ s = replicate (k - 1) c @ b" by (cases k) auto
    show ?thesis
    proof (cases "k = 1")
      case True
      with k Suc.prems Nil show ?thesis by (cases m) auto
    next
      case False
      with Suc.IH [of "[]" "k - 1"] k Suc.prems Nil show ?thesis by auto
    qed
  next
    case (Cons x a')
    with Suc.prems have x: "x = c" "replicate m c @ s = a' @ replicate k c @ b" by auto
    moreover have "a' \<noteq> []" "last a' \<noteq> c" using Suc.prems(2) Cons x(1) by auto
    ultimately show ?thesis using Suc.IH [of a' k] Suc.prems Cons by auto
  qed
qed

lemma torn_run:
  assumes "0 < m" "s = [] \<or> hd s \<noteq> CHR '' ''"
  shows "torn (replicate m (CHR '' '') @ s) \<longleftrightarrow> MIN_DEFECT_RUN \<le> m \<and> \<not> prefix ''//'' s \<or> torn s"
proof
  assume "torn (replicate m (CHR '' '') @ s)"
  then obtain a k b where t: "replicate m (CHR '' '') @ s = a @ replicate k (CHR '' '') @ b" "MIN_DEFECT_RUN \<le> k"
    "a = [] \<or> last a \<noteq> CHR '' ''" "b = [] \<or> hd b \<noteq> CHR '' ''" "\<not> prefix ''//'' b" unfolding torn_def by blast
  then have "0 < k" by (simp add: MIN_DEFECT_RUN_def)
  from blanks_split [OF t(1,3,4) assms(2) this] show "MIN_DEFECT_RUN \<le> m \<and> \<not> prefix ''//'' s \<or> torn s"
  proof
    assume "\<exists>a'. a = replicate m (CHR '' '') @ a' \<and> s = a' @ replicate k (CHR '' '') @ b"
    then obtain a' where a: "a = replicate m (CHR '' '') @ a'" "s = a' @ replicate k (CHR '' '') @ b" by blast
    have "a' = [] \<or> last a' \<noteq> CHR '' ''" using t(3) a(1) assms(1) by auto
    with a t show ?thesis unfolding torn_def by blast
  qed (use t in auto)
next
  assume "MIN_DEFECT_RUN \<le> m \<and> \<not> prefix ''//'' s \<or> torn s"
  then show "torn (replicate m (CHR '' '') @ s)"
  proof
    assume "MIN_DEFECT_RUN \<le> m \<and> \<not> prefix ''//'' s"
    with assms show ?thesis unfolding torn_def by (intro exI [of _ "[]"] exI [of _ m] exI [of _ s]) auto
  next
    assume "torn s"
    then obtain a k b where t: "s = a @ replicate k (CHR '' '') @ b" "MIN_DEFECT_RUN \<le> k"
      "a = [] \<or> last a \<noteq> CHR '' ''" "b = [] \<or> hd b \<noteq> CHR '' ''" "\<not> prefix ''//'' b" unfolding torn_def by blast
    have "a \<noteq> []" using t(1,2) assms(2) by (cases k) (auto simp: MIN_DEFECT_RUN_def)
    with t show ?thesis unfolding torn_def
      by (intro exI [of _ "replicate m (CHR '' '') @ a"] exI [of _ k] exI [of _ b]) auto
  qed
qed

lemma long_run_iff: "long_run s \<longleftrightarrow> torn s"
proof (induction s rule: long_run.induct)
  case (1 s)
  let ?run = "takeWhile (\<lambda>c. c = CHR '' '') s" and ?rest = "dropWhile (\<lambda>c. c = CHR '' '') s"
  consider "s = []" | x t where "s = x # t" "x \<noteq> CHR '' ''" | "s \<noteq> []" "hd s = CHR '' ''" by (cases s) auto
  then show ?case
  proof cases
    case 1
    then show ?thesis by (simp add: long_run.simps torn_def MIN_DEFECT_RUN_def)
  next
    case (2 x t)
    then show ?thesis using 1(1) by (subst long_run.simps) (simp add: torn_skip)
  next
    case 3
    have "replicate (length ?run) (CHR '' '') = ?run"
      by (rule replicate_length_same) (auto dest: set_takeWhileD)
    then have s: "s = replicate (length ?run) (CHR '' '') @ ?rest" by simp
    have run: "0 < length ?run" "?rest = [] \<or> hd ?rest \<noteq> CHR '' ''"
      using 3 hd_dropWhile [of "\<lambda>c. c = CHR '' ''" s] by (cases s; auto)+
    have IH: "long_run ?rest = torn ?rest"
      if "length ?run < MIN_DEFECT_RUN \<or> prefix ''//'' ?rest"
      using 1(2,3) [OF 3(1) _ refl refl] 3(2) that by blast
    have "long_run s \<longleftrightarrow> (if length ?run < MIN_DEFECT_RUN \<or> prefix ''//'' ?rest then long_run ?rest else True)"
      using 3 by (subst long_run.simps) (simp add: Let_def)
    moreover have "torn s \<longleftrightarrow> MIN_DEFECT_RUN \<le> length ?run \<and> \<not> prefix ''//'' ?rest \<or> torn ?rest"
      using torn_run [OF run] by (simp flip: s)
    ultimately show ?thesis using IH by auto
  qed
qed

text \<open>A line is clean if it is blank, a comment, or free of control characters and torn runs.\<close>

definition clean_line :: "string \<Rightarrow> bool" where
  "clean_line raw \<longleftrightarrow> (let t = trim_start raw in
     t = [] \<or> prefix ''//'' t \<or> first_control t = None \<and> \<not> torn t)"

lemma scan_line_None: "scan_line name n raw = None \<longleftrightarrow> clean_line raw"
  by (auto simp: scan_line_def clean_line_def is_excluded_line_def EXCLUDED_LINE_RANGES_def CLI_COLUMN_FILES_def
      long_run_iff Let_def split: option.splits)

lemma scan_file_Nil: "scan_file name contents = [] \<longleftrightarrow> list_all clean_line (str_lines contents)"
proof -
  have "List.map_filter (\<lambda>(idx, l). scan_line name (of_nat (idx + 1)) l) (enumerate n ls) = [] \<longleftrightarrow> list_all clean_line ls"
    for n ls
  proof (induction ls arbitrary: n)
    case (Cons l ls)
    then show ?case
      using scan_line_None [of name "of_nat (n + 1)" l] by (auto simp: map_filter_simps split: option.splits)
  qed (simp add: map_filter_simps)
  then show ?thesis by (simp only: scan_file_def)
qed

lemma guard_exact:
  "guard_passes root_dir \<longleftrightarrow> 15 < length (dir_files ([], root_dir))
     \<and> (\<forall>(name, contents) \<in> set (dir_files ([], root_dir)). list_all clean_line (str_lines contents))"
proof -
  have "snd (scan_source_tree root_dir) = [] \<longleftrightarrow> scan_all (dir_files ([], root_dir)) = []"
    using scan_source_tree_exact [of root_dir] by (metis mset_zero_iff)
  also have "\<dots> \<longleftrightarrow> (\<forall>(name, contents) \<in> set (dir_files ([], root_dir)). list_all clean_line (str_lines contents))"
    by (auto simp: scan_all_def scan_file_Nil)
  finally show ?thesis
    using scan_source_tree_exact [of root_dir] by (auto simp: guard_passes_def MIN_FILES_SCANNED_def split_def)
qed

end
