(* ===== verification/Spec2Isabelle.thy ===== *)
theory Spec2Isabelle
  imports Limits_Rates Stun Dashboard Startup Relay_Teardown Continuation_Guard
begin

text \<open>
  \<^bold>\<open>A verification development for dig-relay.\<close>

  The program is a relay server for a peer-to-peer network, written in Rust (\<^verbatim>\<open>src/src/*.rs\<close>).
  Nodes behind NAT open a WebSocket to it, register a peer id on a network, and the relay forwards
  their messages to the other peers of that network, introduces peers to each other (peer exchange),
  answers STUN binding requests, and publishes what it sees. Around that core stand the limits that
  keep an unauthenticated client from exhausting it, the PROXY protocol of the load balancer before
  it, the HTTP surface of its ports and the installation as a system service.

  \<^bold>\<open>Theories and the code they model.\<close>

  \<^item> \<^verbatim>\<open>Relay_Prelude\<close>: words, saturating arithmetic, hash maps as association lists with distinct
    keys, the eviction step shared by four tables.
  \<^item> \<^verbatim>\<open>Net_Addr\<close>, \<^verbatim>\<open>Rust_Str\<close>, \<^verbatim>\<open>Ip_Text\<close>: what the code uses of the standard library, addresses,
    UTF-8 strings (a string is its bytes) and the text form of addresses, with print/parse round trips.
  \<^item> \<^verbatim>\<open>Byte_Stream\<close>, \<^verbatim>\<open>Proxy_Protocol\<close>, \<^verbatim>\<open>Cidr_Text\<close>: \<^verbatim>\<open>proxy_protocol.rs\<close>. The locale
    \<open>replay_reader\<close> is the contract of a stream that replays a prefix; it is interpreted for the socket,
    for \<^verbatim>\<open>PrefixedStream\<close> and for the \<^verbatim>\<open>Prefixed\<close> of \<^verbatim>\<open>http_serve.rs\<close>.
  \<^item> \<^verbatim>\<open>Relay_Config\<close>: \<^verbatim>\<open>config.rs\<close>, every default and \<^verbatim>\<open>validate\<close>.
  \<^item> \<^verbatim>\<open>Limit_Contracts\<close>, \<^verbatim>\<open>Abuse_Limits\<close>, \<^verbatim>\<open>Limits_Rates\<close>: \<^verbatim>\<open>limits.rs\<close>. The contracts of a slot pool and of
    a windowed budget are locales interpreted on the policy's own operations; the theorems count live
    slots, allowed registrations, strikes and bans over every sequence of calls.
  \<^item> \<^verbatim>\<open>Wire\<close>, \<^verbatim>\<open>Registry\<close>, \<^verbatim>\<open>Dial\<close>, \<^verbatim>\<open>Dht_View\<close>, \<^verbatim>\<open>Pex\<close>: the files of the same names. The PEX engine
    is the crate \<^verbatim>\<open>dig_pex\<close> and a parameter; what is relied on is the predicate \<open>engine_laws\<close>.
  \<^item> \<^verbatim>\<open>Channel\<close>, \<^verbatim>\<open>Server\<close>, \<^verbatim>\<open>Server_Handlers\<close>: \<^verbatim>\<open>server.rs\<close>. Bounded queues are a store from connection
    ids to channels; every handler of \<^verbatim>\<open>handle_connection\<close>, the register path, teardown, the health
    sweep, the PEX tick and the DHT sweep are functions on \<open>relay_state\<close>, split where the code awaits.
  \<^item> \<^verbatim>\<open>Stun\<close>: \<^verbatim>\<open>stun.rs\<close>, with the datagram codec of \<^verbatim>\<open>dig_stun\<close> a parameter.
  \<^item> \<^verbatim>\<open>Http_Serve\<close>: \<^verbatim>\<open>http_serve.rs\<close>.
  \<^item> \<^verbatim>\<open>Json_Value\<close>, \<^verbatim>\<open>F64\<close>, \<^verbatim>\<open>Geo_Map\<close>: JSON values as the pages serialise them, IEEE binary64 numbers as
    rationals with rounding, and on them \<^verbatim>\<open>map.rs\<close> and \<^verbatim>\<open>geoip.rs\<close>.
  \<^item> \<^verbatim>\<open>Dashboard\<close>: \<^verbatim>\<open>dashboard.rs\<close> and \<^verbatim>\<open>health.rs\<close>: the snapshots, the routes of the traffic port and the
    redirect listener. The pages and images compiled in and the JSON printer are in the record \<open>site\<close>.
  \<^item> \<^verbatim>\<open>Service_Env\<close>, \<^verbatim>\<open>Service_Host\<close>, \<^verbatim>\<open>Service\<close>: \<^verbatim>\<open>service.rs\<close> and \<^verbatim>\<open>main.rs\<close>. The environment round trip, then
    install, uninstall, start, stop and status over a host of service managers and tools; what is
    relied on of a manager is the predicate \<open>honest_manager\<close>.
  \<^item> \<^verbatim>\<open>Tls_Identity\<close>: \<^verbatim>\<open>tls.rs\<close> and the connection task of \<^verbatim>\<open>run\<close> up to \<^verbatim>\<open>handle_connection\<close>. PEM, X.509, SHA-256
    and the handshake are parameters, with the predicate \<open>honest_acceptor\<close>.
  \<^item> \<^verbatim>\<open>Startup\<close>: \<^verbatim>\<open>lib.rs\<close>, \<^verbatim>\<open>net.rs\<close> and \<^verbatim>\<open>win_service.rs\<close>.
  \<^item> \<^verbatim>\<open>Continuation_Guard\<close>: \<^verbatim>\<open>continuation_guard.rs\<close>, the check of the source text that runs with the tests; its
    verdict is characterised exactly, over any tree of files.
  \<^item> \<^verbatim>\<open>Relay_System\<close>: the running relay. One task per connection with its phase and what it holds there,
    its writer, the sweeps and the housekeeping; \<open>step\<close> executes one section of one task between
    two await points, and \<open>reachable\<close> closes the initial state under steps.
  \<^item> \<^verbatim>\<open>Relay_Invariants\<close>, \<^verbatim>\<open>Relay_Teardown\<close>: what every interleaving keeps, and that a teardown ends.

  \<^bold>\<open>What is shown.\<close> Of the operations: each handler's effect on every branch (\<open>Server_Handlers\<close>), the
  exact behaviour of the registry, the limits, the budgets and the bans over any sequence of calls, of
  the parsers on any chunking of their input, of the pages and of the service commands. Of the whole:
  the counters, slots and queues are exact and bounded in every reachable state; an id is held only by
  a connection entitled to it, and displaced only by the sweep or by such a connection; a connection
  that has left its read loop ends after a bounded number of its own steps unless a sender of its
  channel is held elsewhere. Three lemmas at the end of \<open>Relay_System\<close> evaluate runs in which the code
  does less than its comments say: a teardown that evicts its own successor, a second registration
  that blocks a teardown, and connections admitted above the cap.

  \<^bold>\<open>Conventions.\<close> Clock readings are arguments of the operations that take them. Counters and times keep
  their width as words; lengths and capacities (\<^verbatim>\<open>usize\<close>) are naturals, and \<open>max_connections\<close> is assumed
  to be below \<open>2 ^ 64\<close> where a counter must not wrap. Durations are nanoseconds. Panics and errors are
  values of sum and option types. Loops are structural recursion or have a termination proof, and no
  result rests on running out of fuel. In \<open>Relay_System\<close> the code between two await points is one
  step; the mutex-protected calls of the abuse policy inside such a step are interleaved one by one in
  \<open>abuse_reach\<close> of \<open>Abuse_Limits\<close>.

  \<^bold>\<open>Not modelled.\<close> The sockets, the WebSocket and TLS protocols, the JSON and STUN codecs, the PEX engine, the
  GeoIP database format, argument parsing and the service managers are other people's code: they are
  parameters or inputs. The HTTP server of the health port is \<^verbatim>\<open>axum\<close>'s; its one handler is modelled. The
  text of the pages, logging, and the dispatcher macro of \<^verbatim>\<open>win_service.rs\<close> have no behaviour to state.
  Unit tests are left out. The STUN counter is updated by the STUN task and read by the pages; it takes part
  in no other decision and is not part of \<open>Relay_System\<close>.
\<close>

end
